(* ===== verification/Rperf_Prelude.thy ===== *)
theory Rperf_Prelude
  imports Main "HOL-Library.Word"
begin

text \<open>
  Shared vocabulary of the development: the error kinds of \<open>std::io::Error\<close> the program
  distinguishes, the type of fallible stateful operations (\<open>io::Result\<close> computed while a
  socket, a clock or a session changes), its sequencing operators, and the generic lemmas
  on lists and options the components share.

  An \<open>io::Error\<close> is modelled by its \<open>ErrorKind\<close>: the message text is only ever logged
  to stderr and no branch of the program reads it.
\<close>

section \<open>Collections of facts\<close>

named_theorems io_simps \<open>unfolding rules of the sequencing operators\<close>
named_theorems tx_simps \<open>rules that compute what a socket has been sent\<close>
named_theorems wf_intros \<open>introduction rules for the components' invariants\<close>

section \<open>Error kinds and fallible computations\<close>

datatype io_kind =
    WouldBlock | TimedOut | UnexpectedEof | WriteZero | InvalidData | InvalidInput
  | PermissionDenied | ConnectionReset | BrokenPipe | Interrupted | Unsupported | OtherKind

type_synonym 'a io_result = "io_kind + 'a"

type_synonym ('s, 'a) io = "'s \<Rightarrow> 'a io_result \<times> 's"

definition io_return :: "'a \<Rightarrow> ('s, 'a) io" where
  "io_return x = (\<lambda>s. (Inr x, s))"

definition io_fail :: "io_kind \<Rightarrow> ('s, 'a) io" where
  "io_fail k = (\<lambda>s. (Inl k, s))"

text \<open>The question mark operator: an error returns early, with the state reached so far.\<close>

definition io_bind :: "('s, 'a) io \<Rightarrow> ('a \<Rightarrow> ('s, 'b) io) \<Rightarrow> ('s, 'b) io" where
  "io_bind m f = (\<lambda>s. case m s of (Inl k, s') \<Rightarrow> (Inl k, s') | (Inr x, s') \<Rightarrow> f x s')"

text \<open>Sequencing of two operations the first of which returns the unit value.\<close>

definition io_then :: "('s, unit) io \<Rightarrow> ('s, 'b) io \<Rightarrow> ('s, 'b) io" where
  "io_then m n = io_bind m (\<lambda>_. n)"

text \<open>\<open>let _ = op;\<close>: the result is dropped, the effect stays.\<close>

definition io_ignore :: "('s, 'a) io \<Rightarrow> ('s, unit) io" where
  "io_ignore m = (\<lambda>s. (Inr (), snd (m s)))"

text \<open>\<open>match op\<close>: the result is inspected and both outcomes continue.\<close>

definition io_try :: "('s, 'a) io \<Rightarrow> ('s, 'a io_result) io" where
  "io_try m = (\<lambda>s. (Inr (fst (m s)), snd (m s)))"

lemma io_return_run [simp, io_simps]: "io_return x s = (Inr x, s)"
  by (simp add: io_return_def)

lemma io_fail_run [simp, io_simps]: "io_fail k s = (Inl k, s)"
  by (simp add: io_fail_def)

lemma io_bind_Inr [io_simps]: "m s = (Inr x, s') \<Longrightarrow> io_bind m f s = f x s'"
  by (simp add: io_bind_def)

lemma io_bind_Inl [io_simps]: "m s = (Inl k, s') \<Longrightarrow> io_bind m f s = (Inl k, s')"
  by (simp add: io_bind_def)

lemma io_then_Inr [io_simps]: "m s = (Inr (), s') \<Longrightarrow> io_then m n s = n s'"
  by (simp add: io_then_def io_bind_def)

lemma io_then_Inl [io_simps]: "m s = (Inl k, s') \<Longrightarrow> io_then m n s = (Inl k, s')"
  by (simp add: io_then_def io_bind_def)

lemma io_ignore_run [io_simps]: "m s = (r, s') \<Longrightarrow> io_ignore m s = (Inr (), s')"
  by (simp add: io_ignore_def)

lemma io_try_run [io_simps]: "m s = (r, s') \<Longrightarrow> io_try m s = (Inr r, s')"
  by (simp add: io_try_def)

lemma io_bind_return [simp]: "io_bind (io_return x) f = f x"
  by (rule ext) (simp add: io_bind_def)

lemma io_bind_fail [simp]: "io_bind (io_fail k) f = io_fail k"
  by (rule ext) (simp add: io_bind_def)

lemma io_bind_assoc: "io_bind (io_bind m f) g = io_bind m (\<lambda>x. io_bind (f x) g)"
  by (rule ext) (simp add: io_bind_def split: prod.splits sum.splits)

lemma io_bind_eq_InrE:
  assumes "io_bind m f s = (Inr y, s')"
  obtains x s1 where "m s = (Inr x, s1)" and "f x s1 = (Inr y, s')"
  using assms by (auto simp: io_bind_def split: prod.splits sum.splits)

lemma io_then_eq_InrE:
  assumes "io_then m n s = (Inr y, s')"
  obtains s1 where "m s = (Inr (), s1)" and "n s1 = (Inr y, s')"
  using assms by (auto simp: io_then_def elim: io_bind_eq_InrE)

section \<open>Total-correctness triples\<close>

text \<open>
  \<open>io_ok P m Q\<close>: from every state with \<open>P\<close> the operation returns \<open>Ok\<close>, and its
  result and final state satisfy \<open>Q\<close>. The triple claims that the operation returns, so
  it cannot hold of one that fails.
\<close>

definition io_ok :: "('s \<Rightarrow> bool) \<Rightarrow> ('s, 'a) io \<Rightarrow> ('a \<Rightarrow> 's \<Rightarrow> bool) \<Rightarrow> bool" where
  "io_ok P m Q \<longleftrightarrow> (\<forall>s. P s \<longrightarrow> (\<exists>x s'. m s = (Inr x, s') \<and> Q x s'))"

lemma io_okI: "(\<And>s. P s \<Longrightarrow> \<exists>x s'. m s = (Inr x, s') \<and> Q x s') \<Longrightarrow> io_ok P m Q"
  by (simp add: io_ok_def)

lemma io_okE:
  assumes "io_ok P m Q" and "P s"
  obtains x s' where "m s = (Inr x, s')" and "Q x s'"
  using assms by (auto simp: io_ok_def)

lemma io_ok_return: "(\<And>s. P s \<Longrightarrow> Q x s) \<Longrightarrow> io_ok P (io_return x) Q"
  by (simp add: io_ok_def)

lemma io_ok_bind:
  assumes "io_ok P m R" and "\<And>x. io_ok (R x) (f x) Q"
  shows "io_ok P (io_bind m f) Q"
proof (rule io_okI)
  fix s assume "P s"
  with assms(1) obtain x s1 where m: "m s = (Inr x, s1)" and "R x s1" by (rule io_okE)
  from assms(2) \<open>R x s1\<close> obtain y s2 where "f x s1 = (Inr y, s2)" and "Q y s2"
    by (rule io_okE)
  with m show "\<exists>y s'. io_bind m f s = (Inr y, s') \<and> Q y s'"
    by (auto simp: io_bind_Inr)
qed

lemma io_ok_then:
  assumes "io_ok P m (\<lambda>_. R)" and "io_ok R n Q"
  shows "io_ok P (io_then m n) Q"
  unfolding io_then_def using assms by (rule io_ok_bind)

lemma io_ok_conseq:
  assumes "io_ok P m Q" and "\<And>s. P' s \<Longrightarrow> P s" and "\<And>x s. Q x s \<Longrightarrow> Q' x s"
  shows "io_ok P' m Q'"
  using assms by (force simp: io_ok_def)

lemma io_ok_pre: "io_ok P m Q \<Longrightarrow> (\<And>s. P' s \<Longrightarrow> P s) \<Longrightarrow> io_ok P' m Q"
  by (rule io_ok_conseq)

lemma io_ok_ignore:
  assumes "io_ok P m (\<lambda>_. Q)"
  shows "io_ok P (io_ignore m) (\<lambda>_. Q)"
  using assms by (force simp: io_ok_def io_ignore_def)

lemma io_ok_try:
  assumes "io_ok P m (\<lambda>x. Q (Inr x))"
  shows "io_ok P (io_try m) Q"
  using assms by (force simp: io_ok_def io_try_def)

lemma io_ok_if:
  "(b \<Longrightarrow> io_ok P m Q) \<Longrightarrow> (\<not> b \<Longrightarrow> io_ok P n Q) \<Longrightarrow> io_ok P (if b then m else n) Q"
  by simp

section \<open>Lists and options\<close>

end
