(* ===== verification/Rust_Words.thy ===== *)
theory Rust_Words
  imports Rperf_Prelude
begin

text \<open>
  The fixed-width integers of the program and the operations of the Rust standard library it
  calls on them: \<open>saturating_add\<close>, \<open>saturating_sub\<close>, \<open>checked_add\<close>, \<open>checked_mul\<close>,
  \<open>abs_diff\<close>, \<open>to_be_bytes\<close> and \<open>from_be_bytes\<close>. Plain \<open>+\<close>, \<open>-\<close> and \<open>*\<close>
  wrap around, as they do in the release profile the README builds with. An \<open>i64\<close> is the same
  64 bits read by \<^const>\<open>sint\<close>. A \<open>usize\<close> that counts bytes of a buffer in memory is a
  \<^typ>\<open>nat\<close>.
\<close>

section \<open>Types\<close>

type_synonym u8 = "8 word"
type_synonym u16 = "16 word"
type_synonym u32 = "32 word"
type_synonym u64 = "64 word"
type_synonym i64 = "64 word"
type_synonym bytes = "u8 list"

section \<open>Saturating and checked arithmetic\<close>

lemma unat_bound: "unat (w :: 'a::len word) < 2 ^ LENGTH('a)"
  by (rule unsigned_less)

definition saturating_sub :: "'a::len word \<Rightarrow> 'a word \<Rightarrow> 'a word" where
  "saturating_sub a b = (if b \<le> a then a - b else 0)"

definition saturating_add :: "'a::len word \<Rightarrow> 'a word \<Rightarrow> 'a word" where
  "saturating_add a b = (if unat a + unat b < 2 ^ LENGTH('a) then a + b else - 1)"

definition checked_add :: "'a::len word \<Rightarrow> 'a word \<Rightarrow> 'a word option" where
  "checked_add a b = (if unat a + unat b < 2 ^ LENGTH('a) then Some (a + b) else None)"

definition checked_mul :: "'a::len word \<Rightarrow> 'a word \<Rightarrow> 'a word option" where
  "checked_mul a b = (if unat a * unat b < 2 ^ LENGTH('a) then Some (a * b) else None)"

definition abs_diff :: "'a::len word \<Rightarrow> 'a word \<Rightarrow> 'a word" where
  "abs_diff a b = (if a \<le> b then b - a else a - b)"

lemma unat_saturating_sub: "unat (saturating_sub a b) = unat a - unat b"
  by (auto simp: saturating_sub_def unat_sub word_le_nat_alt)

lemma unat_saturating_add:
  "unat (saturating_add a (b :: 'a::len word)) = min (unat a + unat b) (2 ^ LENGTH('a) - 1)"
  by (auto simp: saturating_add_def unat_add_lem [THEN iffD1] unsigned_minus_1_eq_mask mask_eq_exp_minus_1
      min_def)

lemma unat_checked_add:
  "checked_add a (b :: 'a::len word) = Some c \<longleftrightarrow> unat c = unat a + unat b"
proof
  assume "checked_add a b = Some c"
  then show "unat c = unat a + unat b"
    by (auto simp: checked_add_def unat_add_lem [THEN iffD1] split: if_splits)
next
  assume c: "unat c = unat a + unat b"
  then have lt: "unat a + unat b < 2 ^ LENGTH('a)"
    using unat_bound [of c] by simp
  then have "unat (a + b) = unat c"
    using c by (simp add: unat_add_lem [THEN iffD1])
  then show "checked_add a b = Some c"
    using lt by (simp add: checked_add_def word_unat_eq_iff)
qed

lemma unat_checked_mul:
  "checked_mul a (b :: 'a::len word) = Some c \<longleftrightarrow> unat c = unat a * unat b"
proof
  assume "checked_mul a b = Some c"
  then show "unat c = unat a * unat b"
    by (auto simp: checked_mul_def unat_mult_lem [THEN iffD1] split: if_splits)
next
  assume c: "unat c = unat a * unat b"
  then have lt: "unat a * unat b < 2 ^ LENGTH('a)"
    using unat_bound [of c] by simp
  then have "unat (a * b) = unat c"
    using c by (simp add: unat_mult_lem [THEN iffD1])
  then show "checked_mul a b = Some c"
    using lt by (simp add: checked_mul_def word_unat_eq_iff)
qed

lemma checked_mul_None_iff:
  "checked_mul a (b :: 'a::len word) = None \<longleftrightarrow> 2 ^ LENGTH('a) \<le> unat a * unat b"
  by (auto simp: checked_mul_def)

lemma unat_abs_diff:
  "unat (abs_diff a b) = (if unat a \<le> unat b then unat b - unat a else unat a - unat b)"
  by (auto simp: abs_diff_def unat_sub word_le_nat_alt)

section \<open>Big-endian bytes\<close>

text \<open>\<open>nat_be k x\<close> is the low \<open>k\<close> bytes of \<open>x\<close>, most significant first.\<close>

fun nat_be :: "nat \<Rightarrow> nat \<Rightarrow> bytes" where
  "nat_be 0 x = []"
| "nat_be (Suc k) x = nat_be k (x div 256) @ [word_of_nat (x mod 256)]"

definition be_nat :: "bytes \<Rightarrow> nat" where
  "be_nat bs = foldl (\<lambda>a b. a * 256 + unat b) 0 bs"

lemma be_nat_Nil [simp]: "be_nat [] = 0"
  by (simp add: be_nat_def)

lemma be_nat_snoc [simp]: "be_nat (bs @ [b]) = be_nat bs * 256 + unat b"
  by (simp add: be_nat_def)

lemma nat_be_numeral:
  "nat_be (numeral k) x = nat_be (pred_numeral k) (x div 256) @ [word_of_nat (x mod 256)]"
  by (simp add: numeral_eq_Suc [of k])

lemma length_nat_be [simp]: "length (nat_be k x) = k"
  by (induction k arbitrary: x) auto

lemma unat_u8_of_nat_mod: "unat (word_of_nat (x mod 256) :: u8) = x mod 256"
  by (simp add: unat_of_nat)

lemma be_nat_nat_be: "be_nat (nat_be k x) = x mod 256 ^ k"
proof (induction k arbitrary: x)
  case 0
  then show ?case by simp
next
  case (Suc k)
  have "be_nat (nat_be (Suc k) x) = (x div 256 mod 256 ^ k) * 256 + x mod 256"
    by (simp add: Suc unat_u8_of_nat_mod)
  also have "\<dots> = x mod (256 * 256 ^ k)"
    by (simp add: mod_mult2_eq)
  finally show ?case by simp
qed

lemma be_nat_less: "be_nat bs < 256 ^ length bs"
proof (induction bs rule: rev_induct)
  case Nil
  then show ?case by simp
next
  case (snoc b bs)
  have "unat b < 256" using unat_bound [of b] by simp
  then have "be_nat bs * 256 + unat b < (be_nat bs + 1) * 256" by simp
  also have "\<dots> \<le> 256 ^ length bs * 256"
    using snoc by (intro mult_le_mono1) simp
  finally show ?case by simp
qed

lemma nat_be_be_nat: "nat_be (length bs) (be_nat bs) = bs"
proof (induction bs rule: rev_induct)
  case Nil
  then show ?case by simp
next
  case (snoc b bs)
  have b: "unat b < 256" using unat_bound [of b] by simp
  then show ?case using snoc by simp
qed

definition u16_to_be_bytes :: "u16 \<Rightarrow> bytes" where
  "u16_to_be_bytes w = nat_be 2 (unat w)"

definition u32_to_be_bytes :: "u32 \<Rightarrow> bytes" where
  "u32_to_be_bytes w = nat_be 4 (unat w)"

definition u64_to_be_bytes :: "u64 \<Rightarrow> bytes" where
  "u64_to_be_bytes w = nat_be 8 (unat w)"

definition from_be_bytes :: "bytes \<Rightarrow> 'a::len word" where
  "from_be_bytes bs = word_of_nat (be_nat bs)"

lemma length_to_be_bytes [simp]:
  "length (u16_to_be_bytes a) = 2" "length (u32_to_be_bytes b) = 4"
  "length (u64_to_be_bytes c) = 8"
  by (simp_all add: u16_to_be_bytes_def u32_to_be_bytes_def u64_to_be_bytes_def)

lemma from_to_be_bytes [simp]:
  "from_be_bytes (u16_to_be_bytes a) = a" "from_be_bytes (u32_to_be_bytes b) = b"
  "from_be_bytes (u64_to_be_bytes c) = c"
  using unat_bound [of a] unat_bound [of b] unat_bound [of c]
  by (simp_all add: from_be_bytes_def u16_to_be_bytes_def u32_to_be_bytes_def
      u64_to_be_bytes_def be_nat_nat_be)

lemma unat_from_be_bytes:
  assumes "8 * length bs \<le> LENGTH('a)"
  shows "unat (from_be_bytes bs :: 'a::len word) = be_nat bs"
proof -
  have "be_nat bs < 256 ^ length bs" by (rule be_nat_less)
  also have "(256::nat) ^ length bs = 2 ^ (8 * length bs)"
    by (simp add: power_mult)
  also have "\<dots> \<le> 2 ^ LENGTH('a)"
    using assms by (intro power_increasing) auto
  finally show ?thesis
    by (simp add: from_be_bytes_def unat_of_nat)
qed

lemma to_from_be_bytes:
  "length bs = 4 \<Longrightarrow> u32_to_be_bytes (from_be_bytes bs) = bs"
  "length bs = 8 \<Longrightarrow> u64_to_be_bytes (from_be_bytes bs) = bs"
  using nat_be_be_nat [of bs]
  by (simp_all add: u32_to_be_bytes_def u64_to_be_bytes_def unat_from_be_bytes)

end
