(* ===== verification/Rust_Time.thy ===== *)
theory Rust_Time
  imports Complex_Main Rust_Words
begin

text \<open>
  \<open>std::time\<close> as the program uses it, and \<^verbatim>\<open>src/common/timer.rs\<close>.

  An \<open>Instant\<close> is a count of nanoseconds on the monotonic clock since a moment before the
  process started, a \<open>Duration\<close> a count of nanoseconds. \<open>Instant::duration_since\<close> saturates
  at zero, which is the subtraction of \<^typ>\<open>nat\<close>. Reading a clock is an input: a function
  that calls \<open>Instant::now()\<close> takes the reading as an argument.

  An \<open>f64\<close> is idealised as an exact real number: the theorems about throughput, pacing
  and jitter are about the formulas of the source without rounding.
\<close>

type_synonym instant = nat
type_synonym duration = nat
type_synonym f64 = real

definition duration_since :: "instant \<Rightarrow> instant \<Rightarrow> duration" where
  "duration_since later earlier = later - earlier"

definition from_secs :: "nat \<Rightarrow> duration" where
  "from_secs n = n * 1000000000"

definition from_millis :: "nat \<Rightarrow> duration" where
  "from_millis n = n * 1000000"

definition as_secs_f64 :: "duration \<Rightarrow> f64" where
  "as_secs_f64 d = real d / 1000000000"

lemma duration_since_add [simp]: "duration_since (t + d) t = d"
  by (simp add: duration_since_def)

lemma as_secs_f64_mono: "d \<le> e \<Longrightarrow> as_secs_f64 d \<le> as_secs_f64 e"
  by (simp add: as_secs_f64_def divide_right_mono)

lemma as_secs_f64_nonneg [simp]: "0 \<le> as_secs_f64 d"
  by (simp add: as_secs_f64_def)

lemma as_secs_f64_add: "as_secs_f64 (d + e) = as_secs_f64 d + as_secs_f64 e"
  by (simp add: as_secs_f64_def add_divide_distrib)

lemma as_secs_f64_from_secs [simp]: "as_secs_f64 (from_secs n) = real n"
  by (simp add: as_secs_f64_def from_secs_def)

section \<open>Timer\<close>

record timer =
  timer_start :: instant

definition timer_new :: "instant \<Rightarrow> timer" where
  "timer_new now = \<lparr>timer_start = now\<rparr>"

definition timer_elapsed :: "timer \<Rightarrow> instant \<Rightarrow> duration" where
  "timer_elapsed t now = duration_since now (timer_start t)"

definition timer_is_elapsed :: "timer \<Rightarrow> instant \<Rightarrow> duration \<Rightarrow> bool" where
  "timer_is_elapsed t now d \<longleftrightarrow> d \<le> timer_elapsed t now"

text \<open>Once a timer has elapsed it stays elapsed.\<close>

lemma timer_is_elapsed_mono:
  "timer_is_elapsed t now d \<Longrightarrow> now \<le> later \<Longrightarrow> timer_is_elapsed t later d"
  by (auto simp: timer_is_elapsed_def timer_elapsed_def duration_since_def)

end
