(* ===== verification/Sockets.thy ===== *)
theory Sockets
  imports Rust_Time
begin

text \<open>
  \<^verbatim>\<open>src/common/protocol.rs\<close>: the \<open>Socket\<close> trait, its TCP implementation and the
  in-memory \<open>MockSocket\<close>, with the two interfaces the framing layer relies on.

  A \<open>TcpStream\<close> is what the operating system does with it: \<open>tcp_rx\<close> is what the
  successive \<open>read\<close> calls will find (a chunk of the peer's bytes, the end of the stream as
  an empty chunk, a pause of the peer, or an error), \<open>tcp_tx\<close> what the successive \<open>write\<close> calls will do (how
  many bytes the kernel takes, or an error), and \<open>tcp_out\<close> the bytes taken so far. Both
  scripts are arbitrary, so a statement about all of them covers every chunking and every
  failure. When the script of reads is used up there is nothing to read: a non-blocking
  socket or one with a deadline reports \<open>WouldBlock\<close>. What a pause does depends on the socket:
  a non-blocking one reports \<open>WouldBlock\<close>, a read deadline runs out if the pause lasts that
  long, and a blocking socket without a deadline waits it out.
\<close>

section \<open>TCP streams\<close>

datatype rx_event = RxData bytes | RxErr io_kind | RxIdle duration
datatype tx_event = TxAccept nat | TxErr io_kind

record tuning_opts =
  tu_window_size :: "u32 option"
  tu_mss :: "u32 option"
  tu_congestion :: "nat list option"
  tu_tos :: "u8 option"

text \<open>The \<open>setsockopt\<close> calls of \<open>apply_tuning\<close>; a size is passed as a C int.\<close>

datatype sockopt =
    SoSndbuf "32 word" | SoRcvbuf "32 word" | IpTos "32 word"
  | TcpMaxseg "32 word" | TcpCongestion "nat list"

record tcp =
  tcp_rx :: "rx_event list"
  tcp_tx :: "tx_event list"
  tcp_out :: bytes
  tcp_nonblocking :: bool
  tcp_read_timeout :: "duration option"
  tcp_write_timeout :: "duration option"
  tcp_sockopts :: "sockopt list"

fun rx_next ::
  "bool \<Rightarrow> duration option \<Rightarrow> nat \<Rightarrow> rx_event list \<Rightarrow> bytes io_result \<times> rx_event list" where
  "rx_next nonblocking deadline n [] = (Inl WouldBlock, [])"
| "rx_next nonblocking deadline n (RxErr k # r) = (Inl k, r)"
| "rx_next nonblocking deadline n (RxData c # r) =
     (if c = [] then (Inr [], RxData c # r)
      else if length c \<le> n then (Inr c, r)
      else (Inr (take n c), RxData (drop n c) # r))"
| "rx_next nonblocking deadline n (RxIdle d # r) =
     (if nonblocking then (Inl WouldBlock, r)
      else case deadline of
             None \<Rightarrow> rx_next nonblocking deadline n r
           | Some tm \<Rightarrow>
               if tm \<le> d then (Inl WouldBlock, RxIdle (d - tm) # r)
               else rx_next nonblocking deadline n r)"

definition tcp_recv :: "nat \<Rightarrow> (tcp, bytes) io" where
  "tcp_recv n s =
     (case rx_next (tcp_nonblocking s) (tcp_read_timeout s) n (tcp_rx s) of
        (q, r) \<Rightarrow> (q, s\<lparr>tcp_rx := r\<rparr>))"

definition tcp_send :: "bytes \<Rightarrow> (tcp, nat) io" where
  "tcp_send buf s =
     (case tcp_tx s of
        [] \<Rightarrow> (Inr (length buf), s\<lparr>tcp_out := tcp_out s @ buf\<rparr>)
      | TxErr k # r \<Rightarrow> (Inl k, s\<lparr>tcp_tx := r\<rparr>)
      | TxAccept k # r \<Rightarrow>
          (Inr (min k (length buf)),
           s\<lparr>tcp_tx := r, tcp_out := tcp_out s @ take (min k (length buf)) buf\<rparr>))"

definition tcp_set_nonblocking :: "bool \<Rightarrow> (tcp, unit) io" where
  "tcp_set_nonblocking b s = (Inr (), s\<lparr>tcp_nonblocking := b\<rparr>)"

text \<open>The standard library refuses a zero deadline.\<close>

definition tcp_set_read_timeout :: "duration option \<Rightarrow> (tcp, unit) io" where
  "tcp_set_read_timeout t s =
     (if t = Some 0 then (Inl InvalidInput, s) else (Inr (), s\<lparr>tcp_read_timeout := t\<rparr>))"

definition tcp_set_write_timeout :: "duration option \<Rightarrow> (tcp, unit) io" where
  "tcp_set_write_timeout t s =
     (if t = Some 0 then (Inl InvalidInput, s) else (Inr (), s\<lparr>tcp_write_timeout := t\<rparr>))"

text \<open>
  \<open>impl Socket for Tcp\<close>, \<open>apply_tuning\<close>, on Linux: every option the peer or the user asked
  for is set, in this order; a failing \<open>setsockopt\<close> is logged and never reported.
\<close>

definition tuning_calls :: "tuning_opts \<Rightarrow> sockopt list" where
  "tuning_calls opts =
     (case tu_window_size opts of None \<Rightarrow> [] | Some w \<Rightarrow> [SoSndbuf w, SoRcvbuf w]) @
     (case tu_tos opts of None \<Rightarrow> [] | Some t \<Rightarrow> [IpTos (ucast t)]) @
     (case tu_mss opts of None \<Rightarrow> [] | Some m \<Rightarrow> [TcpMaxseg m]) @
     (case tu_congestion opts of None \<Rightarrow> [] | Some a \<Rightarrow> [TcpCongestion a])"

definition tcp_apply_tuning :: "tuning_opts \<Rightarrow> (tcp, unit) io" where
  "tcp_apply_tuning opts s = (Inr (), s\<lparr>tcp_sockopts := tcp_sockopts s @ tuning_calls opts\<rparr>)"

section \<open>The mock socket\<close>

record mock_socket =
  written :: bytes
  send_err :: "io_kind option"
  recv_queue :: "bytes list"
  mock_nonblocking :: "bool option"
  mock_read_timeout :: "duration option option"

definition mock_new :: mock_socket where
  "mock_new = \<lparr>written = [], send_err = None, recv_queue = [], mock_nonblocking = None,
     mock_read_timeout = None\<rparr>"

definition mock_recv :: "nat \<Rightarrow> (mock_socket, bytes) io" where
  "mock_recv n s =
     (case recv_queue s of
        [] \<Rightarrow> (Inl WouldBlock, s)
      | c # q \<Rightarrow> (Inr (take (min (length c) n) c), s\<lparr>recv_queue := q\<rparr>))"

definition mock_send :: "bytes \<Rightarrow> (mock_socket, nat) io" where
  "mock_send buf s =
     (case send_err s of
        Some k \<Rightarrow> (Inl k, s)
      | None \<Rightarrow> (Inr (length buf), s\<lparr>written := written s @ buf\<rparr>))"

section \<open>Exact reads and writes\<close>

text \<open>
  The two loops of \<^verbatim>\<open>src/common/wire.rs\<close> over a \<open>dyn Socket\<close>. \<open>write_all\<close> goes on with
  the part of the buffer not taken yet, \<open>read_exact\<close> with the part not filled yet; both end
  because each round that does not fail moves at least one byte.
\<close>

function write_all :: "(bytes \<Rightarrow> ('s, nat) io) \<Rightarrow> bytes \<Rightarrow> ('s, unit) io" where
  "write_all snd' buf s =
     (if buf = [] then (Inr (), s)
      else case snd' buf s of
             (Inl k, s') \<Rightarrow> (Inl k, s')
           | (Inr n, s') \<Rightarrow> if n = 0 then (Inl WriteZero, s') else write_all snd' (drop n buf) s')"
  by pat_completeness auto
termination
  by (relation "measure (\<lambda>(snd', buf, s). length buf)") (auto simp: length_greater_0_conv [symmetric] simp del: length_greater_0_conv)

function read_exact :: "(nat \<Rightarrow> ('s, bytes) io) \<Rightarrow> nat \<Rightarrow> ('s, bytes) io" where
  "read_exact rcv n s =
     (if n = 0 then (Inr [], s)
      else case rcv n s of
             (Inl k, s') \<Rightarrow> (Inl k, s')
           | (Inr c, s') \<Rightarrow>
               if c = [] then (Inl UnexpectedEof, s')
               else case read_exact rcv (n - length c) s' of
                      (Inl k, s'') \<Rightarrow> (Inl k, s'')
                    | (Inr d, s'') \<Rightarrow> (Inr (c @ d), s''))"
  by pat_completeness auto
termination
  by (relation "measure (\<lambda>(rcv, n, s). n)") auto

declare write_all.simps [simp del] read_exact.simps [simp del]

lemma write_all_Nil [simp]: "write_all snd' [] s = (Inr (), s)"
  by (simp add: write_all.simps)

lemma read_exact_0 [simp]: "read_exact rcv 0 s = (Inr [], s)"
  by (simp add: read_exact.simps)

section \<open>Interface: a source of bytes\<close>

text \<open>
  What the readers of the framing layer need of a socket: while it is \<open>live\<close>, a read
  returns a non-empty piece, no longer than asked, from the front of the bytes still
  \<open>pending\<close>, and at the end of a \<open>closed\<close> stream it returns nothing.
\<close>

locale byte_source =
  fixes rcv :: "nat \<Rightarrow> ('s, bytes) io"
    and pending :: "'s \<Rightarrow> bytes"
    and live :: "'s \<Rightarrow> bool"
    and closed :: "'s \<Rightarrow> bool"
  assumes rcv_chunk: "live s \<Longrightarrow> 0 < n \<Longrightarrow> pending s \<noteq> [] \<Longrightarrow>
      \<exists>c s'. rcv n s = (Inr c, s') \<and> c \<noteq> [] \<and> length c \<le> n \<and> pending s = c @ pending s' \<and>
             live s' \<and> closed s' = closed s"
    and rcv_eof: "live s \<Longrightarrow> 0 < n \<Longrightarrow> pending s = [] \<Longrightarrow> closed s \<Longrightarrow> \<exists>s'. rcv n s = (Inr [], s')"
begin

lemma read_exact_ok:
  "live s \<Longrightarrow> n \<le> length (pending s) \<Longrightarrow>
   \<exists>s'. read_exact rcv n s = (Inr (take n (pending s)), s') \<and> pending s' = drop n (pending s) \<and>
        live s' \<and> closed s' = closed s"
proof (induction n arbitrary: s rule: less_induct)
  case (less n)
  show ?case
  proof (cases "n = 0")
    case True
    with less.prems show ?thesis by simp
  next
    case False
    with less.prems have "0 < n" and "pending s \<noteq> []" by auto
    from rcv_chunk [OF less.prems(1) this] obtain c s1 where
      c: "rcv n s = (Inr c, s1)" "c \<noteq> []" "length c \<le> n" "pending s = c @ pending s1"
         "live s1" "closed s1 = closed s" by blast
    from c False less.prems have "n - length c < n" "n - length c \<le> length (pending s1)" by auto
    from less.IH [OF this(1) c(5) this(2)] obtain s2 where
      d: "read_exact rcv (n - length c) s1 = (Inr (take (n - length c) (pending s1)), s2)"
         "pending s2 = drop (n - length c) (pending s1)" "live s2" "closed s2 = closed s1" by blast
    have "read_exact rcv n s = (Inr (c @ take (n - length c) (pending s1)), s2)"
      by (subst read_exact.simps) (simp add: c(1,2) d(1) False)
    moreover have "c @ take (n - length c) (pending s1) = take n (pending s)"
      and "drop (n - length c) (pending s1) = drop n (pending s)"
      using c(3) by (simp_all add: c(4))
    ultimately show ?thesis using c(6) d(2-4) by (intro exI [of _ s2]) simp
  qed
qed

lemma read_exact_short:
  "live s \<Longrightarrow> closed s \<Longrightarrow> length (pending s) < n \<Longrightarrow>
   fst (read_exact rcv n s) = Inl UnexpectedEof"
proof (induction n arbitrary: s rule: less_induct)
  case (less n)
  show ?case
  proof (cases "pending s = []")
    case True
    from less.prems(3) have n: "0 < n" by simp
    from rcv_eof [OF less.prems(1) n True less.prems(2)] obtain s1 where
      "rcv n s = (Inr [], s1)" by blast
    with n show ?thesis by (subst read_exact.simps) simp
  next
    case False
    from less.prems(3) have n: "0 < n" by simp
    from rcv_chunk [OF less.prems(1) n False] obtain c s1 where
      c: "rcv n s = (Inr c, s1)" "c \<noteq> []" "length c \<le> n" "pending s = c @ pending s1"
         "live s1" "closed s1 = closed s" by blast
    from c less.prems have "n - length c < n" "length (pending s1) < n - length c" by auto
    from less.IH [OF this(1) c(5) _ this(2)] c(6) less.prems(2)
    have "fst (read_exact rcv (n - length c) s1) = Inl UnexpectedEof" by simp
    then obtain s2 where "read_exact rcv (n - length c) s1 = (Inl UnexpectedEof, s2)"
      by (metis prod.collapse)
    then show ?thesis
      by (subst read_exact.simps) (simp add: c(1,2) n)
  qed
qed

end

section \<open>Interface: a sink of bytes\<close>

text \<open>
  What the writers need: while the socket is \<open>writable\<close>, a write takes at least one byte
  from the front of the buffer and appends it to what the peer is \<open>sent\<close>.
\<close>

locale byte_sink =
  fixes snd' :: "bytes \<Rightarrow> ('s, nat) io"
    and sent :: "'s \<Rightarrow> bytes"
    and writable :: "'s \<Rightarrow> bool"
  assumes snd_some: "writable s \<Longrightarrow> buf \<noteq> [] \<Longrightarrow>
      \<exists>n s'. snd' buf s = (Inr n, s') \<and> 0 < n \<and> n \<le> length buf \<and>
             sent s' = sent s @ take n buf \<and> writable s'"
begin

lemma write_all_ok:
  "writable s \<Longrightarrow> \<exists>s'. write_all snd' buf s = (Inr (), s') \<and> sent s' = sent s @ buf \<and> writable s'"
proof (induction buf arbitrary: s rule: length_induct)
  case (1 buf)
  show ?case
  proof (cases "buf = []")
    case True
    with "1.prems" show ?thesis by simp
  next
    case False
    from snd_some [OF "1.prems" False] obtain n s1 where
      n: "snd' buf s = (Inr n, s1)" "0 < n" "n \<le> length buf" "sent s1 = sent s @ take n buf"
         "writable s1" by blast
    from n False have "length (drop n buf) < length buf" by simp
    with "1.IH" n(5) obtain s2 where
      "write_all snd' (drop n buf) s1 = (Inr (), s2)" "sent s2 = sent s1 @ drop n buf" "writable s2"
      by blast
    with n False show ?thesis by (simp add: write_all.simps [of snd' buf s])
  qed
qed

end

section \<open>Interface: a two-way channel\<close>

locale byte_channel = byte_source rcv pending live closed + byte_sink snd' sent writable
  for rcv :: "nat \<Rightarrow> ('s, bytes) io" and pending live closed
  and snd' :: "bytes \<Rightarrow> ('s, nat) io" and sent writable +
  assumes rcv_frame: "rcv n s = (r, s') \<Longrightarrow> sent s' = sent s \<and> writable s' = writable s"
    and snd_frame: "snd' b s = (q, s') \<Longrightarrow>
      pending s' = pending s \<and> live s' = live s \<and> closed s' = closed s"
begin

lemma read_exact_frame:
  "read_exact rcv n s = (r, s') \<Longrightarrow> sent s' = sent s \<and> writable s' = writable s"
proof (induction n arbitrary: s r s' rule: less_induct)
  case (less n)
  show ?case
  proof (cases "n = 0")
    case True
    with less.prems show ?thesis by simp
  next
    case False
    obtain q s1 where q: "rcv n s = (q, s1)" by fastforce
    then have f: "sent s1 = sent s \<and> writable s1 = writable s" by (rule rcv_frame)
    show ?thesis
    proof (cases "\<exists>c. q = Inr c \<and> c \<noteq> []")
      case True
      then obtain c where c: "q = Inr c" "c \<noteq> []" by blast
      then have lt: "n - length c < n" using False by auto
      obtain w s2 where w: "read_exact rcv (n - length c) s1 = (w, s2)" by fastforce
      from less.IH [OF lt w] f have "sent s2 = sent s \<and> writable s2 = writable s" by simp
      moreover have "s' = s2"
        using less.prems False q c w
        by (auto simp: read_exact.simps [of rcv n s] split: sum.splits)
      ultimately show ?thesis by simp
    next
      case False
      with less.prems \<open>n \<noteq> 0\<close> q have "s' = s1"
        by (auto simp: read_exact.simps [of rcv n s] split: sum.splits if_splits)
      with f show ?thesis by simp
    qed
  qed
qed

lemma write_all_frame:
  "write_all snd' buf s = (r, s') \<Longrightarrow>
   pending s' = pending s \<and> live s' = live s \<and> closed s' = closed s"
proof (induction buf arbitrary: s r s' rule: length_induct)
  case (1 buf)
  show ?case
  proof (cases "buf = []")
    case True
    with "1.prems" show ?thesis by simp
  next
    case False
    obtain q s1 where q: "snd' buf s = (q, s1)" by fastforce
    then have f: "pending s1 = pending s \<and> live s1 = live s \<and> closed s1 = closed s"
      by (rule snd_frame)
    show ?thesis
    proof (cases "\<exists>n. q = Inr n \<and> n \<noteq> 0")
      case True
      then obtain n where n: "q = Inr n" "n \<noteq> 0" by blast
      have lt: "length (drop n buf) < length buf" using False n by simp
      have "write_all snd' (drop n buf) s1 = (r, s')"
        using "1.prems" False q n by (simp add: write_all.simps [of snd' buf s])
      with "1.IH" lt f show ?thesis by fastforce
    next
      case False
      with "1.prems" \<open>buf \<noteq> []\<close> q have "s' = s1"
        by (auto simp: write_all.simps [of snd' buf s] split: sum.splits if_splits)
      with f show ?thesis by simp
    qed
  qed
qed

text \<open>
  The state of a healthy channel as an assertion: it will deliver exactly \<open>inp\<close> and has
  been sent exactly \<open>out\<close>.
\<close>

definition chan :: "bytes \<Rightarrow> bytes \<Rightarrow> 's \<Rightarrow> bool" where
  "chan inp out s \<longleftrightarrow> live s \<and> writable s \<and> pending s = inp \<and> sent s = out"

lemma write_all_triple: "io_ok (chan inp out) (write_all snd' buf) (\<lambda>_. chan inp (out @ buf))"
proof (rule io_okI)
  fix s assume s: "chan inp out s"
  then obtain s' where "write_all snd' buf s = (Inr (), s')" "sent s' = sent s @ buf" "writable s'"
    using write_all_ok [of s buf] by (auto simp: chan_def)
  with s write_all_frame [of buf s "Inr ()" s'] show "\<exists>x s'. write_all snd' buf s = (Inr x, s') \<and> chan inp (out @ buf) s'"
    by (auto simp: chan_def)
qed

lemma read_exact_triple:
  "length a = n \<Longrightarrow> io_ok (chan (a @ inp) out) (read_exact rcv n) (\<lambda>x s. x = a \<and> chan inp out s)"
proof (rule io_okI)
  fix s assume a: "length a = n" and s: "chan (a @ inp) out s"
  then obtain s' where r: "read_exact rcv n s = (Inr a, s')" "pending s' = inp" "live s'"
    using read_exact_ok [of s n] by (auto simp: chan_def)
  with s read_exact_frame [OF r(1)]
  show "\<exists>x s'. read_exact rcv n s = (Inr x, s') \<and> x = a \<and> chan inp out s'"
    by (auto simp: chan_def)
qed

end

section \<open>The sockets implement the interfaces\<close>

fun rx_bytes :: "rx_event list \<Rightarrow> bytes" where
  "rx_bytes [] = []"
| "rx_bytes (RxData c # r) = c @ rx_bytes r"
| "rx_bytes (RxErr k # r) = rx_bytes r"
| "rx_bytes (RxIdle d # r) = rx_bytes r"

text \<open>No error and no pause, and nothing after the end of the stream.\<close>

fun rx_ok :: "rx_event list \<Rightarrow> bool" where
  "rx_ok [] = True"
| "rx_ok (RxData c # r) = (if c = [] then r = [] else rx_ok r)"
| "rx_ok (RxErr k # r) = False"
| "rx_ok (RxIdle d # r) = False"

definition rx_closed :: "rx_event list \<Rightarrow> bool" where
  "rx_closed r \<longleftrightarrow> r \<noteq> [] \<and> last r = RxData []"

fun tx_ok :: "tx_event list \<Rightarrow> bool" where
  "tx_ok [] = True"
| "tx_ok (TxAccept k # r) = (0 < k \<and> tx_ok r)"
| "tx_ok (TxErr k # r) = False"

lemma rx_ok_pending_Nil: "rx_ok r \<Longrightarrow> rx_bytes r = [] \<Longrightarrow> r = [] \<or> r = [RxData []]"
  by (cases r rule: rx_ok.cases) (auto split: if_splits)

lemma tcp_recv_chunk:
  assumes "rx_ok (tcp_rx s)" and "0 < n" and "rx_bytes (tcp_rx s) \<noteq> []"
  shows "\<exists>c s'. tcp_recv n s = (Inr c, s') \<and> c \<noteq> [] \<and> length c \<le> n \<and>
      rx_bytes (tcp_rx s) = c @ rx_bytes (tcp_rx s') \<and> rx_ok (tcp_rx s') \<and>
      rx_closed (tcp_rx s') = rx_closed (tcp_rx s)"
proof -
  from assms obtain c r where c: "tcp_rx s = RxData c # r" "c \<noteq> []" "rx_ok r"
    by (cases "tcp_rx s" rule: rx_ok.cases) (auto split: if_splits)
  show ?thesis
  proof (cases "length c \<le> n")
    case True
    with c have "tcp_recv n s = (Inr c, s\<lparr>tcp_rx := r\<rparr>)" by (simp add: tcp_recv_def)
    with c True show ?thesis by (auto simp: rx_closed_def)
  next
    case False
    with c have "tcp_recv n s = (Inr (take n c), s\<lparr>tcp_rx := RxData (drop n c) # r\<rparr>)"
      by (simp add: tcp_recv_def)
    with c False assms(2) show ?thesis by (auto simp: rx_closed_def)
  qed
qed

lemma tcp_send_some:
  assumes "tx_ok (tcp_tx s)" and "buf \<noteq> []"
  shows "\<exists>n s'. tcp_send buf s = (Inr n, s') \<and> 0 < n \<and> n \<le> length buf \<and>
      tcp_out s' = tcp_out s @ take n buf \<and> tx_ok (tcp_tx s')"
  using assms by (cases "tcp_tx s" rule: tx_ok.cases) (auto simp: tcp_send_def)

interpretation tcp: byte_channel tcp_recv "\<lambda>s. rx_bytes (tcp_rx s)" "\<lambda>s. rx_ok (tcp_rx s)"
  "\<lambda>s. rx_closed (tcp_rx s)" tcp_send tcp_out "\<lambda>s. tx_ok (tcp_tx s)"
proof unfold_locales
  fix s :: tcp and n :: nat
  assume "rx_ok (tcp_rx s)" "0 < n" "rx_bytes (tcp_rx s) = []" "rx_closed (tcp_rx s)"
  then show "\<exists>s'. tcp_recv n s = (Inr [], s')"
    by (auto dest: rx_ok_pending_Nil simp: rx_closed_def tcp_recv_def)
next
  fix s s' :: tcp and n r
  assume "tcp_recv n s = (r, s')"
  then show "tcp_out s' = tcp_out s \<and> tx_ok (tcp_tx s') = tx_ok (tcp_tx s)"
    by (auto simp: tcp_recv_def split: prod.splits)
next
  fix s s' :: tcp and b q
  assume "tcp_send b s = (q, s')"
  then show "rx_bytes (tcp_rx s') = rx_bytes (tcp_rx s) \<and> rx_ok (tcp_rx s') = rx_ok (tcp_rx s) \<and>
      rx_closed (tcp_rx s') = rx_closed (tcp_rx s)"
    by (auto simp: tcp_send_def split: list.splits tx_event.splits)
qed (use tcp_recv_chunk tcp_send_some in auto)

text \<open>
  The mock socket drops what does not fit the caller's buffer, so it is a faithful byte
  source only when it hands out single bytes; as a sink it always is.
\<close>

interpretation mock: byte_channel mock_recv "\<lambda>s. concat (recv_queue s)"
  "\<lambda>s. \<forall>c\<in>set (recv_queue s). length c = 1" "\<lambda>_. False"
  mock_send written "\<lambda>s. send_err s = None"
proof unfold_locales
  fix s :: mock_socket and n :: nat
  assume q: "\<forall>c\<in>set (recv_queue s). length c = 1" "0 < n" "concat (recv_queue s) \<noteq> []"
  then obtain c r where "recv_queue s = c # r" by (cases "recv_queue s") auto
  with q show "\<exists>c s'. mock_recv n s = (Inr c, s') \<and> c \<noteq> [] \<and> length c \<le> n \<and>
      concat (recv_queue s) = c @ concat (recv_queue s') \<and>
      (\<forall>c\<in>set (recv_queue s'). length c = 1) \<and> False = False"
    by (auto simp: mock_recv_def min_def)
next
  fix s s' :: mock_socket and n r
  assume "mock_recv n s = (r, s')"
  then show "written s' = written s \<and> (send_err s' = None) = (send_err s = None)"
    by (auto simp: mock_recv_def split: list.splits)
next
  fix s s' :: mock_socket and b q
  assume "mock_send b s = (q, s')"
  then show "concat (recv_queue s') = concat (recv_queue s) \<and>
      (\<forall>c\<in>set (recv_queue s'). length c = 1) = (\<forall>c\<in>set (recv_queue s). length c = 1) \<and> False = False"
    by (auto simp: mock_send_def split: option.splits)
qed (auto simp: mock_send_def)

end
