(* ===== verification/Messages.thy ===== *)
theory Messages
  imports Sockets
begin

text \<open>
  \<^verbatim>\<open>src/common/mod.rs\<close> (the one-byte control messages and \<open>connect\<close>),
  \<^verbatim>\<open>src/common/cookie.rs\<close> (the session cookie) and \<open>cookie_display\<close> of
  \<^verbatim>\<open>src/server.rs\<close>.
\<close>

section \<open>Control messages\<close>

datatype message =
    TestStart | TestRunning | ResultRequest | TestEnd | StreamBegin | StreamRunning | StreamEnd
  | AllStreamsEnd | ParamExchange | CreateStreams | ServerTerminate | ClientTerminate
  | ExchangeResults | DisplayResults | IperfStart | IperfDone | SetDataPort
  | AccessDenied | ServerError

text \<open>\<open>msg as u8\<close>: the \<open>i8\<close> discriminant reinterpreted as a byte.\<close>

fun message_code :: "message \<Rightarrow> u8" where
  "message_code TestStart = 1"
| "message_code TestRunning = 2"
| "message_code ResultRequest = 3"
| "message_code TestEnd = 4"
| "message_code StreamBegin = 5"
| "message_code StreamRunning = 6"
| "message_code StreamEnd = 7"
| "message_code AllStreamsEnd = 8"
| "message_code ParamExchange = 9"
| "message_code CreateStreams = 10"
| "message_code ServerTerminate = 11"
| "message_code ClientTerminate = 12"
| "message_code ExchangeResults = 13"
| "message_code DisplayResults = 14"
| "message_code IperfStart = 15"
| "message_code IperfDone = 16"
| "message_code SetDataPort = 17"
| "message_code AccessDenied = - 1"
| "message_code ServerError = - 2"

definition all_messages :: "message list" where
  "all_messages =
     [TestStart, TestRunning, ResultRequest, TestEnd, StreamBegin, StreamRunning, StreamEnd,
      AllStreamsEnd, ParamExchange, CreateStreams, ServerTerminate, ClientTerminate,
      ExchangeResults, DisplayResults, IperfStart, IperfDone, SetDataPort, AccessDenied,
      ServerError]"

text \<open>The derived \<open>TryFromPrimitive\<close>: the variant with this discriminant, if there is one.\<close>

definition message_try_from :: "u8 \<Rightarrow> message option" where
  "message_try_from b = List.find (\<lambda>m. message_code m = b) all_messages"

lemma in_all_messages [simp]: "m \<in> set all_messages"
  by (cases m) (simp_all add: all_messages_def)

lemma message_try_from_code [simp]: "message_try_from (message_code m) = Some m"
  by (cases m) (simp_all add: message_try_from_def all_messages_def)

lemma message_try_from_SomeD: "message_try_from b = Some m \<Longrightarrow> message_code m = b"
  by (auto simp: message_try_from_def find_Some_iff)

lemma message_try_from_None_iff: "message_try_from b = None \<longleftrightarrow> b \<notin> range message_code"
  by (auto simp: message_try_from_def find_None_iff)

lemma message_code_inject [simp]: "message_code m = message_code m' \<longleftrightarrow> m = m'"
  by (metis message_try_from_code option.inject)

section \<open>The session cookie\<close>

definition COOKIE_LEN :: nat where
  "COOKIE_LEN = 37"

text \<open>
  The random number generator is third-party code: \<open>sample i\<close> is the byte it draws for
  position \<open>i\<close>. The last byte keeps the zero the array is initialised with.
\<close>

definition generate_cookie :: "(nat \<Rightarrow> u8) \<Rightarrow> bytes" where
  "generate_cookie sample = map sample [0..<COOKIE_LEN - 1] @ [0]"

definition recv_cookie :: "(nat \<Rightarrow> ('s, bytes) io) \<Rightarrow> ('s, bytes) io" where
  "recv_cookie rcv = read_exact rcv COOKIE_LEN"

lemma length_generate_cookie [simp]: "length (generate_cookie sample) = COOKIE_LEN"
  by (simp add: generate_cookie_def COOKIE_LEN_def)

text \<open>\<open>is_ascii_graphic\<close>, and what \<open>cookie_display\<close> prints for a peer-controlled byte.\<close>

definition is_ascii_graphic :: "u8 \<Rightarrow> bool" where
  "is_ascii_graphic b \<longleftrightarrow> 33 \<le> b \<and> b \<le> 126"

definition cookie_display :: "bytes \<Rightarrow> bytes" where
  "cookie_display cookie =
     map (\<lambda>b. if is_ascii_graphic b \<or> b = 32 then b else 46) (take (COOKIE_LEN - 1) cookie)"

lemma cookie_display_printable:
  "b \<in> set (cookie_display cookie) \<Longrightarrow> 32 \<le> b \<and> b \<le> 126"
  by (auto simp: cookie_display_def is_ascii_graphic_def split: if_splits) unat_arith+

section \<open>Opening a connection\<close>

text \<open>
  \<open>Protocol::new_tcp\<close>: what \<open>TcpStream::connect\<close> returns is the argument; a connected
  stream is switched to non-blocking mode.
\<close>

definition new_tcp :: "tcp io_result \<Rightarrow> tcp option" where
  "new_tcp conn =
     (case conn of
        Inl _ \<Rightarrow> None
      | Inr s \<Rightarrow> (case tcp_set_nonblocking True s of (Inl _, _) \<Rightarrow> None | (Inr _, s') \<Rightarrow> Some s'))"

text \<open>\<open>send_cookie\<close> issues one \<open>send\<close> and does not look at how many bytes it took.\<close>

definition send_cookie :: "(bytes \<Rightarrow> ('s, nat) io) \<Rightarrow> bytes \<Rightarrow> ('s, unit) io" where
  "send_cookie snd' cookie = io_bind (snd' cookie) (\<lambda>_. io_return ())"

definition connect :: "tcp io_result \<Rightarrow> bytes \<Rightarrow> tcp option" where
  "connect conn cookie =
     (case new_tcp conn of
        None \<Rightarrow> None
      | Some s \<Rightarrow> (case send_cookie tcp_send cookie s of (Inl _, _) \<Rightarrow> None | (Inr _, s') \<Rightarrow> Some s'))"

end
