(* ===== verification/Meters.thy ===== *)
theory Meters
  imports Rust_Time
begin

text \<open>
  The per-stream receipts of the server (\<^verbatim>\<open>src/server.rs\<close>) and of the client
  (\<^verbatim>\<open>src/common/test.rs\<close>), the accounting block that updates them, and the interface
  \<open>byte_meter\<close> both implement.
\<close>

section \<open>Receipts\<close>

record stream_receipt =
  rc_bytes :: u64
  rc_bytes_omit :: u64
  rc_first_byte_at :: "instant option"
  rc_first_measured_at :: "instant option"
  rc_last_byte_at :: "instant option"
  rc_jitter_ms :: f64
  rc_lost :: u64
  rc_ooo :: u64
  rc_packets :: u64

definition stream_receipt_empty :: stream_receipt where
  "stream_receipt_empty = \<lparr>rc_bytes = 0, rc_bytes_omit = 0, rc_first_byte_at = None,
     rc_first_measured_at = None, rc_last_byte_at = None, rc_jitter_ms = 0, rc_lost = 0, rc_ooo = 0,
     rc_packets = 0\<rparr>"

record client_receipt =
  cr_stream_id :: u32
  cr_bytes_sent :: u64
  cr_bytes_omit :: u64
  cr_first_send_at :: "instant option"
  cr_first_measured_at :: "instant option"
  cr_last_send_at :: "instant option"
  cr_retransmits :: u32
  cr_jitter_ms :: f64
  cr_lost :: u64
  cr_ooo :: u64
  cr_packets :: u64

definition client_receipt_empty :: "u32 \<Rightarrow> client_receipt" where
  "client_receipt_empty sid = \<lparr>cr_stream_id = sid, cr_bytes_sent = 0, cr_bytes_omit = 0,
     cr_first_send_at = None, cr_first_measured_at = None, cr_last_send_at = None,
     cr_retransmits = 0, cr_jitter_ms = 0, cr_lost = 0, cr_ooo = 0, cr_packets = 0\<rparr>"

definition bytes_measured :: "stream_receipt \<Rightarrow> u64" where
  "bytes_measured r = saturating_sub (rc_bytes r) (rc_bytes_omit r)"

definition client_bytes_measured :: "client_receipt \<Rightarrow> u64" where
  "client_bytes_measured r = saturating_sub (cr_bytes_sent r) (cr_bytes_omit r)"

text \<open>The guarded match shared by \<open>elapsed\<close> and \<open>measured_elapsed\<close>.\<close>

definition span :: "instant option \<Rightarrow> instant option \<Rightarrow> duration" where
  "span a b = (case (a, b) of (Some f, Some l) \<Rightarrow> if f \<le> l then l - f else 0 | _ \<Rightarrow> 0)"

definition elapsed :: "stream_receipt \<Rightarrow> duration" where
  "elapsed r = span (rc_first_byte_at r) (rc_last_byte_at r)"

definition measured_elapsed :: "stream_receipt \<Rightarrow> duration" where
  "measured_elapsed r = span (rc_first_measured_at r) (rc_last_byte_at r)"

definition client_elapsed :: "client_receipt \<Rightarrow> duration" where
  "client_elapsed r = span (cr_first_send_at r) (cr_last_send_at r)"

definition client_measured_elapsed :: "client_receipt \<Rightarrow> duration" where
  "client_measured_elapsed r = span (cr_first_measured_at r) (cr_last_send_at r)"

text \<open>
  The accounting block of the server's loops: \<open>n\<close> bytes moved and the clock read \<open>now\<close>.
  Additions are those of the release build, which wrap.
\<close>

definition receipt_tick :: "duration \<Rightarrow> nat \<Rightarrow> instant \<Rightarrow> stream_receipt \<Rightarrow> stream_receipt" where
  "receipt_tick omit n now r =
     (let r1 = (if rc_first_byte_at r = None then r\<lparr>rc_first_byte_at := Some now\<rparr> else r);
          r2 = r1\<lparr>rc_last_byte_at := Some now, rc_bytes := rc_bytes r1 + of_nat n\<rparr>
      in case rc_first_byte_at r2 of
           None \<Rightarrow> r2
         | Some first \<Rightarrow>
             if duration_since now first < omit
             then r2\<lparr>rc_bytes_omit := rc_bytes_omit r2 + of_nat n\<rparr>
             else if rc_first_measured_at r2 = None then r2\<lparr>rc_first_measured_at := Some now\<rparr>
             else r2)"

text \<open>The same block of the client's loops, on the client's receipt.\<close>

definition client_tick :: "duration \<Rightarrow> nat \<Rightarrow> instant \<Rightarrow> client_receipt \<Rightarrow> client_receipt" where
  "client_tick omit n now r =
     (let r1 = (if cr_first_send_at r = None then r\<lparr>cr_first_send_at := Some now\<rparr> else r);
          r2 = r1\<lparr>cr_last_send_at := Some now, cr_bytes_sent := cr_bytes_sent r1 + of_nat n\<rparr>
      in case cr_first_send_at r2 of
           None \<Rightarrow> r2
         | Some first \<Rightarrow>
             if duration_since now first < omit
             then r2\<lparr>cr_bytes_omit := cr_bytes_omit r2 + of_nat n\<rparr>
             else if cr_first_measured_at r2 = None then r2\<lparr>cr_first_measured_at := Some now\<rparr>
             else r2)"

section \<open>Interface: a meter\<close>

text \<open>
  What both receipts promise about one tick. The lemmas of the locale say what a meter reads
  after any sequence of ticks: the totals are the sums over the sequence, split at the moment
  \<open>omit\<close> after the first tick.
\<close>

locale byte_meter =
  fixes tick :: "duration \<Rightarrow> nat \<Rightarrow> instant \<Rightarrow> 'r \<Rightarrow> 'r"
    and total :: "'r \<Rightarrow> u64"
    and omitted :: "'r \<Rightarrow> u64"
    and first :: "'r \<Rightarrow> instant option"
    and measured :: "'r \<Rightarrow> instant option"
    and last' :: "'r \<Rightarrow> instant option"
  assumes tick_total: "total (tick om n t r) = total r + of_nat n"
    and tick_first: "first (tick om n t r) = Some (case first r of None \<Rightarrow> t | Some f \<Rightarrow> f)"
    and tick_last: "last' (tick om n t r) = Some t"
    and tick_omitted: "omitted (tick om n t r) =
      (if t - (case first r of None \<Rightarrow> t | Some f \<Rightarrow> f) < om then omitted r + of_nat n else omitted r)"
    and tick_measured: "measured (tick om n t r) =
      (if t - (case first r of None \<Rightarrow> t | Some f \<Rightarrow> f) < om \<or> measured r \<noteq> None then measured r else Some t)"
begin

definition ticks :: "duration \<Rightarrow> (nat \<times> instant) list \<Rightarrow> 'r \<Rightarrow> 'r" where
  "ticks om evs r = fold (\<lambda>(n, t). tick om n t) evs r"

definition fresh :: "'r \<Rightarrow> bool" where
  "fresh r \<longleftrightarrow> total r = 0 \<and> omitted r = 0 \<and> first r = None \<and> measured r = None \<and> last' r = None"

lemma ticks_Nil [simp]: "ticks om [] r = r"
  by (simp add: ticks_def)

lemma ticks_Cons [simp]: "ticks om ((n, t) # evs) r = ticks om evs (tick om n t r)"
  by (simp add: ticks_def)

lemma ticks_total: "total (ticks om evs r) = total r + of_nat (sum_list (map fst evs))"
  by (induction evs arbitrary: r) (auto simp: tick_total)

lemma ticks_last: "evs \<noteq> [] \<Longrightarrow> last' (ticks om evs r) = Some (snd (last evs))"
proof (induction evs arbitrary: r)
  case (Cons e evs)
  then show ?case by (cases e; cases "evs = []") (auto simp: tick_last)
qed simp

lemma ticks_first: "first r = Some f \<Longrightarrow> first (ticks om evs r) = Some f"
  by (induction evs arbitrary: r) (auto simp: tick_first)

lemma ticks_omitted:
  "first r = Some f \<Longrightarrow>
   omitted (ticks om evs r) = omitted r + of_nat (sum_list (map fst (filter (\<lambda>e. snd e - f < om) evs)))"
  by (induction evs arbitrary: r) (auto simp: tick_first tick_omitted)

lemma ticks_measured:
  "first r = Some f \<Longrightarrow>
   measured (ticks om evs r) =
     (case measured r of Some m \<Rightarrow> Some m
      | None \<Rightarrow> map_option snd (List.find (\<lambda>e. \<not> snd e - f < om) evs))"
proof (induction evs arbitrary: r)
  case (Cons e evs)
  obtain n t where e: "e = (n, t)" by (cases e)
  have "first (tick om n t r) = Some f" using Cons.prems by (simp add: tick_first)
  from Cons.IH [OF this] show ?case
    using Cons.prems by (auto simp: e tick_measured split: option.splits)
qed (simp split: option.splits)

text \<open>The readings of a fresh meter after a non-empty sequence of ticks.\<close>

lemma fresh_ticks:
  assumes "fresh r" and "evs = (n0, t0) # evs'"
  shows "total (ticks om evs r) = of_nat (sum_list (map fst evs))"
    and "omitted (ticks om evs r) = of_nat (sum_list (map fst (filter (\<lambda>e. snd e - t0 < om) evs)))"
    and "first (ticks om evs r) = Some t0"
    and "last' (ticks om evs r) = Some (snd (last evs))"
    and "measured (ticks om evs r) = map_option snd (List.find (\<lambda>e. \<not> snd e - t0 < om) evs)"
proof -
  from assms(1) have r: "total r = 0" "omitted r = 0" "first r = None" "measured r = None"
    by (simp_all add: fresh_def)
  have f: "first (tick om n0 t0 r) = Some t0" by (simp add: tick_first r)
  show "total (ticks om evs r) = of_nat (sum_list (map fst evs))"
    by (simp add: ticks_total r)
  show "omitted (ticks om evs r) = of_nat (sum_list (map fst (filter (\<lambda>e. snd e - t0 < om) evs)))"
    by (simp add: assms(2) ticks_omitted [OF f] tick_omitted r)
  show "first (ticks om evs r) = Some t0"
    by (simp add: assms(2) ticks_first [OF f])
  show "last' (ticks om evs r) = Some (snd (last evs))"
    using assms(2) by (intro ticks_last) simp
  show "measured (ticks om evs r) = map_option snd (List.find (\<lambda>e. \<not> snd e - t0 < om) evs)"
    by (simp add: assms(2) ticks_measured [OF f] tick_measured r)
qed

text \<open>
  While the sum of the bytes fits 64 bits, the difference of the two totals is exactly the
  number of bytes after the omit window.
\<close>

lemma sum_filter_split:
  "sum_list (map fst (filter P evs)) + sum_list (map fst (filter (\<lambda>e. \<not> P e) evs)) =
   (sum_list (map fst evs) :: nat)"
  by (induction evs) auto

lemma measured_bytes:
  assumes "fresh r" and "evs = (n0, t0) # evs'" and "sum_list (map fst evs) < 2 ^ 64"
  shows "saturating_sub (total (ticks om evs r)) (omitted (ticks om evs r)) =
    of_nat (sum_list (map fst (filter (\<lambda>e. om \<le> snd e - t0) evs)))"
proof -
  let ?a = "sum_list (map fst (filter (\<lambda>e. snd e - t0 < om) evs))"
  let ?b = "sum_list (map fst (filter (\<lambda>e. \<not> snd e - t0 < om) evs))"
  have s: "?a + ?b = sum_list (map fst evs)" by (rule sum_filter_split)
  have "unat (saturating_sub (of_nat (sum_list (map fst evs)) :: u64) (of_nat ?a)) = ?b"
    using s assms(3) by (simp add: unat_saturating_sub unat_of_nat)
  also have "?b = unat (of_nat ?b :: u64)"
    using s assms(3) by (simp add: unat_of_nat)
  finally show ?thesis
    by (simp add: fresh_ticks [OF assms(1,2)] word_unat_eq_iff not_less)
qed

end

interpretation server_meter: byte_meter receipt_tick rc_bytes rc_bytes_omit rc_first_byte_at
  rc_first_measured_at rc_last_byte_at
  by unfold_locales
    (auto simp: receipt_tick_def Let_def duration_since_def split: option.splits)

interpretation client_meter: byte_meter client_tick cr_bytes_sent cr_bytes_omit cr_first_send_at
  cr_first_measured_at cr_last_send_at
  by unfold_locales
    (auto simp: client_tick_def Let_def duration_since_def split: option.splits)

lemma server_meter_fresh [simp]: "server_meter.fresh stream_receipt_empty"
  by (simp add: server_meter.fresh_def stream_receipt_empty_def)

lemma client_meter_fresh [simp]: "client_meter.fresh (client_receipt_empty sid)"
  by (simp add: client_meter.fresh_def client_receipt_empty_def)

end
