(* ===== verification/Rust_Strings.thy ===== *)
theory Rust_Strings
  imports Rust_Words
begin

text \<open>
  The part of \<open>str\<close> and \<open>String\<close> of the standard library that the program uses. A string
  is its list of Unicode scalar values; \<open>lit\<close> turns a literal into one. Byte lengths and byte
  views go through the UTF-8 encoding.
\<close>

type_synonym rstr = "nat list"

definition lit :: "string \<Rightarrow> rstr" where
  "lit s = map of_char s"

definition valid_char :: "nat \<Rightarrow> bool" where
  "valid_char c \<longleftrightarrow> c < 0xD800 \<or> 0xE000 \<le> c \<and> c < 0x110000"

definition valid_str :: "rstr \<Rightarrow> bool" where
  "valid_str s \<longleftrightarrow> list_all valid_char s"

lemma valid_str_simps [simp]:
  "valid_str []" "valid_str (c # s) \<longleftrightarrow> valid_char c \<and> valid_str s"
  "valid_str (s @ t) \<longleftrightarrow> valid_str s \<and> valid_str t"
  by (simp_all add: valid_str_def)

section \<open>UTF-8\<close>

definition utf8_char :: "nat \<Rightarrow> nat list" where
  "utf8_char c =
     (if c < 0x80 then [c]
      else if c < 0x800 then [0xC0 + c div 64, 0x80 + c mod 64]
      else if c < 0x10000 then [0xE0 + c div 4096, 0x80 + c div 64 mod 64, 0x80 + c mod 64]
      else [0xF0 + c div 262144, 0x80 + c div 4096 mod 64, 0x80 + c div 64 mod 64, 0x80 + c mod 64])"

definition as_bytes :: "rstr \<Rightarrow> bytes" where
  "as_bytes s = map of_nat (concat (map utf8_char s))"

definition str_len :: "rstr \<Rightarrow> nat" where
  "str_len s = length (as_bytes s)"

definition is_cont :: "nat \<Rightarrow> bool" where
  "is_cont b \<longleftrightarrow> 0x80 \<le> b \<and> b < 0xC0"

text \<open>One scalar value off the front; overlong forms and surrogates are refused.\<close>

fun utf8_next :: "nat list \<Rightarrow> (nat \<times> nat list) option" where
  "utf8_next [] = None"
| "utf8_next (b0 # r) =
     (if b0 < 0x80 then Some (b0, r)
      else if 0xC0 \<le> b0 \<and> b0 < 0xE0 then
        (case r of
           b1 # r1 \<Rightarrow>
             (let c = (b0 - 0xC0) * 64 + (b1 - 0x80)
              in if is_cont b1 \<and> 0x80 \<le> c then Some (c, r1) else None)
         | _ \<Rightarrow> None)
      else if 0xE0 \<le> b0 \<and> b0 < 0xF0 then
        (case r of
           b1 # b2 # r2 \<Rightarrow>
             (let c = (b0 - 0xE0) * 4096 + (b1 - 0x80) * 64 + (b2 - 0x80)
              in if is_cont b1 \<and> is_cont b2 \<and> 0x800 \<le> c \<and> valid_char c then Some (c, r2) else None)
         | _ \<Rightarrow> None)
      else if 0xF0 \<le> b0 \<and> b0 < 0xF8 then
        (case r of
           b1 # b2 # b3 # r3 \<Rightarrow>
             (let c = (b0 - 0xF0) * 262144 + (b1 - 0x80) * 4096 + (b2 - 0x80) * 64 + (b3 - 0x80)
              in if is_cont b1 \<and> is_cont b2 \<and> is_cont b3 \<and> 0x10000 \<le> c \<and> valid_char c
                 then Some (c, r3) else None)
         | _ \<Rightarrow> None)
      else None)"

lemma utf8_next_length: "utf8_next bs = Some (c, r) \<Longrightarrow> length r < length bs"
  by (induction bs rule: utf8_next.induct) (auto simp: Let_def split: if_splits list.splits)

function utf8_decode :: "nat list \<Rightarrow> rstr option" where
  "utf8_decode bs =
     (if bs = [] then Some []
      else case utf8_next bs of
             None \<Rightarrow> None
           | Some (c, r) \<Rightarrow> map_option ((#) c) (utf8_decode r))"
  by pat_completeness auto
termination
  by (relation "measure length") (auto dest: utf8_next_length)

declare utf8_decode.simps [simp del]

definition from_utf8 :: "bytes \<Rightarrow> rstr option" where
  "from_utf8 bs = utf8_decode (map unat bs)"

lemma utf8_char_bound: "valid_char c \<Longrightarrow> b \<in> set (utf8_char c) \<Longrightarrow> b < 256"
  by (auto simp: utf8_char_def valid_char_def split: if_splits)

lemma div_div_64: "c div 4096 = c div 64 div 64" "c div 262144 = c div 4096 div 64" for c :: nat
  by (simp_all add: div_mult2_eq [symmetric])

lemma utf8_next_char:
  assumes "valid_char c"
  shows "utf8_next (utf8_char c @ r) = Some (c, r)"
proof -
  consider "c < 0x80" | "0x80 \<le> c" "c < 0x800" | "0x800 \<le> c" "c < 0x10000" | "0x10000 \<le> c"
    by linarith
  then show ?thesis
  proof cases
    case 1
    then show ?thesis by (simp add: utf8_char_def)
  next
    case 2
    then have "c div 64 < 32" "c div 64 * 64 + c mod 64 = c" by auto
    with 2 show ?thesis by (simp add: utf8_char_def is_cont_def)
  next
    case 3
    then have "c div 4096 < 16" by auto
    moreover have "c div 4096 * 4096 + c div 64 mod 64 * 64 + c mod 64 = c"
      using div_mult_mod_eq [of "c div 64" 64] div_mult_mod_eq [of c 64] div_div_64(1) [of c]
      by linarith
    ultimately show ?thesis using 3 assms by (simp add: utf8_char_def is_cont_def)
  next
    case 4
    with assms have "c < 0x110000" by (simp add: valid_char_def)
    then have "c div 262144 < 8" by auto
    moreover have "c div 262144 * 262144 + c div 4096 mod 64 * 4096 + c div 64 mod 64 * 64 + c mod 64 = c"
      using div_mult_mod_eq [of "c div 4096" 64] div_mult_mod_eq [of "c div 64" 64]
        div_mult_mod_eq [of c 64] div_div_64 [of c]
      by linarith
    ultimately show ?thesis using 4 assms by (simp add: utf8_char_def is_cont_def)
  qed
qed

lemma utf8_char_not_Nil [simp]: "utf8_char c \<noteq> []"
  by (simp add: utf8_char_def)

lemma utf8_decode_concat: "valid_str s \<Longrightarrow> utf8_decode (concat (map utf8_char s)) = Some s"
  by (induction s) (simp_all add: utf8_decode.simps [of "[]"] utf8_decode.simps [of "utf8_char _ @ _"] utf8_next_char)

lemma map_unat_of_nat: "list_all (\<lambda>b. b < 256) bs \<Longrightarrow> map unat (map of_nat bs :: bytes) = bs"
  by (induction bs) (simp_all add: unat_of_nat)

lemma concat_utf8_bound: "valid_str s \<Longrightarrow> list_all (\<lambda>b. b < 256) (concat (map utf8_char s))"
  by (induction s) (auto simp: list_all_iff dest: utf8_char_bound)

lemma from_utf8_as_bytes [simp]: "valid_str s \<Longrightarrow> from_utf8 (as_bytes s) = Some s"
  unfolding from_utf8_def as_bytes_def
  by (simp only: map_unat_of_nat [OF concat_utf8_bound] utf8_decode_concat)

lemma as_bytes_inject: "valid_str s \<Longrightarrow> valid_str t \<Longrightarrow> as_bytes s = as_bytes t \<longleftrightarrow> s = t"
  by (metis from_utf8_as_bytes option.inject)

lemma utf8_next_valid: "utf8_next bs = Some (c, r) \<Longrightarrow> valid_char c"
  by (induction bs rule: utf8_next.induct)
    (auto simp: Let_def valid_char_def is_cont_def split: if_splits list.splits)

lemma utf8_decode_valid: "utf8_decode bs = Some s \<Longrightarrow> valid_str s"
proof (induction bs arbitrary: s rule: utf8_decode.induct)
  case (1 bs)
  show ?case
  proof (cases "bs = []")
    case True
    with "1.prems" show ?thesis by (simp add: utf8_decode.simps)
  next
    case False
    with "1.prems" obtain c r t where
      t: "utf8_next bs = Some (c, r)" "utf8_decode r = Some t" "s = c # t"
      by (subst (asm) utf8_decode.simps) (auto split: option.splits)
    from t(1) have "valid_char c" by (rule utf8_next_valid)
    moreover from "1.IH" [OF False t(1) refl t(2)] have "valid_str t" .
    ultimately show ?thesis by (simp add: t(3))
  qed
qed

lemma from_utf8_valid: "from_utf8 bs = Some s \<Longrightarrow> valid_str s"
  unfolding from_utf8_def by (rule utf8_decode_valid)

lemma as_bytes_ascii: "list_all (\<lambda>c. c < 0x80) s \<Longrightarrow> as_bytes s = map of_nat s"
  by (induction s) (simp_all add: as_bytes_def utf8_char_def)

lemma str_len_ascii: "list_all (\<lambda>c. c < 0x80) s \<Longrightarrow> str_len s = length s"
  by (simp add: str_len_def as_bytes_ascii)

lemma length_le_str_len: "length s \<le> str_len s"
proof (induction s)
  case (Cons c s)
  have "1 \<le> length (utf8_char c)" by (simp add: utf8_char_def)
  with Cons show ?case by (simp add: str_len_def as_bytes_def)
qed (simp add: str_len_def as_bytes_def)

section \<open>Characters\<close>

definition is_control :: "nat \<Rightarrow> bool" where
  "is_control c \<longleftrightarrow> c < 0x20 \<or> 0x7F \<le> c \<and> c < 0xA0"

definition is_whitespace :: "nat \<Rightarrow> bool" where
  "is_whitespace c \<longleftrightarrow>
     9 \<le> c \<and> c \<le> 13 \<or> c = 0x20 \<or> c = 0x85 \<or> c = 0xA0 \<or> c = 0x1680 \<or>
     0x2000 \<le> c \<and> c \<le> 0x200A \<or> c = 0x2028 \<or> c = 0x2029 \<or> c = 0x202F \<or> c = 0x205F \<or> c = 0x3000"

definition is_ascii_hexdigit :: "nat \<Rightarrow> bool" where
  "is_ascii_hexdigit c \<longleftrightarrow> 48 \<le> c \<and> c \<le> 57 \<or> 65 \<le> c \<and> c \<le> 70 \<or> 97 \<le> c \<and> c \<le> 102"

definition ascii_lower :: "nat \<Rightarrow> nat" where
  "ascii_lower c = (if 65 \<le> c \<and> c \<le> 90 then c + 32 else c)"

definition to_ascii_lowercase :: "rstr \<Rightarrow> rstr" where
  "to_ascii_lowercase = map ascii_lower"

lemma to_ascii_lowercase_idem [simp]: "to_ascii_lowercase (to_ascii_lowercase s) = to_ascii_lowercase s"
  by (simp add: to_ascii_lowercase_def ascii_lower_def)

lemma valid_to_ascii_lowercase [simp]: "valid_str s \<Longrightarrow> valid_str (to_ascii_lowercase s)"
  by (auto simp: valid_str_def to_ascii_lowercase_def list_all_iff ascii_lower_def valid_char_def)

text \<open>\<open>char::to_digit\<close>.\<close>

definition to_digit :: "nat \<Rightarrow> nat \<Rightarrow> nat option" where
  "to_digit radix c =
     (let d = (if 48 \<le> c \<and> c \<le> 57 then c - 48
               else if 97 \<le> c \<and> c \<le> 122 then c - 87
               else if 65 \<le> c \<and> c \<le> 90 then c - 55
               else radix)
      in if d < radix then Some d else None)"

section \<open>Splitting and trimming\<close>

definition trim_start :: "rstr \<Rightarrow> rstr" where
  "trim_start = dropWhile is_whitespace"

definition trim :: "rstr \<Rightarrow> rstr" where
  "trim s = rev (dropWhile is_whitespace (rev (trim_start s)))"

fun starts_with :: "rstr \<Rightarrow> rstr \<Rightarrow> bool" where
  "starts_with [] s = True"
| "starts_with (p # ps) [] = False"
| "starts_with (p # ps) (c # s) = (p = c \<and> starts_with ps s)"

definition strip_prefix :: "rstr \<Rightarrow> rstr \<Rightarrow> rstr option" where
  "strip_prefix p s = (if starts_with p s then Some (drop (length p) s) else None)"

text \<open>\<open>s.splitn(n, sep)\<close>: at most \<open>n\<close> pieces, the last one unsplit.\<close>

fun splitn :: "nat \<Rightarrow> nat \<Rightarrow> rstr \<Rightarrow> rstr list" where
  "splitn 0 sep s = []"
| "splitn (Suc 0) sep s = [s]"
| "splitn (Suc (Suc n)) sep s =
     (case dropWhile (\<lambda>c. c \<noteq> sep) s of
        [] \<Rightarrow> [s]
      | _ # r \<Rightarrow> takeWhile (\<lambda>c. c \<noteq> sep) s # splitn (Suc n) sep r)"

definition strip_cr :: "rstr \<Rightarrow> rstr" where
  "strip_cr s = (if s \<noteq> [] \<and> last s = 13 then butlast s else s)"

text \<open>\<open>str::lines\<close>: the pieces between line feeds, one carriage return before each removed.\<close>

function lines :: "rstr \<Rightarrow> rstr list" where
  "lines s =
     (if s = [] then []
      else case dropWhile (\<lambda>c. c \<noteq> 10) s of
             [] \<Rightarrow> [s]
           | _ # r \<Rightarrow> strip_cr (takeWhile (\<lambda>c. c \<noteq> 10) s) # lines r)"
  by pat_completeness auto
termination
proof (relation "measure length")
  fix s :: rstr and x r
  assume "dropWhile (\<lambda>c. c \<noteq> 10) s = x # r"
  with length_dropWhile_le [of "\<lambda>c. c \<noteq> 10" s] show "(r, s) \<in> measure length" by simp
qed simp

declare lines.simps [simp del]

fun split_ws :: "rstr \<Rightarrow> rstr \<Rightarrow> rstr list" where
  "split_ws acc [] = (if acc = [] then [] else [rev acc])"
| "split_ws acc (c # s) =
     (if is_whitespace c then (if acc = [] then split_ws [] s else rev acc # split_ws [] s)
      else split_ws (c # acc) s)"

definition split_whitespace :: "rstr \<Rightarrow> rstr list" where
  "split_whitespace s = split_ws [] s"

text \<open>What follows the last occurrence of a character, \<open>raw[raw.rfind(c)? + 1..]\<close>.\<close>

definition after_last :: "nat \<Rightarrow> rstr \<Rightarrow> rstr option" where
  "after_last c s = (if c \<in> set s then Some (rev (takeWhile (\<lambda>x. x \<noteq> c) (rev s))) else None)"

lemma splitn_field:
  assumes "sep \<notin> set a"
  shows "splitn (Suc (Suc n)) sep (a @ sep # s) = a # splitn (Suc n) sep s"
proof -
  have "dropWhile (\<lambda>c. c \<noteq> sep) (a @ sep # s) = sep # s"
    and "takeWhile (\<lambda>c. c \<noteq> sep) (a @ sep # s) = a"
    using assms by (auto simp: dropWhile_append3 takeWhile_append2 dropWhile_append takeWhile_append)
  then show ?thesis by simp
qed

lemma split_ws_word:
  assumes "list_all (\<lambda>c. \<not> is_whitespace c) w" and "is_whitespace x" and "acc \<noteq> [] \<or> w \<noteq> []"
  shows "split_ws acc (w @ x # s) = (rev acc @ w) # split_ws [] s"
  using assms by (induction w arbitrary: acc) auto

lemma split_ws_skip: "is_whitespace x \<Longrightarrow> split_ws [] (x # s) = split_ws [] s"
  by simp

lemma after_last_append: "c \<notin> set t \<Longrightarrow> after_last c (s @ c # t) = Some t"
  by (auto simp: after_last_def takeWhile_append)

section \<open>Numbers\<close>

text \<open>
  \<open>from_str_radix\<close> of the unsigned types: an optional plus sign, at least one digit, and an
  error as soon as the value exceeds \<open>mx\<close>.
\<close>

fun parse_digits :: "nat \<Rightarrow> nat \<Rightarrow> nat \<Rightarrow> rstr \<Rightarrow> nat option" where
  "parse_digits radix mx acc [] = Some acc"
| "parse_digits radix mx acc (c # s) =
     (case to_digit radix c of
        None \<Rightarrow> None
      | Some d \<Rightarrow> if acc * radix + d \<le> mx then parse_digits radix mx (acc * radix + d) s else None)"

definition from_str_radix :: "nat \<Rightarrow> nat \<Rightarrow> rstr \<Rightarrow> nat option" where
  "from_str_radix radix mx s =
     (let digits = (case s of [] \<Rightarrow> [] | c # t \<Rightarrow> if c = 43 then t else s)
      in if digits = [] then None else parse_digits radix mx 0 digits)"

definition parse_u64 :: "rstr \<Rightarrow> u64 option" where
  "parse_u64 s = map_option of_nat (from_str_radix 10 (2 ^ 64 - 1) s)"

definition parse_u32 :: "rstr \<Rightarrow> u32 option" where
  "parse_u32 s = map_option of_nat (from_str_radix 10 (2 ^ 32 - 1) s)"

text \<open>\<open>format!("{}", n)\<close>.\<close>

fun dec :: "nat \<Rightarrow> rstr" where
  "dec n = (if n < 10 then [48 + n] else dec (n div 10) @ [48 + n mod 10])"

declare dec.simps [simp del]

definition show_word :: "'a::len word \<Rightarrow> rstr" where
  "show_word w = dec (unat w)"

lemma dec_not_Nil [simp]: "dec n \<noteq> []"
  by (simp add: dec.simps [of n])

lemma dec_digits: "c \<in> set (dec n) \<Longrightarrow> 48 \<le> c \<and> c \<le> 57"
proof (induction n rule: dec.induct)
  case (1 n)
  show ?case
  proof (cases "n < 10")
    case True
    with "1.prems" show ?thesis by (auto simp: dec.simps [of n])
  next
    case False
    with "1.prems" consider "c \<in> set (dec (n div 10))" | "c = 48 + n mod 10"
      by (subst (asm) dec.simps) auto
    then show ?thesis using "1.IH" [OF False] by cases auto
  qed
qed

lemma parse_digits_append:
  "parse_digits radix mx acc (s @ t) =
     (case parse_digits radix mx acc s of None \<Rightarrow> None | Some a \<Rightarrow> parse_digits radix mx a t)"
  by (induction s arbitrary: acc) (auto split: option.splits)

lemma to_digit_dec [simp]: "d < 10 \<Longrightarrow> to_digit 10 (48 + d) = Some d"
  by (simp add: to_digit_def)

lemma parse_digits_dec: "n \<le> mx \<Longrightarrow> parse_digits 10 mx 0 (dec n) = Some n"
proof (induction n rule: dec.induct)
  case (1 n)
  show ?case
  proof (cases "n < 10")
    case True
    with "1.prems" show ?thesis by (simp add: dec.simps [of n])
  next
    case False
    have e: "n div 10 * 10 + n mod 10 = n" by (rule div_mult_mod_eq)
    from "1.prems" have "n div 10 \<le> mx" using div_le_dividend [of n 10] by linarith
    with "1.IH" [OF False] have "parse_digits 10 mx 0 (dec (n div 10)) = Some (n div 10)" by simp
    moreover have "parse_digits 10 mx (n div 10) [48 + n mod 10] = Some n"
      using "1.prems" e by simp
    ultimately show ?thesis using False
      by (simp add: dec.simps [of n] parse_digits_append del: parse_digits.simps)
  qed
qed

lemma from_str_radix_dec: "n \<le> mx \<Longrightarrow> from_str_radix 10 mx (dec n) = Some n"
proof -
  assume n: "n \<le> mx"
  obtain c t where c: "dec n = c # t" by (cases "dec n") auto
  then have "48 \<le> c" using dec_digits [of c n] by simp
  with n c show ?thesis using parse_digits_dec [OF n] by (simp add: from_str_radix_def)
qed

lemma parse_u64_show [simp]: "parse_u64 (show_word w) = Some w"
proof -
  have "unat w \<le> 2 ^ 64 - 1" using unat_bound [of w] by simp
  then show ?thesis by (simp add: parse_u64_def show_word_def from_str_radix_dec)
qed

lemma parse_digits_le: "parse_digits radix mx acc s = Some n \<Longrightarrow> acc \<le> mx \<Longrightarrow> n \<le> mx"
  by (induction s arbitrary: acc) (auto split: option.splits if_splits)

lemma from_str_radix_le: "from_str_radix radix mx s = Some n \<Longrightarrow> n \<le> mx"
  by (auto simp: from_str_radix_def Let_def split: if_splits dest: parse_digits_le)

end
