(* ===== verification/Reporting.thy ===== *)
theory Reporting
  imports Meters Rust_Strings
begin

text \<open>
  The interval reporter (\<^verbatim>\<open>src/common/interval.rs\<close>), the token bucket
  (\<^verbatim>\<open>src/common/pacing.rs\<close>), the jitter estimate (\<^verbatim>\<open>src/common/jitter.rs\<close>),
  CPU accounting (\<^verbatim>\<open>src/common/cpu.rs\<close>) and the sums of the JSON report
  (\<^verbatim>\<open>src/common/json_output.rs\<close>).
\<close>

section \<open>Interval reporter\<close>

record interval_snapshot =
  is_stream_id :: u32
  is_start_sec :: f64
  is_end_sec :: f64
  is_bytes :: u64

definition duration_secs :: "interval_snapshot \<Rightarrow> f64" where
  "duration_secs s = max (is_end_sec s - is_start_sec s) (1 / 1000000)"

definition bits_per_sec :: "interval_snapshot \<Rightarrow> f64" where
  "bits_per_sec s = real (unat (is_bytes s)) * 8 / duration_secs s"

definition mbits_per_sec :: "interval_snapshot \<Rightarrow> f64" where
  "mbits_per_sec s = bits_per_sec s / 1000000"

record interval_reporter =
  ir_stream_id :: u32
  ir_interval :: duration
  ir_origin :: "instant option"
  ir_next_boundary :: "instant option"
  ir_bytes :: u64

definition reporter_new :: "u32 \<Rightarrow> duration \<Rightarrow> interval_reporter" where
  "reporter_new sid interval = \<lparr>ir_stream_id = sid, ir_interval = interval, ir_origin = None,
     ir_next_boundary = None, ir_bytes = 0\<rparr>"

text \<open>
  \<open>boundary - self.interval\<close> panics on underflow in the source; \<open>reporter_inv\<close> below excludes
  that, so the truncated subtraction is exact.
\<close>

definition on_bytes ::
  "nat \<Rightarrow> instant \<Rightarrow> interval_reporter \<Rightarrow> interval_snapshot option \<times> interval_reporter" where
  "on_bytes n now r =
     (let r1 = (if ir_origin r = None
                then r\<lparr>ir_origin := Some now, ir_next_boundary := Some (now + ir_interval r)\<rparr> else r);
          r2 = r1\<lparr>ir_bytes := ir_bytes r1 + of_nat n\<rparr>;
          origin = the (ir_origin r2);
          boundary = the (ir_next_boundary r2)
      in if boundary \<le> now
         then (Some \<lparr>is_stream_id = ir_stream_id r2,
                 is_start_sec = as_secs_f64 (duration_since (boundary - ir_interval r2) origin),
                 is_end_sec = as_secs_f64 (duration_since boundary origin),
                 is_bytes = ir_bytes r2\<rparr>,
               r2\<lparr>ir_bytes := 0, ir_next_boundary := Some (boundary + ir_interval r2)\<rparr>)
         else (None, r2))"

definition flush ::
  "instant \<Rightarrow> interval_reporter \<Rightarrow> interval_snapshot option \<times> interval_reporter" where
  "flush now r =
     (case ir_origin r of
        None \<Rightarrow> (None, r)
      | Some origin \<Rightarrow>
          if ir_bytes r = 0 \<and>
             (case ir_next_boundary r of None \<Rightarrow> True | Some b \<Rightarrow> now < b - ir_interval r)
          then (None, r)
          else
            let boundary = (case ir_next_boundary r of None \<Rightarrow> now | Some b \<Rightarrow> b);
                start_sec = as_secs_f64 (duration_since (boundary - ir_interval r) origin)
            in (Some \<lparr>is_stream_id = ir_stream_id r, is_start_sec = start_sec,
                  is_end_sec = max (as_secs_f64 (duration_since now origin)) start_sec,
                  is_bytes = ir_bytes r\<rparr>,
                r\<lparr>ir_bytes := 0\<rparr>))"

text \<open>The rows a loop prints while it feeds a sequence of deltas to the reporter.\<close>

fun feed ::
  "(nat \<times> instant) list \<Rightarrow> interval_reporter \<Rightarrow> interval_snapshot list \<times> interval_reporter" where
  "feed [] r = ([], r)"
| "feed ((n, t) # evs) r =
     (case on_bytes n t r of
        (None, r') \<Rightarrow> feed evs r'
      | (Some s, r') \<Rightarrow> (case feed evs r' of (rows, r'') \<Rightarrow> (s # rows, r'')))"

text \<open>
  After \<open>k\<close> closed intervals the next boundary lies \<open>k + 1\<close> intervals after the origin.
\<close>

definition reporter_at :: "nat \<Rightarrow> instant \<Rightarrow> interval_reporter \<Rightarrow> bool" where
  "reporter_at k origin r \<longleftrightarrow>
     ir_origin r = Some origin \<and> ir_next_boundary r = Some (origin + (k + 1) * ir_interval r)"

definition reporter_inv :: "interval_reporter \<Rightarrow> bool" where
  "reporter_inv r \<longleftrightarrow>
     (ir_origin r = None \<and> ir_next_boundary r = None \<and> ir_bytes r = 0) \<or>
     (\<exists>k origin. reporter_at k origin r)"

lemma reporter_new_inv [wf_intros]: "reporter_inv (reporter_new sid i)"
  by (simp add: reporter_inv_def reporter_new_def)

lemma on_bytes_at:
  assumes "reporter_at k origin r" and "on_bytes n now r = (res, r')"
  shows "ir_interval r' = ir_interval r" and "ir_stream_id r' = ir_stream_id r"
    and "res = None \<Longrightarrow> reporter_at k origin r' \<and> ir_bytes r' = ir_bytes r + of_nat n \<and>
           now < origin + (k + 1) * ir_interval r"
    and "res = Some s \<Longrightarrow> reporter_at (Suc k) origin r' \<and> ir_bytes r' = 0 \<and>
           is_bytes s = ir_bytes r + of_nat n \<and> is_stream_id s = ir_stream_id r \<and>
           is_start_sec s = as_secs_f64 (k * ir_interval r) \<and>
           is_end_sec s = as_secs_f64 ((k + 1) * ir_interval r)"
  using assms
  by (auto simp: on_bytes_def reporter_at_def Let_def duration_since_def algebra_simps split: if_splits)

lemma on_bytes_interval: "on_bytes n now r = (res, r') \<Longrightarrow> ir_interval r' = ir_interval r"
  by (auto simp: on_bytes_def Let_def split: if_splits)

lemma feed_interval: "ir_interval (snd (feed evs r)) = ir_interval r"
proof (induction evs arbitrary: r)
  case (Cons e evs)
  obtain n t where e: "e = (n, t)" by (cases e)
  obtain res r1 where o: "on_bytes n t r = (res, r1)" by fastforce
  from Cons.IH [of r1] on_bytes_interval [OF o] show ?case
    by (cases res) (simp_all add: e o split_beta)
qed simp

lemma on_bytes_new:
  assumes "ir_origin r = None"
  shows "on_bytes n now r = on_bytes n now
    (r\<lparr>ir_origin := Some now, ir_next_boundary := Some (now + ir_interval r)\<rparr>)"
  using assms by (simp add: on_bytes_def)

lemma reporter_at_start:
  "reporter_at 0 now (r\<lparr>ir_origin := Some now, ir_next_boundary := Some (now + ir_interval r)\<rparr>)"
  by (simp add: reporter_at_def)

lemma on_bytes_inv [wf_intros]:
  assumes "reporter_inv r"
  shows "reporter_inv (snd (on_bytes n now r))"
proof -
  have at: "reporter_inv (snd (on_bytes n now q))" if q: "reporter_at k origin q" for q k origin
  proof -
    obtain res q' where o: "on_bytes n now q = (res, q')" by fastforce
    have "\<exists>k. reporter_at k origin q'"
      using on_bytes_at(3) [OF q o] on_bytes_at(4) [OF q o] by (cases res) blast+
    with o show ?thesis unfolding reporter_inv_def by auto
  qed
  show ?thesis
  proof (cases "ir_origin r")
    case None
    from at [OF reporter_at_start] show ?thesis by (simp add: on_bytes_new [OF None])
  next
    case (Some origin)
    with assms obtain k where "reporter_at k origin r"
      by (auto simp: reporter_inv_def reporter_at_def)
    then show ?thesis by (rule at)
  qed
qed

lemma feed_at:
  assumes "reporter_at k origin r" and "feed evs r = (rows, r')"
  shows "(\<Sum>s\<leftarrow>rows. is_bytes s) + ir_bytes r' = ir_bytes r + of_nat (sum_list (map fst evs)) \<and>
    map is_start_sec rows = map (\<lambda>j. as_secs_f64 (j * ir_interval r)) [k..<k + length rows] \<and>
    map is_end_sec rows = map (\<lambda>j. as_secs_f64 ((j + 1) * ir_interval r)) [k..<k + length rows] \<and>
    reporter_at (k + length rows) origin r'"
  using assms
proof (induction evs arbitrary: k r rows)
  case (Cons e evs)
  obtain n t where e: "e = (n, t)" by (cases e)
  obtain res r1 where o: "on_bytes n t r = (res, r1)" by fastforce
  note at = on_bytes_at [OF Cons.prems(1) o]
  show ?case
  proof (cases res)
    case None
    with Cons.prems(2) o e have "feed evs r1 = (rows, r')" by simp
    moreover from at(3) [OF None] have "reporter_at k origin r1" by simp
    ultimately show ?thesis using Cons.IH [of k r1 rows] at(3) [OF None]
      by (simp add: e at(1) algebra_simps)
  next
    case (Some s)
    with Cons.prems(2) o e obtain rows' where f: "feed evs r1 = (rows', r')" "rows = s # rows'"
      by (auto split: prod.splits)
    from at(4) [OF Some] have "reporter_at (Suc k) origin r1" by simp
    moreover have "[k..<k + length rows] = k # [Suc k..<Suc k + length rows']"
      by (simp add: f(2) upt_conv_Cons del: upt_Suc)
    ultimately show ?thesis using Cons.IH [of "Suc k" r1 rows'] f(1) at(4) [OF Some]
      by (simp add: e f(2) at(1) algebra_simps del: upt_Suc)
  qed
qed simp

section \<open>Token bucket\<close>

record token_bucket =
  tb_rate_bps :: u64
  tb_bytes_sent :: u64
  tb_start :: instant

definition bucket_new :: "u64 \<Rightarrow> instant \<Rightarrow> token_bucket" where
  "bucket_new rate start = \<lparr>tb_rate_bps = rate, tb_bytes_sent = 0, tb_start = start\<rparr>"

definition bucket_record :: "u64 \<Rightarrow> token_bucket \<Rightarrow> token_bucket" where
  "bucket_record n b = b\<lparr>tb_bytes_sent := saturating_add (tb_bytes_sent b) n\<rparr>"

text \<open>The seconds handed to \<open>Duration::from_secs_f64\<close>, if the caller has to wait.\<close>

definition bucket_wait :: "token_bucket \<Rightarrow> instant \<Rightarrow> f64 option" where
  "bucket_wait b now =
     (if tb_rate_bps b = 0 then None
      else
        let rate = real (unat (tb_rate_bps b)) / 8;
            ahead = real (unat (tb_bytes_sent b)) - rate * as_secs_f64 (duration_since now (tb_start b))
        in if ahead \<le> 0 then None else Some (ahead / rate))"

lemma bucket_wait_None_iff:
  assumes "tb_rate_bps b \<noteq> 0"
  shows "bucket_wait b now = None \<longleftrightarrow>
    real (unat (tb_bytes_sent b)) \<le>
      real (unat (tb_rate_bps b)) / 8 * as_secs_f64 (duration_since now (tb_start b))"
  using assms by (simp add: bucket_wait_def Let_def)

lemma rate_pos:
  fixes w :: u64
  assumes "w \<noteq> 0"
  shows "0 < real (unat w) / 8"
proof -
  from assms have "0 < unat w" by (simp add: unat_gt_0)
  then have "0 < real (unat w)" by (simp only: of_nat_0_less_iff)
  then show ?thesis by (rule divide_pos_pos) simp
qed

lemma bucket_wait_SomeD:
  assumes "bucket_wait b now = Some w"
  shows "0 < w"
    and "real (unat (tb_bytes_sent b)) =
      real (unat (tb_rate_bps b)) / 8 * (as_secs_f64 (duration_since now (tb_start b)) + w)"
proof -
  let ?r = "real (unat (tb_rate_bps b)) / 8"
  let ?a = "real (unat (tb_bytes_sent b)) - ?r * as_secs_f64 (duration_since now (tb_start b))"
  from assms have r: "tb_rate_bps b \<noteq> 0" and a: "0 < ?a" and w: "w = ?a / ?r"
    by (auto simp: bucket_wait_def Let_def split: if_splits)
  from rate_pos [OF r] a show "0 < w" unfolding w by (rule divide_pos_pos [rotated])
  from rate_pos [OF r] have "?r * w = ?a" unfolding w by simp
  then show "real (unat (tb_bytes_sent b)) = ?r * (as_secs_f64 (duration_since now (tb_start b)) + w)"
    by (simp only: distrib_left)
qed

section \<open>Jitter\<close>

definition jitter_update :: "f64 \<Rightarrow> f64 \<Rightarrow> f64" where
  "jitter_update prev d = prev + (\<bar>d\<bar> - prev) / 16"

lemma jitter_update_convex: "jitter_update prev d = 15 / 16 * prev + 1 / 16 * \<bar>d\<bar>"
  by (simp add: jitter_update_def field_simps)

lemma jitter_update_bounds:
  "0 \<le> prev \<Longrightarrow> prev \<le> m \<Longrightarrow> \<bar>d\<bar> \<le> m \<Longrightarrow> 0 \<le> jitter_update prev d \<and> jitter_update prev d \<le> m"
  by (simp add: jitter_update_convex)

section \<open>CPU accounting\<close>

record cpu_snapshot =
  cpu_user_ticks :: u64
  cpu_system_ticks :: u64

record cpu_usage =
  user_pct :: f64
  system_pct :: f64
  total_pct :: f64

definition cpu_usage_ZERO :: cpu_usage where
  "cpu_usage_ZERO = \<lparr>user_pct = 0, system_pct = 0, total_pct = 0\<rparr>"

text \<open>What \<open>sysconf(_SC_CLK_TCK)\<close> returns is the argument.\<close>

definition clock_ticks_per_sec :: "i64 \<Rightarrow> u64" where
  "clock_ticks_per_sec v = (if 0 < sint v then v else 100)"

definition cpu_usage_between ::
  "i64 \<Rightarrow> cpu_snapshot \<Rightarrow> cpu_snapshot \<Rightarrow> duration \<Rightarrow> cpu_usage" where
  "cpu_usage_between sysconf start end' wall =
     (let wall_s = as_secs_f64 wall
      in if wall_s \<le> 0 then cpu_usage_ZERO
         else
           let tps = real (unat (clock_ticks_per_sec sysconf));
               user_secs = real (unat (saturating_sub (cpu_user_ticks end') (cpu_user_ticks start))) / tps;
               sys_secs = real (unat (saturating_sub (cpu_system_ticks end') (cpu_system_ticks start))) / tps
           in \<lparr>user_pct = 100 * user_secs / wall_s, system_pct = 100 * sys_secs / wall_s,
               total_pct = 100 * (user_secs + sys_secs) / wall_s\<rparr>)"

definition parse_proc_stat :: "rstr \<Rightarrow> cpu_snapshot option" where
  "parse_proc_stat raw =
     (case after_last 41 raw of
        None \<Rightarrow> None
      | Some rest \<Rightarrow>
          let fields = split_whitespace (trim_start rest)
          in if length fields \<le> 11 then None
             else case parse_u64 (fields ! 11) of
               None \<Rightarrow> None
             | Some user \<Rightarrow>
                 if length fields \<le> 12 then None
                 else case parse_u64 (fields ! 12) of
                   None \<Rightarrow> None
                 | Some sys \<Rightarrow> Some \<lparr>cpu_user_ticks = user, cpu_system_ticks = sys\<rparr>)"

text \<open>\<open>read_snapshot\<close>: \<open>proc\<close> is the content of \<^verbatim>\<open>/proc/self/stat\<close>, if it can be read.\<close>

definition read_snapshot :: "rstr option \<Rightarrow> cpu_snapshot option" where
  "read_snapshot proc = Option.bind proc parse_proc_stat"

text \<open>\<open>sample\<close> on Linux: what \<open>read_snapshot\<close> yields, or zeros.\<close>

definition cpu_sample :: "rstr option \<Rightarrow> cpu_snapshot" where
  "cpu_sample proc =
     (case read_snapshot proc of
        None \<Rightarrow> \<lparr>cpu_user_ticks = 0, cpu_system_ticks = 0\<rparr>
      | Some s \<Rightarrow> s)"

text \<open>A field of the line: not empty, no blank, no closing parenthesis.\<close>

definition stat_field :: "rstr \<Rightarrow> bool" where
  "stat_field f \<longleftrightarrow> f \<noteq> [] \<and> list_all (\<lambda>c. \<not> is_whitespace c \<and> c \<noteq> 41) f"

definition stat_fields :: "rstr list \<Rightarrow> rstr" where
  "stat_fields fs = concat (map (\<lambda>f. f @ [32]) fs)"

lemma split_ws_fields: "list_all stat_field fs \<Longrightarrow> split_ws [] (stat_fields fs) = fs"
proof (induction fs)
  case (Cons f fs)
  then have "list_all (\<lambda>c. \<not> is_whitespace c) f" "f \<noteq> []"
    by (simp_all add: stat_field_def list_all_iff)
  moreover have "is_whitespace 32" by (simp add: is_whitespace_def)
  ultimately show ?case using Cons split_ws_word [of f 32 "[]" "stat_fields fs"]
    by (simp add: stat_fields_def)
qed (simp add: stat_fields_def)

lemma stat_fields_no_paren: "list_all stat_field fs \<Longrightarrow> 41 \<notin> set (stat_fields fs)"
  by (auto simp: stat_fields_def stat_field_def list_all_iff)

lemma trim_start_fields: "list_all stat_field fs \<Longrightarrow> trim_start (32 # stat_fields fs) = stat_fields fs"
proof (cases fs)
  case (Cons f fs')
  assume "list_all stat_field fs"
  then obtain c f' where "f = c # f'" "\<not> is_whitespace c"
    by (cases f) (auto simp: Cons stat_field_def)
  then show ?thesis by (simp add: Cons trim_start_def stat_fields_def is_whitespace_def [of 32])
qed (simp add: trim_start_def stat_fields_def is_whitespace_def)

section \<open>Sums of the JSON report\<close>

record json_sum =
  js_bytes :: u64
  js_seconds :: f64
  js_bits_per_second :: f64

definition json_sum_new :: "u64 \<Rightarrow> f64 \<Rightarrow> json_sum" where
  "json_sum_new n seconds = \<lparr>js_bytes = n, js_seconds = seconds,
     js_bits_per_second = real (unat n) * 8 / max seconds (1 / 1000000)\<rparr>"

section \<open>Properties\<close>

text \<open>
  What a receipt reads after a run: for every sequence of deliveries whose bytes fit 64 bits,
  the server's receipt reports as measured exactly the bytes delivered at least \<open>omit\<close> after the
  first one, its window starts at the first delivery and ends at the last, and the measured
  window starts at the first delivery outside the omit window. The client's receipt reads the same.
\<close>

lemma receipt_accounting:
  assumes evs: "evs = (n0, t0) # evs'" and fits: "sum_list (map fst evs) < 2 ^ 64"
    and r: "r = fold (\<lambda>(n, t). receipt_tick omit n t) evs stream_receipt_empty"
    and c: "c = fold (\<lambda>(n, t). client_tick omit n t) evs (client_receipt_empty sid)"
  shows "unat (rc_bytes r) = sum_list (map fst evs) \<and>
    bytes_measured r = of_nat (sum_list (map fst (filter (\<lambda>e. omit \<le> snd e - t0) evs))) \<and>
    rc_first_byte_at r = Some t0 \<and> rc_last_byte_at r = Some (snd (last evs)) \<and>
    rc_first_measured_at r = map_option snd (List.find (\<lambda>e. omit \<le> snd e - t0) evs) \<and>
    cr_bytes_sent c = rc_bytes r \<and> client_bytes_measured c = bytes_measured r \<and>
    cr_first_send_at c = rc_first_byte_at r \<and> cr_last_send_at c = rc_last_byte_at r \<and>
    cr_first_measured_at c = rc_first_measured_at r"
proof -
  have r': "r = server_meter.ticks omit evs stream_receipt_empty"
    by (simp add: r server_meter.ticks_def)
  have c': "c = client_meter.ticks omit evs (client_receipt_empty sid)"
    by (simp add: c client_meter.ticks_def)
  note s = server_meter.fresh_ticks [OF server_meter_fresh evs, of omit]
  note k = client_meter.fresh_ticks [OF client_meter_fresh evs, of omit]
  have b: "bytes_measured r = of_nat (sum_list (map fst (filter (\<lambda>e. omit \<le> snd e - t0) evs)))"
    unfolding bytes_measured_def r'
    by (rule server_meter.measured_bytes [OF server_meter_fresh evs fits])
  have d: "client_bytes_measured c = of_nat (sum_list (map fst (filter (\<lambda>e. omit \<le> snd e - t0) evs)))"
    unfolding client_bytes_measured_def c'
    by (rule client_meter.measured_bytes [OF client_meter_fresh evs fits])
  show ?thesis
    unfolding b d using fits by (simp add: r' c' s k unat_of_nat not_less)
qed

text \<open>
  (C23) The interval reporter loses no byte and leaves no gap: over any sequence of deltas the bytes of
  the printed rows and of the bucket add up to the bytes fed in, and the rows cover consecutive
  intervals from the first delivery on. A final flush prints what is left in the bucket.
\<close>

theorem reporter_conservation:
  assumes "feed ((n, t) # evs) (reporter_new sid interval) = (rows, r)"
  shows "(\<Sum>s\<leftarrow>rows. is_bytes s) + ir_bytes r = of_nat (sum_list (map fst ((n, t) # evs))) \<and>
    map is_start_sec rows = map (\<lambda>j. as_secs_f64 (j * interval)) [0..<length rows] \<and>
    map is_end_sec rows = map (\<lambda>j. as_secs_f64 ((j + 1) * interval)) [0..<length rows] \<and>
    (ir_bytes r \<noteq> 0 \<longrightarrow> (\<exists>s. fst (flush now r) = Some s \<and> is_bytes s = ir_bytes r \<and>
       is_start_sec s = as_secs_f64 (length rows * interval) \<and> is_start_sec s \<le> is_end_sec s))"
proof -
  let ?r0 = "(reporter_new sid interval)\<lparr>ir_origin := Some t, ir_next_boundary := Some (t + interval)\<rparr>"
  have at0: "reporter_at 0 t ?r0" by (simp add: reporter_at_def reporter_new_def)
  have "on_bytes n t (reporter_new sid interval) = on_bytes n t ?r0"
    using on_bytes_new [of "reporter_new sid interval"] by (simp add: reporter_new_def)
  with assms have f: "feed ((n, t) # evs) ?r0 = (rows, r)" by simp
  from feed_interval [of "(n, t) # evs" ?r0] f have i: "ir_interval r = interval"
    by (simp add: reporter_new_def del: feed.simps)
  note l = feed_at [OF at0 f]
  from l i have "reporter_at (length rows) t r" by simp
  then have "ir_bytes r \<noteq> 0 \<longrightarrow> (\<exists>s. fst (flush now r) = Some s \<and> is_bytes s = ir_bytes r \<and>
       is_start_sec s = as_secs_f64 (length rows * interval) \<and> is_start_sec s \<le> is_end_sec s)"
    by (auto simp: flush_def reporter_at_def Let_def i duration_since_def)
  with l show ?thesis by (simp add: reporter_new_def)
qed

theorem reporter_conservation_witness:
  "fst (feed [(5, 10), (6, 25), (7, 26)] (reporter_new 1 10)) =
     [\<lparr>is_stream_id = 1, is_start_sec = as_secs_f64 0, is_end_sec = as_secs_f64 10, is_bytes = 11\<rparr>] \<and>
   (\<Sum>s\<leftarrow>fst (feed [(5, 10), (6, 25), (7, 26)] (reporter_new 1 10)). is_bytes s) +
     ir_bytes (snd (feed [(5, 10), (6, 25), (7, 26)] (reporter_new 1 10))) = 18"
proof
  show "fst (feed [(5, 10), (6, 25), (7, 26)] (reporter_new 1 10)) =
     [\<lparr>is_stream_id = 1, is_start_sec = as_secs_f64 0, is_end_sec = as_secs_f64 10, is_bytes = 11\<rparr>]"
    by (simp add: reporter_new_def on_bytes_def duration_since_def)
  show "(\<Sum>s\<leftarrow>fst (feed [(5, 10), (6, 25), (7, 26)] (reporter_new 1 10)). is_bytes s) +
     ir_bytes (snd (feed [(5, 10), (6, 25), (7, 26)] (reporter_new 1 10))) = 18"
    using reporter_conservation [OF prod.collapse [symmetric], of 5 10 "[(6, 25), (7, 26)]" 1 10]
    by (simp del: feed.simps)
qed

text \<open>
  Pacing is exact: a limited sender that is let through has not sent more than its rate allows
  by now; one that is told to wait is let through again from the moment the wait is over and not
  before; an unlimited one never waits.
\<close>

lemma pacing_exact:
  assumes "tb_rate_bps b \<noteq> 0" and "tb_start b \<le> now"
  shows "(bucket_wait b now = None \<longleftrightarrow>
      8 * real (unat (tb_bytes_sent b)) \<le> real (unat (tb_rate_bps b)) * as_secs_f64 (now - tb_start b)) \<and>
    (\<forall>w. bucket_wait b now = Some w \<longrightarrow> 0 < w \<and>
      (\<forall>later\<ge>now. bucket_wait b later = None \<longleftrightarrow> w \<le> as_secs_f64 (later - now))) \<and>
    bucket_wait (b\<lparr>tb_rate_bps := 0\<rparr>) now = None"
proof (intro conjI allI impI)
  show "bucket_wait b now = None \<longleftrightarrow>
      8 * real (unat (tb_bytes_sent b)) \<le> real (unat (tb_rate_bps b)) * as_secs_f64 (now - tb_start b)"
    unfolding bucket_wait_None_iff [OF assms(1)] duration_since_def by (simp add: field_simps)
  show "bucket_wait (b\<lparr>tb_rate_bps := 0\<rparr>) now = None" by (simp add: bucket_wait_def)
  fix w assume w: "bucket_wait b now = Some w"
  show "0 < w" by (rule bucket_wait_SomeD(1) [OF w])
  fix later assume "now \<le> later"
  with assms(2) have "later - tb_start b = (now - tb_start b) + (later - now)" by simp
  then have e: "as_secs_f64 (later - tb_start b) = as_secs_f64 (now - tb_start b) + as_secs_f64 (later - now)"
    by (metis as_secs_f64_add)
  show "bucket_wait b later = None \<longleftrightarrow> w \<le> as_secs_f64 (later - now)"
    unfolding bucket_wait_None_iff [OF assms(1)] bucket_wait_SomeD(2) [OF w] duration_since_def e
    using rate_pos [OF assms(1)] by (simp only: mult_le_cancel_left_pos add_le_cancel_left)
qed

text \<open>
  The jitter estimate is never negative and never exceeds the largest transit difference seen,
  whatever the sequence of differences.
\<close>

lemma jitter_bounded:
  assumes "\<forall>d\<in>set ds. \<bar>d\<bar> \<le> m" and "0 \<le> m"
  shows "0 \<le> foldl jitter_update 0 ds \<and> foldl jitter_update 0 ds \<le> m"
proof -
  have "0 \<le> foldl jitter_update j ds \<and> foldl jitter_update j ds \<le> m" if "0 \<le> j" "j \<le> m" for j
    using assms(1) that
  proof (induction ds arbitrary: j)
    case (Cons d ds)
    then show ?case using jitter_update_bounds [of j m d] by simp
  qed simp
  with assms(2) show ?thesis by simp
qed

text \<open>
  Reading \<^verbatim>\<open>/proc/self/stat\<close>: whatever the process name in parentheses contains, blanks and
  parentheses included, the two tick counts are taken from the twelfth and thirteenth field behind
  the last closing parenthesis.
\<close>

lemma parse_proc_stat_correct:
  assumes "list_all stat_field fs" and "12 < length fs"
    and "fs ! 11 = show_word user" and "fs ! 12 = show_word sys"
  shows "parse_proc_stat (pre @ 41 # 32 # stat_fields fs) =
    Some \<lparr>cpu_user_ticks = user, cpu_system_ticks = sys\<rparr>"
proof -
  have "after_last 41 (pre @ 41 # 32 # stat_fields fs) = Some (32 # stat_fields fs)"
    using stat_fields_no_paren [OF assms(1)] by (intro after_last_append) simp
  then show ?thesis
    using assms(2-4)
    by (simp add: parse_proc_stat_def trim_start_fields [OF assms(1)] split_whitespace_def
        split_ws_fields [OF assms(1)])
qed

end
