(* ===== verification/Udp.thy ===== *)
theory Udp
  imports Messages Reporting
begin

text \<open>
  The UDP data path: the datagram header (\<^verbatim>\<open>src/common/udp_header.rs\<close>) and the server's
  session (\<^verbatim>\<open>src/common/udp_session.rs\<close>), which registers the senders of a test and keeps
  a receipt per sender.

  A \<open>UdpSocket\<close> is what the operating system does with it: the datagrams (or errors) the
  successive receives will find, the errors of the successive sends, and the datagrams sent.
\<close>

section \<open>Datagram header\<close>

definition UDP_HEADER_LEN :: nat where
  "UDP_HEADER_LEN = 16"

record udp_header =
  uh_tv_sec :: u32
  uh_tv_usec :: u32
  uh_seq :: i64

definition udp_encode :: "udp_header \<Rightarrow> bytes \<Rightarrow> bytes io_result" where
  "udp_encode h out =
     (if length out < UDP_HEADER_LEN then Inl InvalidInput
      else Inr (u32_to_be_bytes (uh_tv_sec h) @ u32_to_be_bytes (uh_tv_usec h) @
                u64_to_be_bytes (uh_seq h) @ drop 16 out))"

definition udp_decode :: "bytes \<Rightarrow> udp_header io_result" where
  "udp_decode buf =
     (if length buf < UDP_HEADER_LEN then Inl InvalidData
      else Inr \<lparr>uh_tv_sec = from_be_bytes (take 4 buf), uh_tv_usec = from_be_bytes (take 4 (drop 4 buf)),
                uh_seq = from_be_bytes (take 8 (drop 8 buf))\<rparr>)"

definition is_sentinel :: "udp_header \<Rightarrow> bool" where
  "is_sentinel h \<longleftrightarrow> sint (uh_seq h) < 0"

lemma udp_decode_encode:
  "udp_decode (u32_to_be_bytes s @ u32_to_be_bytes u @ u64_to_be_bytes q @ rest) =
     Inr \<lparr>uh_tv_sec = s, uh_tv_usec = u, uh_seq = q\<rparr>"
  by (simp add: udp_decode_def UDP_HEADER_LEN_def)

section \<open>UDP sockets\<close>

type_synonym ip_addr = nat
type_synonym sock_addr = "ip_addr \<times> u16"

record udp_sock =
  us_rx :: "(bytes \<times> sock_addr) io_result list"
  us_tx :: "io_kind option list"
  us_out :: "(bytes \<times> sock_addr) list"
  us_read_timeout :: "duration option"

definition udp_recv_from :: "nat \<Rightarrow> (udp_sock, bytes \<times> sock_addr) io" where
  "udp_recv_from n s =
     (case us_rx s of
        [] \<Rightarrow> (Inl WouldBlock, s)
      | Inl k # r \<Rightarrow> (Inl k, s\<lparr>us_rx := r\<rparr>)
      | Inr (d, a) # r \<Rightarrow> (Inr (take n d, a), s\<lparr>us_rx := r\<rparr>))"

definition udp_send_to :: "bytes \<Rightarrow> sock_addr \<Rightarrow> (udp_sock, nat) io" where
  "udp_send_to d a s =
     (case us_tx s of
        Some k # r \<Rightarrow> (Inl k, s\<lparr>us_tx := r\<rparr>)
      | r \<Rightarrow> (Inr (length d), s\<lparr>us_tx := tl r, us_out := us_out s @ [(d, a)]\<rparr>))"

definition udp_set_read_timeout :: "duration option \<Rightarrow> (udp_sock, unit) io" where
  "udp_set_read_timeout t s =
     (if t = Some 0 then (Inl InvalidInput, s) else (Inr (), s\<lparr>us_read_timeout := t\<rparr>))"

definition bind_udp :: "udp_sock io_result \<Rightarrow> duration option \<Rightarrow> udp_sock io_result" where
  "bind_udp bound handshake_timeout =
     (case bound of
        Inl k \<Rightarrow> Inl k
      | Inr s \<Rightarrow> (case udp_set_read_timeout handshake_timeout s of
                     (Inl k, _) \<Rightarrow> Inl k
                   | (Inr _, s') \<Rightarrow> Inr s'))"

lemma udp_send_to_rx [simp]: "us_rx (snd (udp_send_to d a s)) = us_rx s"
  by (auto simp: udp_send_to_def split: list.splits option.splits)

section \<open>Registering the streams of a test\<close>

definition UDP_STREAM_INIT :: bytes where
  "UDP_STREAM_INIT = [57, 56, 55, 54]"

definition UDP_STREAM_ACK :: bytes where
  "UDP_STREAM_ACK = [54, 55, 56, 57]"

definition is_valid_init :: "bytes \<Rightarrow> bytes \<Rightarrow> bool" where
  "is_valid_init cookie payload \<longleftrightarrow> payload = cookie \<or> payload = UDP_STREAM_INIT"

function accept_udp_loop ::
  "bytes \<Rightarrow> nat \<Rightarrow> sock_addr list \<Rightarrow> sock_addr set \<Rightarrow> (udp_sock, sock_addr list) io" where
  "accept_udp_loop cookie n addrs seen s =
     (if n \<le> length addrs then (Inr addrs, s)
      else case udp_recv_from 65536 s of
             (Inl k, s') \<Rightarrow> (Inl k, s')
           | (Inr (payload, src), s') \<Rightarrow>
               if \<not> is_valid_init cookie payload then accept_udp_loop cookie n addrs seen s'
               else if src \<in> seen then accept_udp_loop cookie n addrs seen s'
               else accept_udp_loop cookie n (addrs @ [src]) (insert src seen)
                      (snd (udp_send_to UDP_STREAM_ACK src s')))"
  by pat_completeness auto
termination
  by (relation "measure (\<lambda>(_, _, _, _, s). length (us_rx s))")
    (auto simp: udp_recv_from_def split: list.splits sum.splits)

declare accept_udp_loop.simps [simp del]

definition accept_udp_streams :: "bytes \<Rightarrow> u32 \<Rightarrow> (udp_sock, sock_addr list) io" where
  "accept_udp_streams cookie n = accept_udp_loop cookie (unat n) [] {}"

text \<open>
  What it is to return: the datagrams that arrive before a receive fails, and of their senders those
  with a valid stream-init payload, in the order of their first one. A receive that finds nothing
  runs into the deadline.
\<close>

definition arrived :: "(bytes \<times> sock_addr) io_result list \<Rightarrow> (bytes \<times> sock_addr) list" where
  "arrived rx = map projr (takeWhile (\<lambda>e. \<not> isl e) rx)"

fun firsts :: "'a list \<Rightarrow> 'a list" where
  "firsts [] = []"
| "firsts (x # xs) = x # filter (\<lambda>y. y \<noteq> x) (firsts xs)"

definition init_order :: "bytes \<Rightarrow> (bytes \<times> sock_addr) io_result list \<Rightarrow> sock_addr list" where
  "init_order cookie rx =
     firsts (map snd (filter (\<lambda>(d, a). is_valid_init cookie (take 65536 d)) (arrived rx)))"

fun first_error :: "(bytes \<times> sock_addr) io_result list \<Rightarrow> io_kind" where
  "first_error [] = WouldBlock"
| "first_error (Inl k # r) = k"
| "first_error (Inr p # r) = first_error r"

lemma firsts_set [simp]: "set (firsts xs) = set xs" "distinct (firsts xs)"
  by (induction xs) auto

lemma arrived_simps [simp]:
  "arrived [] = []" "arrived (Inl k # r) = []" "arrived (Inr p # r) = p # arrived r"
  by (simp_all add: arrived_def)

lemma init_order_simps [simp]:
  "init_order cookie [] = []" "init_order cookie (Inl k # r) = []"
  "init_order cookie (Inr (d, a) # r) =
     (if is_valid_init cookie (take 65536 d) then a # filter (\<lambda>x. x \<noteq> a) (init_order cookie r)
      else init_order cookie r)"
  by (simp_all add: init_order_def)

definition sends_ack :: "sock_addr list \<Rightarrow> (bytes \<times> sock_addr) list \<Rightarrow> bool" where
  "sends_ack addrs out \<longleftrightarrow>
     distinct (map snd out) \<and> set (map snd out) \<subseteq> set addrs \<and> (\<forall>p\<in>set out. fst p = UDP_STREAM_ACK)"

lemma udp_send_ack:
  assumes "sends_ack addrs out" and "us_out s = out0 @ out" and "a \<notin> set addrs"
  obtains out' where "us_out (snd (udp_send_to UDP_STREAM_ACK a s)) = out0 @ out'"
    and "sends_ack (addrs @ [a]) out'"
proof (cases "\<exists>k r. us_tx s = Some k # r")
  case True
  then have "us_out (snd (udp_send_to UDP_STREAM_ACK a s)) = us_out s"
    by (auto simp: udp_send_to_def)
  with assms that [of out] show thesis by (auto simp: sends_ack_def)
next
  case False
  then have "us_out (snd (udp_send_to UDP_STREAM_ACK a s)) = us_out s @ [(UDP_STREAM_ACK, a)]"
    by (auto simp: udp_send_to_def split: list.splits option.splits)
  with assms that [of "out @ [(UDP_STREAM_ACK, a)]"] show thesis by (auto simp: sends_ack_def)
qed

text \<open>One round of the loop on a datagram.\<close>

lemma accept_udp_loop_data:
  assumes "us_rx s = Inr (d, a) # r" and "length addrs < n"
  shows "accept_udp_loop cookie n addrs seen s =
    (if is_valid_init cookie (take 65536 d) \<and> a \<notin> seen
     then accept_udp_loop cookie n (addrs @ [a]) (insert a seen)
            (snd (udp_send_to UDP_STREAM_ACK a (s\<lparr>us_rx := r\<rparr>)))
     else accept_udp_loop cookie n addrs seen (s\<lparr>us_rx := r\<rparr>))"
  using assms by (subst accept_udp_loop.simps) (simp add: udp_recv_from_def)

lemma accept_udp_loop_full: "n \<le> length addrs \<Longrightarrow> accept_udp_loop cookie n addrs seen s = (Inr addrs, s)"
  by (simp add: accept_udp_loop.simps)

lemma accept_udp_loop_error:
  "length addrs < n \<Longrightarrow> us_rx s = Inl k # r \<Longrightarrow>
     accept_udp_loop cookie n addrs seen s = (Inl k, s\<lparr>us_rx := r\<rparr>)"
  "length addrs < n \<Longrightarrow> us_rx s = [] \<Longrightarrow> accept_udp_loop cookie n addrs seen s = (Inl WouldBlock, s)"
  by (subst accept_udp_loop.simps, simp add: udp_recv_from_def)+

text \<open>The addresses registered when the loop ends, \<open>addrs\<close> of them before it.\<close>

definition registered :: "bytes \<Rightarrow> sock_addr list \<Rightarrow> (bytes \<times> sock_addr) io_result list \<Rightarrow> sock_addr list" where
  "registered cookie addrs rx = addrs @ filter (\<lambda>a. a \<notin> set addrs) (init_order cookie rx)"

lemma registered_Cons:
  "registered cookie addrs (Inr (d, a) # r) =
     (if is_valid_init cookie (take 65536 d) \<and> a \<notin> set addrs then registered cookie (addrs @ [a]) r
      else registered cookie addrs r)"
  by (auto simp: registered_def conj_commute intro: filter_cong)

definition acks :: "sock_addr list \<Rightarrow> (bytes \<times> sock_addr) list" where
  "acks addrs = map (\<lambda>a. (UDP_STREAM_ACK, a)) addrs"

lemma accept_udp_loop_result:
  assumes "us_rx s = rx" and "length addrs \<le> n"
  shows "fst (accept_udp_loop cookie n addrs (set addrs) s) =
    (if n \<le> length (registered cookie addrs rx) then Inr (take n (registered cookie addrs rx))
     else Inl (first_error rx))"
  using assms
proof (induction rx arbitrary: s addrs)
  case Nil
  then show ?case by (auto simp: registered_def accept_udp_loop_full accept_udp_loop_error not_le)
next
  case (Cons e rx)
  show ?case
  proof (cases "length addrs < n")
    case False
    with Cons.prems(2) show ?thesis by (simp add: accept_udp_loop_full registered_def)
  next
    case lt: True
    show ?thesis
    proof (cases e)
      case (Inl k)
      with lt Cons.prems show ?thesis by (simp add: accept_udp_loop_error registered_def)
    next
      case (Inr p)
      obtain d a where e: "e = Inr (d, a)" using Inr by (cases p) simp
      note step = accept_udp_loop_data [OF Cons.prems(1) [unfolded e] lt, of cookie "set addrs"]
      show ?thesis
      proof (cases "is_valid_init cookie (take 65536 d) \<and> a \<notin> set addrs")
        case True
        let ?s = "snd (udp_send_to UDP_STREAM_ACK a (s\<lparr>us_rx := rx\<rparr>))"
        have "us_rx ?s = rx" "length (addrs @ [a]) \<le> n" using lt by simp_all
        from Cons.IH [OF this] step True show ?thesis by (simp add: e registered_Cons)
      next
        case False
        have "us_rx (s\<lparr>us_rx := rx\<rparr>) = rx" by simp
        from Cons.IH [OF this Cons.prems(2)] step False show ?thesis by (auto simp: e registered_Cons)
      qed
    qed
  qed
qed

lemma accept_udp_loop_acks:
  assumes "us_rx s = rx" and "length addrs \<le> n" and "us_out s = out0 @ out" and "sends_ack addrs out"
  shows "\<exists>out'. us_out (snd (accept_udp_loop cookie n addrs (set addrs) s)) = out0 @ out' \<and>
    sends_ack (take n (registered cookie addrs rx)) out' \<and>
    (us_tx s = [] \<and> out = acks addrs \<longrightarrow> out' = acks (take n (registered cookie addrs rx)))"
  using assms
proof (induction rx arbitrary: s addrs out)
  case Nil
  then show ?case
    by (cases "length addrs < n")
      (simp_all add: registered_def accept_udp_loop_full accept_udp_loop_error)
next
  case (Cons e rx)
  show ?case
  proof (cases "length addrs < n")
    case False
    with Cons.prems show ?thesis by (simp add: accept_udp_loop_full registered_def)
  next
    case lt: True
    show ?thesis
    proof (cases e)
      case (Inl k)
      with lt Cons.prems show ?thesis by (simp add: accept_udp_loop_error registered_def)
    next
      case (Inr p)
      obtain d a where e: "e = Inr (d, a)" using Inr by (cases p) simp
      note step = accept_udp_loop_data [OF Cons.prems(1) [unfolded e] lt, of cookie "set addrs"]
      show ?thesis
      proof (cases "is_valid_init cookie (take 65536 d) \<and> a \<notin> set addrs")
        case valid: True
        let ?s1 = "s\<lparr>us_rx := rx\<rparr>"
        let ?s = "snd (udp_send_to UDP_STREAM_ACK a ?s1)"
        obtain out1 where o1: "us_out ?s = out0 @ out1" "sends_ack (addrs @ [a]) out1"
          using udp_send_ack [of addrs out ?s1 out0 a] valid Cons.prems(3,4) by auto
        have ok: "us_tx ?s = [] \<and> out1 = acks (addrs @ [a])" if "us_tx s = []" "out = acks addrs"
          using that o1(1) Cons.prems(3) by (simp add: udp_send_to_def acks_def)
        have "us_rx ?s = rx" "length (addrs @ [a]) \<le> n" using lt by simp_all
        from Cons.IH [OF this o1] step valid ok show ?thesis by (auto simp: e registered_Cons)
      next
        case False
        have "us_rx (s\<lparr>us_rx := rx\<rparr>) = rx" "us_out (s\<lparr>us_rx := rx\<rparr>) = out0 @ out"
          using Cons.prems(3) by simp_all
        from Cons.IH [OF this(1) Cons.prems(2) this(2) Cons.prems(4)] step False
        show ?thesis by (auto simp: e registered_Cons)
      qed
    qed
  qed
qed

section \<open>The receiver\<close>

record stream_state =
  ss_receipt :: stream_receipt
  ss_max_seq :: i64
  ss_last_transit_ms :: "f64 option"
  ss_saw_sentinel :: bool

definition stream_state_new :: stream_state where
  "stream_state_new = \<lparr>ss_receipt = stream_receipt_empty, ss_max_seq = - 1, ss_last_transit_ms = None,
     ss_saw_sentinel = False\<rparr>"

text \<open>
  Sequence accounting of one data packet. \<open>gap\<close> is computed in \<open>i64\<close> and reinterpreted as
  \<open>u64\<close>; the subtraction wraps when the first packet carries the largest sequence number.
\<close>

definition seq_tick :: "i64 \<Rightarrow> stream_state \<Rightarrow> stream_state" where
  "seq_tick q st =
     (let r = ss_receipt st; m = ss_max_seq st
      in if sint q \<le> sint m then st\<lparr>ss_receipt := r\<lparr>rc_ooo := rc_ooo r + 1\<rparr>\<rparr>
         else
           let r' = (if sint (m + 1) < sint q
                     then r\<lparr>rc_lost := saturating_add (rc_lost r) (q - m - 1)\<rparr> else r)
           in st\<lparr>ss_receipt := r', ss_max_seq := q\<rparr>)"

definition transit_tick :: "udp_header \<Rightarrow> instant \<Rightarrow> stream_state \<Rightarrow> stream_state" where
  "transit_tick h now st =
     (let r = ss_receipt st;
          first = the (rc_first_byte_at r);
          recv_ms = as_secs_f64 (duration_since now first) * 1000;
          send_ms = real (unat (uh_tv_sec h)) * 1000 + real (unat (uh_tv_usec h)) / 1000;
          transit = recv_ms - send_ms;
          r' = (case ss_last_transit_ms st of
                  None \<Rightarrow> r
                | Some prev \<Rightarrow> r\<lparr>rc_jitter_ms := jitter_update (rc_jitter_ms r) (transit - prev)\<rparr>)
      in st\<lparr>ss_receipt := r', ss_last_transit_ms := Some transit\<rparr>)"

text \<open>What the receiver does with a datagram of a registered sender.\<close>

definition udp_packet :: "duration \<Rightarrow> instant \<Rightarrow> bytes \<Rightarrow> stream_state \<Rightarrow> stream_state" where
  "udp_packet omit now d st =
     (case udp_decode (take UDP_HEADER_LEN d) of
        Inl _ \<Rightarrow> st
      | Inr h \<Rightarrow>
          if is_sentinel h then st\<lparr>ss_saw_sentinel := True\<rparr>
          else
            let r1 = receipt_tick omit (length d) now (ss_receipt st);
                r2 = r1\<lparr>rc_packets := rc_packets r1 + 1\<rparr>
            in transit_tick h now (seq_tick (uh_seq h) (st\<lparr>ss_receipt := r2\<rparr>)))"

type_synonym udp_states = "sock_addr \<Rightarrow> stream_state option"

definition udp_datagram ::
  "duration \<Rightarrow> instant \<Rightarrow> bytes \<times> sock_addr \<Rightarrow> udp_states \<Rightarrow> udp_states" where
  "udp_datagram omit now dg states =
     (case dg of (d, src) \<Rightarrow>
        if length d < UDP_HEADER_LEN then states
        else case states src of
               None \<Rightarrow> states
             | Some st \<Rightarrow> states(src \<mapsto> udp_packet omit now d st))"

definition udp_states_init :: "sock_addr list \<Rightarrow> udp_states" where
  "udp_states_init order = (\<lambda>a. if a \<in> set order then Some stream_state_new else None)"

text \<open>
  One turn of the loop sees: the stop flag and the clock at its head (the clock is read once for
  the deadline when it is set and once for the comparison), what the receive returns, the clock
  after it, and the stop flag again when the receive timed out.
\<close>

record udp_turn =
  ut_stop :: bool
  ut_clock_deadline :: instant
  ut_clock_check :: instant
  ut_recv :: "(bytes \<times> sock_addr) io_result"
  ut_clock_recv :: instant
  ut_stop_after :: bool

record udp_loop_state =
  ul_states :: udp_states
  ul_deadline :: "instant option"
  ul_short_timeout_set :: bool
  ul_read_timeout :: "duration option"

text \<open>The head of the loop: whether it ends here, and the deadline bookkeeping.\<close>

definition udp_loop_head ::
  "sock_addr list \<Rightarrow> udp_turn \<Rightarrow> udp_loop_state \<Rightarrow> bool \<times> udp_loop_state" where
  "udp_loop_head order t s =
     (if \<not> ut_stop t then (False, s)
      else
        let deadline = (case ul_deadline s of
              None \<Rightarrow> ut_clock_deadline t + from_millis 500 | Some d \<Rightarrow> d);
            s1 = s\<lparr>ul_deadline := Some deadline\<rparr>;
            s2 = (if ul_short_timeout_set s1 then s1
                  else s1\<lparr>ul_read_timeout := Some (from_millis 50), ul_short_timeout_set := True\<rparr>)
        in ((\<forall>a\<in>set order. case ul_states s2 a of None \<Rightarrow> True | Some st \<Rightarrow> ss_saw_sentinel st) \<or>
            deadline \<le> ut_clock_check t, s2))"

text \<open>
  The loop over a script of turns; \<open>None\<close> is a loop that has not ended when the script has.
\<close>

fun udp_loop ::
  "sock_addr list \<Rightarrow> duration \<Rightarrow> udp_turn list \<Rightarrow> udp_loop_state \<Rightarrow> udp_loop_state option" where
  "udp_loop order omit [] s = None"
| "udp_loop order omit (t # ts) s =
     (case udp_loop_head order t s of
        (True, s') \<Rightarrow> Some s'
      | (False, s') \<Rightarrow>
          (case ut_recv t of
             Inr dg \<Rightarrow>
               udp_loop order omit ts (s'\<lparr>ul_states := udp_datagram omit (ut_clock_recv t) dg (ul_states s')\<rparr>)
           | Inl k \<Rightarrow>
               if k = WouldBlock \<or> k = TimedOut
               then (if ut_stop_after t then Some s' else udp_loop order omit ts s')
               else Some s'))"

fun take_receipts :: "sock_addr list \<Rightarrow> udp_states \<Rightarrow> stream_receipt list" where
  "take_receipts [] states = []"
| "take_receipts (a # as) states =
     (case states a of None \<Rightarrow> stream_receipt_empty | Some st \<Rightarrow> ss_receipt st) #
     take_receipts as (states(a := None))"

definition run_udp_receiver ::
  "sock_addr list \<Rightarrow> duration \<Rightarrow> udp_turn list \<Rightarrow> stream_receipt list option" where
  "run_udp_receiver order omit ts =
     map_option (\<lambda>s. take_receipts order (ul_states s))
       (udp_loop order omit ts
         \<lparr>ul_states = udp_states_init order, ul_deadline = None, ul_short_timeout_set = False,
          ul_read_timeout = Some (from_millis 100)\<rparr>)"

subsection \<open>Sequence accounting\<close>

definition seq_inv :: "nat \<Rightarrow> stream_state \<Rightarrow> bool" where
  "seq_inv k st \<longleftrightarrow>
     - 1 \<le> sint (ss_max_seq st) \<and> unat (rc_ooo (ss_receipt st)) \<le> k \<and>
     unat (rc_lost (ss_receipt st)) + k = unat (rc_ooo (ss_receipt st)) + nat (sint (ss_max_seq st) + 1)"

lemma sint_i64_bounds: "- (2 ^ 63) \<le> sint (w :: i64)" "sint (w :: i64) < 2 ^ 63"
  using sint_range_size [of w] by (simp_all add: word_size)

lemma sint_Suc:
  fixes m q :: i64
  assumes "sint m < sint q"
  shows "sint (m + 1) = sint m + 1"
proof -
  have "sint (m + 1) = sint (word_of_int (sint m + 1) :: i64)" by simp
  also have "\<dots> = signed_take_bit 63 (sint m + 1)" by (subst sint_sbintrunc') simp
  also have "\<dots> = sint m + 1"
    using assms sint_i64_bounds [of m] sint_i64_bounds [of q]
    by (intro signed_take_bit_int_eq_self) simp_all
  finally show ?thesis .
qed

lemma unat_gap:
  fixes m q :: i64
  assumes "- 1 \<le> sint m" and "sint m < sint q"
  shows "unat (q - m - 1) = nat (sint q - sint m - 1)"
proof -
  have "uint (q - m - 1) = uint (word_of_int (sint q - sint m - 1) :: i64)" by simp
  also have "\<dots> = (sint q - sint m - 1) mod 2 ^ 64" by (subst uint_word_of_int) simp
  also have "\<dots> = sint q - sint m - 1"
    using assms sint_i64_bounds [of m] sint_i64_bounds [of q] by (intro mod_pos_pos_trivial) simp_all
  finally show ?thesis by (simp add: unat_eq_nat_uint)
qed

lemma seq_tick_inv:
  assumes inv: "seq_inv k st" and q: "0 \<le> sint q" and k: "k + 1 < 2 ^ 64"
  shows "seq_inv (k + 1) (seq_tick q st)"
proof -
  let ?r = "ss_receipt st" and ?m = "ss_max_seq st"
  from inv have m: "- 1 \<le> sint ?m" and ooo: "unat (rc_ooo ?r) \<le> k"
    and eq: "unat (rc_lost ?r) + k = unat (rc_ooo ?r) + nat (sint ?m + 1)"
    by (simp_all add: seq_inv_def)
  show ?thesis
  proof (cases "sint q \<le> sint ?m")
    case True
    have "unat (rc_ooo ?r + 1) = unat (rc_ooo ?r) + 1"
      using ooo k by (simp add: unat_word_ariths(1))
    with True m ooo eq show ?thesis by (simp add: seq_tick_def Let_def seq_inv_def)
  next
    case False
    then have lt: "sint ?m < sint q" by simp
    note gap = unat_gap [OF m lt]
    have low: "unat (rc_lost ?r) \<le> nat (sint ?m + 1)" using eq ooo by linarith
    have lost: "unat (saturating_add (rc_lost ?r) (q - ?m - 1)) =
        unat (rc_lost ?r) + nat (sint q - sint ?m - 1)"
      using low lt m sint_i64_bounds [of q] gap by (simp add: unat_saturating_add)
    show ?thesis
    proof (cases "sint (?m + 1) < sint q")
      case True
      have "unat (rc_lost ?r) + nat (sint q - sint ?m - 1) + (k + 1) =
          unat (rc_ooo ?r) + nat (sint q + 1)"
        using eq lt m by linarith
      with True False q ooo lost show ?thesis by (simp add: seq_tick_def Let_def seq_inv_def)
    next
      case no_gap: False
      then have "sint q = sint ?m + 1" using sint_Suc [OF lt] lt by simp
      with eq m have "unat (rc_lost ?r) + (k + 1) = unat (rc_ooo ?r) + nat (sint q + 1)" by linarith
      with no_gap False q ooo show ?thesis by (simp add: seq_tick_def Let_def seq_inv_def)
    qed
  qed
qed

lemma transit_tick_seq [simp]:
  "seq_inv k (transit_tick h now st) = seq_inv k st"
  "rc_packets (ss_receipt (transit_tick h now st)) = rc_packets (ss_receipt st)"
  "rc_bytes (ss_receipt (transit_tick h now st)) = rc_bytes (ss_receipt st)"
  "ss_saw_sentinel (transit_tick h now st) = ss_saw_sentinel st"
  by (auto simp: transit_tick_def Let_def seq_inv_def split: option.splits)

lemma seq_tick_frame [simp]:
  "rc_packets (ss_receipt (seq_tick q st)) = rc_packets (ss_receipt st)"
  "rc_bytes (ss_receipt (seq_tick q st)) = rc_bytes (ss_receipt st)"
  "ss_saw_sentinel (seq_tick q st) = ss_saw_sentinel st"
  by (auto simp: seq_tick_def Let_def)

lemma receipt_tick_frame [simp]:
  "rc_packets (receipt_tick om n t r) = rc_packets r" "rc_lost (receipt_tick om n t r) = rc_lost r"
  "rc_ooo (receipt_tick om n t r) = rc_ooo r" "rc_jitter_ms (receipt_tick om n t r) = rc_jitter_ms r"
  by (auto simp: receipt_tick_def Let_def split: option.splits)

text \<open>A datagram that carries data: a full header with a non-negative sequence number.\<close>

definition is_data :: "bytes \<Rightarrow> bool" where
  "is_data d \<longleftrightarrow>
     (case udp_decode (take UDP_HEADER_LEN d) of Inl _ \<Rightarrow> False | Inr h \<Rightarrow> \<not> is_sentinel h)"

text \<open>After \<open>k\<close> data packets with \<open>b\<close> bytes.\<close>

definition udp_count :: "nat \<Rightarrow> nat \<Rightarrow> stream_state \<Rightarrow> bool" where
  "udp_count k b st \<longleftrightarrow>
     seq_inv k st \<and> rc_packets (ss_receipt st) = of_nat k \<and> rc_bytes (ss_receipt st) = of_nat b"

lemma udp_count_new [wf_intros]: "udp_count 0 0 stream_state_new"
  by (simp add: udp_count_def seq_inv_def stream_state_new_def stream_receipt_empty_def)

lemma udp_packet_no_data:
  "\<not> is_data d \<Longrightarrow> udp_count k b (udp_packet om t d st) = udp_count k b st"
  by (auto simp: is_data_def udp_packet_def udp_count_def seq_inv_def split: sum.splits)

lemma udp_packet_data:
  assumes "is_data d" and "udp_count k b st" and "k + 1 < 2 ^ 64"
  shows "udp_count (k + 1) (b + length d) (udp_packet om t d st)"
proof -
  from assms(1) obtain h where h: "udp_decode (take UDP_HEADER_LEN d) = Inr h" "\<not> is_sentinel h"
    by (auto simp: is_data_def split: sum.splits)
  let ?r = "receipt_tick om (length d) t (ss_receipt st)"
  let ?st = "st\<lparr>ss_receipt := ?r\<lparr>rc_packets := rc_packets ?r + 1\<rparr>\<rparr>"
  have "seq_inv k ?st" using assms(2) by (simp add: udp_count_def seq_inv_def)
  moreover have "0 \<le> sint (uh_seq h)" using h(2) by (simp add: is_sentinel_def)
  ultimately have "seq_inv (k + 1) (seq_tick (uh_seq h) ?st)" using assms(3) by (intro seq_tick_inv)
  with assms(2) h show ?thesis
    by (simp add: udp_packet_def udp_count_def server_meter.tick_total)
qed

abbreviation udp_packets :: "duration \<Rightarrow> (bytes \<times> instant) list \<Rightarrow> stream_state \<Rightarrow> stream_state" where
  "udp_packets om ps st \<equiv> fold (\<lambda>(d, t). udp_packet om t d) ps st"

lemma udp_packets_count:
  assumes "udp_count k b st" and "k + length (filter is_data (map fst ps)) < 2 ^ 64"
  shows "udp_count (k + length (filter is_data (map fst ps)))
    (b + sum_list (map length (filter is_data (map fst ps)))) (udp_packets om ps st)"
  using assms
proof (induction ps arbitrary: st k b)
  case (Cons p ps)
  obtain d t where p: "p = (d, t)" by (cases p)
  show ?case
  proof (cases "is_data d")
    case True
    with Cons.prems have "udp_count (k + 1) (b + length d) (udp_packet om t d st)"
      by (intro udp_packet_data) (simp_all add: p)
    from Cons.IH [OF this] Cons.prems(2) True show ?thesis by (simp add: p add.assoc)
  next
    case False
    with Cons.IH [of k b "udp_packet om t d st"] Cons.prems udp_packet_no_data [OF False]
    show ?thesis by (simp add: p)
  qed
qed simp

subsection \<open>Sequence numbers in the order of arrival\<close>

definition dgram_seq :: "bytes \<Rightarrow> int" where
  "dgram_seq d = (case udp_decode (take UDP_HEADER_LEN d) of Inl _ \<Rightarrow> - 1 | Inr h \<Rightarrow> sint (uh_seq h))"

text \<open>The sequence numbers of the data packets among the datagrams received.\<close>

definition seqs :: "(bytes \<times> instant) list \<Rightarrow> nat list" where
  "seqs ps = map (nat \<circ> dgram_seq) (filter is_data (map fst ps))"

text \<open>How many of them come behind a higher one, the highest so far being \<open>m\<close>.\<close>

fun late :: "int \<Rightarrow> nat list \<Rightarrow> nat" where
  "late m [] = 0"
| "late m (j # js) = (if int j \<le> m then Suc (late m js) else late (int j) js)"

definition highest :: "int \<Rightarrow> nat list \<Rightarrow> int" where
  "highest m js = fold (\<lambda>j. max (int j)) js m"

lemma highest_simps [simp]: "highest m [] = m" "highest m (j # js) = highest (max (int j) m) js"
  by (simp_all add: highest_def)

lemma highest_Max: "js \<noteq> [] \<Longrightarrow> highest m js = max m (int (Max (set js)))"
proof (induction js arbitrary: m)
  case (Cons j js)
  then show ?case by (cases "js = []") (auto simp: max_def)
qed simp

lemma late_card:
  "late m js = card {i. i < length js \<and> (int (js ! i) \<le> m \<or> (\<exists>k<i. js ! i \<le> js ! k))}"
proof (induction js arbitrary: m)
  case (Cons j js)
  let ?S = "{i. i < length js \<and> (int (js ! i) \<le> max m (int j) \<or> (\<exists>k<i. js ! i \<le> js ! k))}"
  have "{i. i < length (j # js) \<and> (int ((j # js) ! i) \<le> m \<or> (\<exists>k<i. (j # js) ! i \<le> (j # js) ! k))} =
      (if int j \<le> m then {0} else {}) \<union> Suc ` ?S" (is "?L = ?R")
  proof (rule set_eqI)
    fix i show "i \<in> ?L \<longleftrightarrow> i \<in> ?R"
      by (cases i) (auto simp: Ex_less_Suc2 image_iff le_max_iff_disj)
  qed
  moreover have "card (Suc ` ?S) = card ?S" by (intro card_image) simp
  moreover have "late (max m (int j)) js = card ?S" by (rule Cons.IH)
  ultimately show ?case by (auto simp: max_def card_insert_if split: if_splits)
qed simp

lemma udp_packet_track:
  assumes "is_data d" and "unat (rc_ooo (ss_receipt st)) + 1 < 2 ^ 64"
  shows "sint (ss_max_seq (udp_packet om t d st)) = max (dgram_seq d) (sint (ss_max_seq st))"
    and "unat (rc_ooo (ss_receipt (udp_packet om t d st))) =
      unat (rc_ooo (ss_receipt st)) + (if dgram_seq d \<le> sint (ss_max_seq st) then 1 else 0)"
proof -
  from assms(1) obtain h where h: "udp_decode (take UDP_HEADER_LEN d) = Inr h" "\<not> is_sentinel h"
    by (auto simp: is_data_def split: sum.splits)
  then have q: "dgram_seq d = sint (uh_seq h)" by (simp add: dgram_seq_def)
  have o: "unat (rc_ooo (ss_receipt st) + 1) = unat (rc_ooo (ss_receipt st)) + 1"
    using assms(2) by (simp add: unat_word_ariths(1))
  have tr: "ss_max_seq (transit_tick h t x) = ss_max_seq x" "rc_ooo (ss_receipt (transit_tick h t x)) = rc_ooo (ss_receipt x)" for x
    by (auto simp: transit_tick_def Let_def split: option.splits)
  show "sint (ss_max_seq (udp_packet om t d st)) = max (dgram_seq d) (sint (ss_max_seq st))"
    by (simp add: udp_packet_def h Let_def tr q) (simp add: seq_tick_def Let_def max_def)
  show "unat (rc_ooo (ss_receipt (udp_packet om t d st))) =
      unat (rc_ooo (ss_receipt st)) + (if dgram_seq d \<le> sint (ss_max_seq st) then 1 else 0)"
    by (simp add: udp_packet_def h Let_def tr q) (simp add: seq_tick_def Let_def o)
qed

lemma udp_packet_track_no_data:
  assumes "\<not> is_data d"
  shows "ss_max_seq (udp_packet om t d st) = ss_max_seq st"
    "ss_receipt (udp_packet om t d st) = ss_receipt st"
  using assms by (auto simp: is_data_def udp_packet_def split: sum.splits)

lemma dgram_seq_nonneg: "is_data d \<Longrightarrow> 0 \<le> dgram_seq d"
  by (auto simp: is_data_def is_sentinel_def dgram_seq_def split: sum.splits)

lemma udp_packets_track:
  assumes "unat (rc_ooo (ss_receipt st)) + length ps < 2 ^ 64"
  shows "sint (ss_max_seq (udp_packets om ps st)) = highest (sint (ss_max_seq st)) (seqs ps)"
    and "unat (rc_ooo (ss_receipt (udp_packets om ps st))) =
      unat (rc_ooo (ss_receipt st)) + late (sint (ss_max_seq st)) (seqs ps)"
proof -
  have "sint (ss_max_seq (udp_packets om ps st)) = highest (sint (ss_max_seq st)) (seqs ps) \<and>
    unat (rc_ooo (ss_receipt (udp_packets om ps st))) =
      unat (rc_ooo (ss_receipt st)) + late (sint (ss_max_seq st)) (seqs ps)"
    using assms
  proof (induction ps arbitrary: st)
    case (Cons p ps)
    obtain d t where p: "p = (d, t)" by (cases p)
    show ?case
    proof (cases "is_data d")
      case True
      have "unat (rc_ooo (ss_receipt st)) + 1 < 2 ^ 64" using Cons.prems by simp
      note tr = udp_packet_track [OF True this, of om t]
      have "unat (rc_ooo (ss_receipt (udp_packet om t d st))) + length ps < 2 ^ 64"
        using Cons.prems by (simp add: tr(2))
      from Cons.IH [OF this] True dgram_seq_nonneg [OF True] show ?thesis
        by (simp add: p seqs_def tr max_def)
    next
      case False
      with Cons udp_packet_track_no_data [OF False, of om t st] show ?thesis by (simp add: p seqs_def)
    qed
  qed (simp add: seqs_def)
  then show "sint (ss_max_seq (udp_packets om ps st)) = highest (sint (ss_max_seq st)) (seqs ps)"
    and "unat (rc_ooo (ss_receipt (udp_packets om ps st))) =
      unat (rc_ooo (ss_receipt st)) + late (sint (ss_max_seq st)) (seqs ps)" by auto
qed

subsection \<open>The loop\<close>

text \<open>The datagrams of one sender among the turns of the loop.\<close>

fun datagrams_from :: "sock_addr \<Rightarrow> udp_turn list \<Rightarrow> (bytes \<times> instant) list" where
  "datagrams_from a [] = []"
| "datagrams_from a (t # ts) =
     (case ut_recv t of
        Inr (d, src) \<Rightarrow> if src = a \<and> UDP_HEADER_LEN \<le> length d
                        then (d, ut_clock_recv t) # datagrams_from a ts else datagrams_from a ts
      | Inl _ \<Rightarrow> datagrams_from a ts)"

lemma udp_datagram_at:
  "udp_datagram om t (d, src) states a =
     (if src = a \<and> UDP_HEADER_LEN \<le> length d then map_option (udp_packet om t d) (states a) else states a)"
  by (auto simp: udp_datagram_def split: option.splits)

lemma udp_datagram_from:
  "ut_recv t = Inr p \<Longrightarrow> udp_datagram om (ut_clock_recv t) p states a =
     map_option (udp_packets om (datagrams_from a [t])) (states a)"
  by (cases p) (simp add: udp_datagram_at option.map_id option.map_ident)

lemma udp_loop_head_states [simp]: "ul_states (snd (udp_loop_head order t s)) = ul_states s"
  by (simp add: udp_loop_head_def Let_def)

lemma udp_loop_head_deadline:
  "ul_deadline (snd (udp_loop_head order t s)) =
     (if ut_stop t
      then Some (case ul_deadline s of None \<Rightarrow> ut_clock_deadline t + from_millis 500 | Some d \<Rightarrow> d)
      else ul_deadline s)"
  by (simp add: udp_loop_head_def Let_def)

lemma datagrams_from_append: "datagrams_from a (ts @ us) = datagrams_from a ts @ datagrams_from a us"
  by (induction ts) (auto split: sum.splits)

text \<open>
  When the receiver ends, in terms of the turns \<open>seen\<close> before the turn \<open>t\<close>: the stop flag is up and every
  stream has sent its end marker, or 500 ms have passed since the first turn that saw the flag; or the
  receive fails, a timeout counting only when the flag is up after it.
\<close>

definition ends_stream :: "bytes \<Rightarrow> bool" where
  "ends_stream d \<longleftrightarrow>
     (case udp_decode (take UDP_HEADER_LEN d) of Inl _ \<Rightarrow> False | Inr h \<Rightarrow> is_sentinel h)"

definition receiver_stops :: "sock_addr list \<Rightarrow> udp_turn list \<Rightarrow> udp_turn \<Rightarrow> bool" where
  "receiver_stops order seen t \<longleftrightarrow>
     ut_stop t \<and>
     ((\<forall>a\<in>set order. \<exists>p\<in>set (datagrams_from a seen). ends_stream (fst p)) \<or>
      (\<exists>t1. find ut_stop (seen @ [t]) = Some t1 \<and> ut_clock_deadline t1 + from_millis 500 \<le> ut_clock_check t))"

definition receiver_ends :: "sock_addr list \<Rightarrow> udp_turn list \<Rightarrow> udp_turn \<Rightarrow> bool" where
  "receiver_ends order seen t \<longleftrightarrow>
     receiver_stops order seen t \<or>
     (\<exists>k. ut_recv t = Inl k \<and> (k \<notin> {WouldBlock, TimedOut} \<or> ut_stop_after t))"

text \<open>The turns before the first one that ends the receiver, \<open>seen\<close> of them already behind it.\<close>

fun turns_seen :: "sock_addr list \<Rightarrow> udp_turn list \<Rightarrow> udp_turn list \<Rightarrow> udp_turn list option" where
  "turns_seen order seen [] = None"
| "turns_seen order seen (t # ts) =
     (if receiver_ends order seen t then Some seen else turns_seen order (seen @ [t]) ts)"

lemma turns_seen_prefix:
  "turns_seen order seen ts = Some us \<Longrightarrow> \<exists>ms t rest. us = seen @ ms \<and> ts = ms @ t # rest \<and> receiver_ends order us t"
proof (induction ts arbitrary: seen)
  case (Cons t ts)
  show ?case
  proof (cases "receiver_ends order seen t")
    case False
    with Cons.prems have "turns_seen order (seen @ [t]) ts = Some us" by simp
    from Cons.IH [OF this] obtain ms u rest where "us = (seen @ [t]) @ ms" "ts = ms @ u # rest" "receiver_ends order us u"
      by blast
    then show ?thesis by (intro exI [of _ "t # ms"] exI [of _ u] exI [of _ rest]) simp
  qed (use Cons.prems in simp)
qed simp

text \<open>The state of the loop after the turns \<open>seen\<close>.\<close>

definition loop_at :: "sock_addr list \<Rightarrow> duration \<Rightarrow> udp_turn list \<Rightarrow> udp_loop_state \<Rightarrow> bool" where
  "loop_at order om seen s \<longleftrightarrow>
     (\<forall>a. ul_states s a = map_option (udp_packets om (datagrams_from a seen)) (udp_states_init order a)) \<and>
     ul_deadline s = map_option (\<lambda>t. ut_clock_deadline t + from_millis 500) (find ut_stop seen)"

lemma udp_packet_sentinel:
  "ss_saw_sentinel (udp_packet om t d st) \<longleftrightarrow> ss_saw_sentinel st \<or> ends_stream d"
  by (auto simp: udp_packet_def ends_stream_def Let_def split: sum.splits)

lemma udp_packets_sentinel:
  "ss_saw_sentinel (udp_packets om ps st) \<longleftrightarrow> ss_saw_sentinel st \<or> (\<exists>p\<in>set ps. ends_stream (fst p))"
  by (induction ps arbitrary: st) (auto simp: udp_packet_sentinel)

lemma find_snoc: "find P (xs @ [x]) = (case find P xs of None \<Rightarrow> if P x then Some x else None | Some y \<Rightarrow> Some y)"
  by (induction xs) auto

lemma udp_loop_head_at:
  assumes "loop_at order om seen s" and "udp_loop_head order t s = (e, s1)"
  shows "e \<longleftrightarrow> receiver_stops order seen t" and "ul_states s1 = ul_states s"
    and "ul_deadline s1 = map_option (\<lambda>t. ut_clock_deadline t + from_millis 500) (find ut_stop (seen @ [t]))"
proof -
  have all: "(\<forall>a\<in>set order. case ul_states s a of None \<Rightarrow> True | Some st \<Rightarrow> ss_saw_sentinel st) \<longleftrightarrow>
      (\<forall>a\<in>set order. \<exists>p\<in>set (datagrams_from a seen). ends_stream (fst p))"
  proof (rule ball_cong [OF refl])
    fix a assume "a \<in> set order"
    then have "ul_states s a = Some (udp_packets om (datagrams_from a seen) stream_state_new)"
      using assms(1) by (simp only: loop_at_def udp_states_init_def) simp
    then show "(case ul_states s a of None \<Rightarrow> True | Some st \<Rightarrow> ss_saw_sentinel st) \<longleftrightarrow>
        (\<exists>p\<in>set (datagrams_from a seen). ends_stream (fst p))"
      by (simp add: udp_packets_sentinel) (simp add: stream_state_new_def)
  qed
  have dl: "ul_deadline s = map_option (\<lambda>t. ut_clock_deadline t + from_millis 500) (find ut_stop seen)"
    using assms(1) by (simp add: loop_at_def)
  show "e \<longleftrightarrow> receiver_stops order seen t"
  proof (cases "ut_stop t")
    case True
    with assms(2) dl all show ?thesis
      by (cases "find ut_stop seen")
        (auto simp: udp_loop_head_def Let_def receiver_stops_def find_snoc split: if_splits)
  qed (use assms(2) in \<open>simp add: udp_loop_head_def receiver_stops_def\<close>)
  show "ul_states s1 = ul_states s" using udp_loop_head_states [of order t s] assms(2) by simp
  show "ul_deadline s1 = map_option (\<lambda>t. ut_clock_deadline t + from_millis 500) (find ut_stop (seen @ [t]))"
    using udp_loop_head_deadline [of order t s] assms(2) dl by (auto simp: find_snoc split: option.splits)
qed

lemma loop_at_datagram:
  assumes "loop_at order om seen s" and "udp_loop_head order t s = (e, s1)" and "ut_recv t = Inr p"
  shows "loop_at order om (seen @ [t]) (s1\<lparr>ul_states := udp_datagram om (ut_clock_recv t) p (ul_states s1)\<rparr>)"
  using assms(1) udp_loop_head_at(2,3) [OF assms(1,2)]
  by (simp add: loop_at_def udp_datagram_from [OF assms(3)] datagrams_from_append option.map_comp comp_def
      del: datagrams_from.simps)

lemma loop_at_timeout:
  assumes "loop_at order om seen s" and "udp_loop_head order t s = (e, s1)" and "ut_recv t = Inl k"
  shows "loop_at order om (seen @ [t]) s1"
  using assms(1,3) udp_loop_head_at(2,3) [OF assms(1,2)] by (simp add: loop_at_def datagrams_from_append)

lemma udp_loop_seen:
  assumes "loop_at order om seen s"
  shows "(case udp_loop order om ts s of None \<Rightarrow> turns_seen order seen ts = None
    | Some s' \<Rightarrow> \<exists>us. turns_seen order seen ts = Some us \<and>
        (\<forall>a. ul_states s' a = map_option (udp_packets om (datagrams_from a us)) (udp_states_init order a)))"
  using assms
proof (induction ts arbitrary: s seen)
  case (Cons t ts)
  obtain e s1 where h: "udp_loop_head order t s = (e, s1)" by fastforce
  note at = udp_loop_head_at [OF Cons.prems h]
  have st: "\<forall>a. ul_states s1 a = map_option (udp_packets om (datagrams_from a seen)) (udp_states_init order a)"
    using Cons.prems at(2) by (simp add: loop_at_def)
  show ?case
  proof (cases "receiver_ends order seen t")
    case True
    then have "udp_loop order om (t # ts) s = Some s1"
      using h at(1) by (cases e) (auto simp: receiver_ends_def split: sum.splits)
    with True st show ?thesis by (simp del: udp_loop.simps)
  next
    case False
    then have e: "e = False" using at(1) by (simp add: receiver_ends_def)
    have turns: "turns_seen order seen (t # ts) = turns_seen order (seen @ [t]) ts" using False by simp
    show ?thesis
    proof (cases "ut_recv t")
      case (Inr p)
      show ?thesis unfolding turns
        using Cons.IH [OF loop_at_datagram [OF Cons.prems h Inr]] h e Inr by simp
    next
      case (Inl k)
      with False have "k = WouldBlock \<or> k = TimedOut" "\<not> ut_stop_after t" by (auto simp: receiver_ends_def)
      then show ?thesis unfolding turns
        using Cons.IH [OF loop_at_timeout [OF Cons.prems h Inl]] h e Inl by simp
    qed
  qed
qed simp

lemma take_receipts_distinct:
  "distinct as \<Longrightarrow> take_receipts as states =
     map (\<lambda>a. case states a of None \<Rightarrow> stream_receipt_empty | Some st \<Rightarrow> ss_receipt st) as"
proof (induction as arbitrary: states)
  case (Cons a as)
  then have "take_receipts as (states(a := None)) =
      map (\<lambda>x. case (states(a := None)) x of None \<Rightarrow> stream_receipt_empty | Some st \<Rightarrow> ss_receipt st) as"
    by simp
  with Cons.prems show ?case by (auto simp: fun_upd_def)
qed simp

lemma length_take_receipts [simp]: "length (take_receipts as states) = length as"
  by (induction as arbitrary: states) auto

text \<open>Once the deadline is set, a turn that sees the flag behind it ends the loop.\<close>

lemma udp_loop_deadline:
  assumes "ul_deadline s = Some dl" and "ut_stop t2" and "dl \<le> ut_clock_check t2"
  shows "\<exists>s'. udp_loop order om (mid @ t2 # post) s = Some s'"
  using assms(1)
proof (induction mid arbitrary: s)
  case Nil
  with assms(2,3) show ?case by (simp add: udp_loop_head_def Let_def)
next
  case (Cons t mid)
  obtain e s1 where h: "udp_loop_head order t s = (e, s1)" by fastforce
  have dl: "ul_deadline s1 = Some dl"
    using udp_loop_head_deadline [of order t s] h Cons.prems by (simp split: if_splits)
  show ?case
    using h Cons.IH [of s1] Cons.IH [of "s1\<lparr>ul_states := _\<rparr>"] dl
    by (auto split: bool.splits sum.splits)
qed

lemma udp_loop_ends:
  assumes "\<forall>t\<in>set pre. \<not> ut_stop t" and "ul_deadline s = None" and "ut_stop t1" and "ut_stop t2"
    and "ut_clock_deadline t1 + from_millis 500 \<le> ut_clock_check t2"
  shows "\<exists>s'. udp_loop order om (pre @ t1 # mid @ t2 # post) s = Some s'"
  using assms(1,2)
proof (induction pre arbitrary: s)
  case Nil
  obtain e s1 where h: "udp_loop_head order t1 s = (e, s1)" by fastforce
  have dl: "ul_deadline s1 = Some (ut_clock_deadline t1 + from_millis 500)"
    using udp_loop_head_deadline [of order t1 s] h assms(3) Nil by simp
  have "\<exists>s'. udp_loop order om (mid @ t2 # post) q = Some s'" if "ul_deadline q = ul_deadline s1" for q
    using that dl assms(4,5) by (intro udp_loop_deadline) auto
  then show ?case using h by (auto split: bool.splits sum.splits)
next
  case (Cons t pre)
  then have h: "udp_loop_head order t s = (False, s)" by (simp add: udp_loop_head_def)
  have "\<exists>s'. udp_loop order om (pre @ t1 # mid @ t2 # post) q = Some s'" if "ul_deadline q = None" for q
    using Cons that by simp
  with h Cons.prems(2) show ?case by (auto split: sum.splits)
qed

section \<open>Properties\<close>

text \<open>
  The datagram header survives the wire: what one side encodes into the first 16 bytes of its
  packet buffer the other side decodes, whatever the payload, and both refuse a short buffer.
\<close>

lemma udp_header_roundtrip:
  "(if 16 \<le> length out
    then \<exists>pkt. udp_encode h out = Inr pkt \<and> length pkt = length out \<and> drop 16 pkt = drop 16 out \<and>
           udp_decode pkt = Inr h \<and> udp_decode (take UDP_HEADER_LEN pkt) = Inr h
    else udp_encode h out = Inl InvalidInput \<and> udp_decode out = Inl InvalidData)"
proof (cases "16 \<le> length out")
  case True
  have "udp_decode (u32_to_be_bytes (uh_tv_sec h) @ u32_to_be_bytes (uh_tv_usec h) @
      u64_to_be_bytes (uh_seq h)) = Inr h"
    using udp_decode_encode [of "uh_tv_sec h" "uh_tv_usec h" "uh_seq h" "[]"] by simp
  with True show ?thesis by (simp add: udp_encode_def udp_decode_encode UDP_HEADER_LEN_def)
qed (simp add: udp_encode_def udp_decode_def UDP_HEADER_LEN_def)

text \<open>
  (C36) Which streams a UDP test gets, whatever the socket receives. Of the datagrams that arrive before
  a receive fails, the senders that presented the session's cookie or the constant iperf3 init are
  registered, each once, in the order of their first such datagram: the call returns the requested number of
  them when there are that many, and the error of the failed receive otherwise. It sends nothing but
  acknowledgments, at most one to each of these addresses and, when no send fails, exactly one.
\<close>

theorem accept_udp_streams_safe:
  assumes "accept_udp_streams cookie n s = (res, s')" and "xs = init_order cookie (us_rx s)"
  shows "res = (if unat n \<le> length xs then Inr (take (unat n) xs) else Inl (first_error (us_rx s))) \<and>
    distinct xs \<and>
    set xs = {a. \<exists>d. (d, a) \<in> set (arrived (us_rx s)) \<and> (take 65536 d = cookie \<or> take 65536 d = UDP_STREAM_INIT)} \<and>
    (\<exists>out. us_out s' = us_out s @ out \<and> distinct (map snd out) \<and>
      (\<forall>(d, a)\<in>set out. d = UDP_STREAM_ACK \<and> a \<in> set (take (unat n) xs)) \<and>
      (us_tx s = [] \<longrightarrow> out = map (\<lambda>a. (UDP_STREAM_ACK, a)) (take (unat n) xs)))"
proof (intro conjI)
  have run: "accept_udp_loop cookie (unat n) [] (set []) s = (res, s')"
    using assms(1) by (simp add: accept_udp_streams_def)
  have r: "registered cookie [] (us_rx s) = xs" by (simp add: registered_def assms(2))
  from accept_udp_loop_result [OF refl, of "[]" "unat n" cookie s] run
  show "res = (if unat n \<le> length xs then Inr (take (unat n) xs) else Inl (first_error (us_rx s)))"
    by (simp add: r)
  show "distinct xs" by (simp add: assms(2) init_order_def)
  show "set xs = {a. \<exists>d. (d, a) \<in> set (arrived (us_rx s)) \<and> (take 65536 d = cookie \<or> take 65536 d = UDP_STREAM_INIT)}"
    by (force simp: assms(2) init_order_def is_valid_init_def)
  have "sends_ack [] []" by (simp add: sends_ack_def)
  with accept_udp_loop_acks [OF refl, of "[]" "unat n" s "us_out s" "[]" cookie] run
  obtain out where "us_out s' = us_out s @ out" "sends_ack (take (unat n) xs) out"
    "us_tx s = [] \<longrightarrow> out = acks (take (unat n) xs)"
    by (auto simp: r acks_def)
  then show "\<exists>out. us_out s' = us_out s @ out \<and> distinct (map snd out) \<and>
      (\<forall>(d, a)\<in>set out. d = UDP_STREAM_ACK \<and> a \<in> set (take (unat n) xs)) \<and>
      (us_tx s = [] \<longrightarrow> out = map (\<lambda>a. (UDP_STREAM_ACK, a)) (take (unat n) xs))"
    by (intro exI [of _ out]) (force simp: sends_ack_def acks_def)
qed

text \<open>A stranger, a sender that repeats itself, and a second one just before the socket fails.\<close>

definition sample_registration :: udp_sock where
  "sample_registration = \<lparr>us_rx = [Inr ([2], (7, 9)), Inr ([1], (8, 9)), Inr ([1], (8, 9)),
     Inr (UDP_STREAM_INIT, (6, 6)), Inl TimedOut], us_tx = [], us_out = [], us_read_timeout = None\<rparr>"

theorem accept_udp_streams_safe_witness:
  "fst (accept_udp_streams [1] 2 sample_registration) = Inr [(8, 9), (6, 6)] \<and>
   fst (accept_udp_streams [1] 3 sample_registration) = Inl TimedOut \<and>
   us_out (snd (accept_udp_streams [1] 3 sample_registration)) = [([54, 55, 56, 57], (8, 9)), ([54, 55, 56, 57], (6, 6))]"
proof -
  have i: "init_order [1] (us_rx sample_registration) = [(8, 9), (6, 6)]"
    by (simp add: sample_registration_def is_valid_init_def UDP_STREAM_INIT_def)
  show ?thesis
    using accept_udp_streams_safe [OF prod.collapse [symmetric] refl, of "[1]" 2 sample_registration]
      accept_udp_streams_safe [OF prod.collapse [symmetric] refl, of "[1]" 3 sample_registration]
    unfolding i by (auto simp: sample_registration_def UDP_STREAM_ACK_def)
qed

text \<open>
  (C18) Loss accounting is exact: for any sequence of fewer than \<open>2 ^ 64\<close> datagrams from one sender, in
  any order and with any sequence numbers, the receiver counts every data packet once with all its bytes,
  as out of order exactly those that come behind a packet with the same or a higher number, keeps the
  highest number, and reports as lost the numbers up to the highest less the packets that came in
  order. The counters of packets, out-of-order packets and losses neither saturate nor wrap.
\<close>

theorem udp_loss_accounting:
  assumes "length ps < 2 ^ 64" and "js = seqs ps"
    and "st = fold (\<lambda>(d, t). udp_packet omit t d) ps stream_state_new"
  shows "unat (rc_packets (ss_receipt st)) = length js \<and>
    rc_bytes (ss_receipt st) = of_nat (sum_list (map length (filter is_data (map fst ps)))) \<and>
    unat (rc_ooo (ss_receipt st)) = card {i. i < length js \<and> (\<exists>k<i. js ! i \<le> js ! k)} \<and>
    sint (ss_max_seq st) = (if js = [] then - 1 else int (Max (set js))) \<and>
    unat (rc_lost (ss_receipt st)) + length js =
      unat (rc_ooo (ss_receipt st)) + (if js = [] then 0 else Max (set js) + 1)"
proof -
  have l: "length (filter is_data (map fst ps)) = length js" by (simp add: assms(2) seqs_def)
  then have k: "length js < 2 ^ 64"
    using assms(1) length_filter_le [of is_data "map fst ps"] by (simp only: length_map)
  from udp_packets_count [OF udp_count_new, of ps omit] k l
  have c: "udp_count (length js) (sum_list (map length (filter is_data (map fst ps)))) st"
    by (simp add: assms(3))
  have n: "sint (ss_max_seq stream_state_new) = - 1" "unat (rc_ooo (ss_receipt stream_state_new)) = 0"
    by (simp_all add: stream_state_new_def stream_receipt_empty_def)
  then have "unat (rc_ooo (ss_receipt stream_state_new)) + length ps < 2 ^ 64" using assms(1) by simp
  note t = udp_packets_track [OF this, of omit, unfolded n, folded assms(2) assms(3)]
  have m: "sint (ss_max_seq st) = (if js = [] then - 1 else int (Max (set js)))"
    using t(1) highest_Max [of js "- 1"] by (cases "js = []") simp_all
  have o: "unat (rc_ooo (ss_receipt st)) = card {i. i < length js \<and> (\<exists>k<i. js ! i \<le> js ! k)}"
    using t(2) late_card [of "- 1" js] by simp
  from c k have "unat (rc_packets (ss_receipt st)) = length js" by (simp add: udp_count_def unat_of_nat)
  with c m o show ?thesis by (auto simp: udp_count_def seq_inv_def nat_add_distrib)
qed

text \<open>The header of packet \<open>q\<close>, with a zero time stamp.\<close>

abbreviation sample_dgram :: "8 word \<Rightarrow> bytes" where
  "sample_dgram q \<equiv> [0, 0, 0, 0, 0, 0, 0, 0, 0, 0, 0, 0, 0, 0, 0, q]"

theorem udp_loss_accounting_witness:
  "unat (rc_packets (ss_receipt (fold (\<lambda>(d, t). udp_packet 0 t d) [(sample_dgram 3, 5), (sample_dgram 1, 6)] stream_state_new))) = 2 \<and>
   sint (ss_max_seq (fold (\<lambda>(d, t). udp_packet 0 t d) [(sample_dgram 3, 5), (sample_dgram 1, 6)] stream_state_new)) = 3"
proof -
  let ?ps = "[(sample_dgram 3, 5), (sample_dgram 1, 6)]"
  have "seqs ?ps = [3, 1]"
    by (simp add: seqs_def dgram_seq_def is_data_def is_sentinel_def udp_decode_def UDP_HEADER_LEN_def from_be_bytes_def be_nat_def)
  with udp_loss_accounting [OF _ refl refl, of ?ps 0] show ?thesis by simp
qed

text \<open>
  (C21) What the receiver returns, exactly. It comes back at the first turn that ends it and at no other,
  and each receipt, in the order of the registered addresses, is the one computed from all the datagrams
  of that address before this turn and from nothing else: streams do not mix, and datagrams of unknown
  senders and datagrams shorter than a header leave no trace.
\<close>

theorem udp_receiver_demux:
  assumes "distinct order"
  shows "run_udp_receiver order omit ts =
    map_option (\<lambda>seen. map (\<lambda>a. ss_receipt
        (fold (\<lambda>(d, t). udp_packet omit t d) (datagrams_from a seen) stream_state_new)) order)
      (turns_seen order [] ts)"
proof -
  let ?s = "\<lparr>ul_states = udp_states_init order, ul_deadline = None, ul_short_timeout_set = False,
       ul_read_timeout = Some (from_millis 100)\<rparr>"
  have "loop_at order omit [] ?s" by (simp add: loop_at_def option.map_id option.map_ident)
  from udp_loop_seen [OF this, of ts] show ?thesis
    by (cases "udp_loop order omit ts ?s")
      (auto simp: run_udp_receiver_def take_receipts_distinct [OF assms] udp_states_init_def)
qed

text \<open>Packet 3 of one stream, a datagram of a stranger, and the deadline.\<close>

definition sample_receive :: "udp_turn list" where
  "sample_receive =
     [\<lparr>ut_stop = False, ut_clock_deadline = 0, ut_clock_check = 0, ut_recv = Inr (sample_dgram 3, (1, 2)),
       ut_clock_recv = 5, ut_stop_after = False\<rparr>,
      \<lparr>ut_stop = True, ut_clock_deadline = 6, ut_clock_check = 7, ut_recv = Inr (sample_dgram 9, (8, 8)),
       ut_clock_recv = 7, ut_stop_after = True\<rparr>,
      \<lparr>ut_stop = True, ut_clock_deadline = 8, ut_clock_check = from_millis 501, ut_recv = Inr (sample_dgram 4, (1, 2)),
       ut_clock_recv = 9, ut_stop_after = True\<rparr>]"

lemma sample_dgram_decode:
  "udp_decode (take UDP_HEADER_LEN (sample_dgram 3)) = Inr \<lparr>uh_tv_sec = 0, uh_tv_usec = 0, uh_seq = 3\<rparr>"
  by (simp add: udp_decode_def UDP_HEADER_LEN_def from_be_bytes_def be_nat_def)

lemma sample_receive_seen: "turns_seen [(1, 2)] [] sample_receive = Some (take 2 sample_receive)"
proof -
  have "\<not> ends_stream (sample_dgram 3)" by (simp add: ends_stream_def sample_dgram_decode is_sentinel_def)
  then show ?thesis
    by (simp add: sample_receive_def receiver_ends_def receiver_stops_def UDP_HEADER_LEN_def from_millis_def)
qed

lemma sample_receive_from: "datagrams_from (1, 2) (take 2 sample_receive) = [(sample_dgram 3, 5)]"
  by (simp add: sample_receive_def UDP_HEADER_LEN_def)

theorem udp_receiver_demux_witness:
  "\<exists>r. run_udp_receiver [(1, 2)] 0 sample_receive = Some [r] \<and> rc_packets r = 1 \<and> rc_lost r = 3"
proof -
  from udp_receiver_demux [of "[(1, 2)]" 0 sample_receive]
  have "run_udp_receiver [(1, 2)] 0 sample_receive =
      Some [ss_receipt (udp_packet 0 5 (sample_dgram 3) stream_state_new)]"
    by (simp add: sample_receive_seen sample_receive_from del: One_nat_def)
  then show ?thesis
    by (simp add: udp_packet_def sample_dgram_decode is_sentinel_def stream_state_new_def Let_def)
      (simp add: seq_tick_def transit_tick_def stream_receipt_empty_def saturating_add_def Let_def)
qed

text \<open>
  (C22) The receiver always comes back: once the stop flag is up, the first turn at least 500 ms later
  ends the loop, even when every sentinel was lost and packets keep arriving, and there is one
  receipt per registered stream.
\<close>

theorem udp_receiver_terminates:
  assumes "\<forall>t\<in>set pre. \<not> ut_stop t" and "ut_stop t1" and "ut_stop t2"
    and "ut_clock_deadline t1 + from_millis 500 \<le> ut_clock_check t2"
  shows "\<exists>rs. run_udp_receiver order omit (pre @ t1 # mid @ t2 # post) = Some rs \<and>
    length rs = length order"
proof -
  obtain s' where "udp_loop order omit (pre @ t1 # mid @ t2 # post)
      \<lparr>ul_states = udp_states_init order, ul_deadline = None, ul_short_timeout_set = False,
       ul_read_timeout = Some (from_millis 100)\<rparr> = Some s'"
    using udp_loop_ends [OF assms(1) _ assms(2-4)] by fastforce
  then show ?thesis by (simp add: run_udp_receiver_def)
qed

theorem udp_receiver_terminates_witness:
  "\<exists>rs. run_udp_receiver [(1, 2)] 0
     ([] @ \<lparr>ut_stop = True, ut_clock_deadline = 3, ut_clock_check = 4, ut_recv = Inr ([], (1, 2)),
            ut_clock_recv = 5, ut_stop_after = True\<rparr> # [] @
      \<lparr>ut_stop = True, ut_clock_deadline = 9, ut_clock_check = from_millis 501, ut_recv = Inr ([], (1, 2)),
       ut_clock_recv = 5, ut_stop_after = True\<rparr> # []) = Some rs \<and> length rs = length [(1::nat, 2::u16)]"
  by (rule udp_receiver_terminates) (simp_all add: from_millis_def)

end
