(* ===== verification/Wire.thy ===== *)
theory Wire
  imports Messages Rust_Strings
begin

text \<open>
  \<^verbatim>\<open>src/common/wire.rs\<close>: the control-channel payloads and their framing. The framing
  functions take the socket's operations as arguments, as the code takes a \<open>dyn Socket\<close>.
  The JSON text layer (\<open>serde_json\<close>) is third-party: \<open>enc\<close> and \<open>dec\<close> stand for
  \<open>to_vec\<close> and \<open>from_slice\<close>. What the \<open>serde\<close> attributes of the two payload structs say
  about their fields is modelled on lists of key/value pairs.
\<close>

section \<open>Payload types\<close>

definition CLIENT_VERSION :: rstr where
  "CLIENT_VERSION = lit ''3.1.3''"

definition DEFAULT_TCP_LEN :: nat where
  "DEFAULT_TCP_LEN = 131072"

definition MAX_JSON_FRAME_LEN :: nat where
  "MAX_JSON_FRAME_LEN = 16 * 1024 * 1024"

record client_options =
  co_tcp :: bool
  co_omit :: u32
  co_time :: u32
  co_parallel :: u32
  co_len :: u32
  co_client_version :: rstr
  co_udp :: bool
  co_bandwidth :: u64
  co_reverse :: bool
  co_bidirectional :: bool
  co_window_size :: "u32 option"
  co_mss :: "u32 option"
  co_congestion :: "rstr option"
  co_tos :: "u8 option"
  co_total_bytes :: "u64 option"
  co_total_blocks :: "u64 option"
  co_authtoken :: "rstr option"

definition is_zero_u64 :: "u64 \<Rightarrow> bool" where
  "is_zero_u64 n \<longleftrightarrow> n = 0"

definition tcp_defaults :: "u32 \<Rightarrow> u32 \<Rightarrow> u32 \<Rightarrow> client_options" where
  "tcp_defaults time_secs parallel len =
     \<lparr>co_tcp = True, co_omit = 0, co_time = time_secs, co_parallel = parallel, co_len = len,
      co_client_version = CLIENT_VERSION, co_udp = False, co_bandwidth = 0, co_reverse = False,
      co_bidirectional = False, co_window_size = None, co_mss = None, co_congestion = None,
      co_tos = None, co_total_bytes = None, co_total_blocks = None, co_authtoken = None\<rparr>"

record stream_results =
  sr_id :: u32
  sr_bytes :: u64
  sr_retransmits :: i64
  sr_jitter :: f64
  sr_errors :: u64
  sr_packets :: u64

record results =
  re_cpu_util_total :: f64
  re_cpu_util_user :: f64
  re_cpu_util_system :: f64
  re_sender_has_retransmits :: "32 word"
  re_streams :: "stream_results list"

definition results_empty :: results where
  "results_empty = \<lparr>re_cpu_util_total = 0, re_cpu_util_user = 0, re_cpu_util_system = 0,
     re_sender_has_retransmits = 0, re_streams = []\<rparr>"

section \<open>Framing\<close>

definition send_control_byte :: "(bytes \<Rightarrow> ('s, nat) io) \<Rightarrow> message \<Rightarrow> ('s, unit) io" where
  "send_control_byte snd' msg = write_all snd' [message_code msg]"

definition recv_control_byte :: "(nat \<Rightarrow> ('s, bytes) io) \<Rightarrow> ('s, message) io" where
  "recv_control_byte rcv =
     io_bind (read_exact rcv 1) (\<lambda>buf.
       case message_try_from (hd buf) of
         None \<Rightarrow> io_fail InvalidData
       | Some m \<Rightarrow> io_return m)"

definition send_u16_be :: "(bytes \<Rightarrow> ('s, nat) io) \<Rightarrow> u16 \<Rightarrow> ('s, unit) io" where
  "send_u16_be snd' v = write_all snd' (u16_to_be_bytes v)"

definition recv_u16_be :: "(nat \<Rightarrow> ('s, bytes) io) \<Rightarrow> ('s, u16) io" where
  "recv_u16_be rcv = io_bind (read_exact rcv 2) (\<lambda>buf. io_return (from_be_bytes buf))"

definition send_framed_json ::
  "('a \<Rightarrow> bytes option) \<Rightarrow> (bytes \<Rightarrow> ('s, nat) io) \<Rightarrow> 'a \<Rightarrow> ('s, unit) io" where
  "send_framed_json enc snd' v =
     (case enc v of
        None \<Rightarrow> io_fail InvalidData
      | Some body \<Rightarrow>
          if 2 ^ 32 \<le> length body then io_fail InvalidInput
          else io_then (write_all snd' (u32_to_be_bytes (of_nat (length body))))
                 (write_all snd' body))"

definition recv_framed_json ::
  "(bytes \<Rightarrow> 'a option) \<Rightarrow> (nat \<Rightarrow> ('s, bytes) io) \<Rightarrow> ('s, 'a) io" where
  "recv_framed_json dec' rcv =
     io_bind (read_exact rcv 4) (\<lambda>len_buf.
       let len = unat (from_be_bytes len_buf :: u32)
       in if MAX_JSON_FRAME_LEN < len then io_fail InvalidData
          else io_bind (read_exact rcv len) (\<lambda>body.
            case dec' body of None \<Rightarrow> io_fail InvalidData | Some v \<Rightarrow> io_return v))"

text \<open>The bytes of one frame on the wire.\<close>

definition frame :: "bytes \<Rightarrow> bytes" where
  "frame body = u32_to_be_bytes (of_nat (length body)) @ body"

context byte_sink
begin

lemma send_framed_ok:
  assumes "enc v = Some body" and "length body < 2 ^ 32" and "writable s"
  shows "\<exists>s'. send_framed_json enc snd' v s = (Inr (), s') \<and> sent s' = sent s @ frame body \<and> writable s'"
proof -
  obtain s1 where s1: "write_all snd' (u32_to_be_bytes (of_nat (length body))) s = (Inr (), s1)"
    "sent s1 = sent s @ u32_to_be_bytes (of_nat (length body))" "writable s1"
    using write_all_ok [OF assms(3)] by blast
  obtain s2 where "write_all snd' body s1 = (Inr (), s2)" "sent s2 = sent s1 @ body" "writable s2"
    using write_all_ok [OF s1(3)] by blast
  with s1 assms(1,2) show ?thesis by (simp add: send_framed_json_def frame_def io_then_Inr)
qed

end

context byte_source
begin

lemma recv_framed_ok:
  assumes "dec' body = Some v" and "length body \<le> MAX_JSON_FRAME_LEN"
    and "live s" and "pending s = frame body @ rest"
  shows "\<exists>s'. recv_framed_json dec' rcv s = (Inr v, s') \<and> pending s' = rest \<and> live s' \<and>
    closed s' = closed s"
proof -
  have len: "unat (of_nat (length body) :: u32) = length body"
    using assms(2) by (simp add: unat_of_nat MAX_JSON_FRAME_LEN_def)
  obtain s1 where s1: "read_exact rcv 4 s = (Inr (u32_to_be_bytes (of_nat (length body))), s1)"
    "pending s1 = body @ rest" "live s1" "closed s1 = closed s"
    using read_exact_ok [OF assms(3), of 4] assms(4) by (auto simp: frame_def length_to_be_bytes)
  obtain s2 where "read_exact rcv (length body) s1 = (Inr body, s2)" "pending s2 = rest" "live s2"
    "closed s2 = closed s1"
    using read_exact_ok [OF s1(3), of "length body"] s1(2) by auto
  with s1 assms(1,2) len show ?thesis by (simp add: recv_framed_json_def io_bind_def Let_def)
qed

lemma recv_framed_oversized:
  assumes "live s" and "pending s = u32_to_be_bytes n @ rest" and "MAX_JSON_FRAME_LEN < unat n"
  shows "\<exists>s'. recv_framed_json dec' rcv s = (Inl InvalidData, s') \<and> pending s' = rest"
proof -
  from read_exact_ok [OF assms(1), of 4] assms(2) obtain s' where
    "read_exact rcv 4 s = (Inr (u32_to_be_bytes n), s')" "pending s' = rest"
    by (auto simp: length_to_be_bytes)
  with assms(3) show ?thesis by (simp add: recv_framed_json_def io_bind_def Let_def)
qed

lemma recv_framed_truncated:
  assumes "live s" and "closed s"
    and "pending s = take k (frame body)" and "k < length (frame body)"
    and "length body \<le> MAX_JSON_FRAME_LEN"
  shows "fst (recv_framed_json dec' rcv s) = Inl UnexpectedEof"
proof (cases "k < 4")
  case True
  with assms(3,4) have "length (pending s) < 4" by simp
  from read_exact_short [OF assms(1,2) this] obtain s' where
    "read_exact rcv 4 s = (Inl UnexpectedEof, s')" by (metis prod.collapse)
  then show ?thesis by (simp add: recv_framed_json_def io_bind_def)
next
  case False
  have len: "unat (of_nat (length body) :: u32) = length body"
    using assms(5) by (simp add: unat_of_nat MAX_JSON_FRAME_LEN_def)
  from False assms(3) have p: "pending s = u32_to_be_bytes (of_nat (length body)) @ take (k - 4) body"
    by (simp add: frame_def length_to_be_bytes)
  with read_exact_ok [OF assms(1), of 4] obtain s1 where
    s1: "read_exact rcv 4 s = (Inr (u32_to_be_bytes (of_nat (length body))), s1)"
        "pending s1 = take (k - 4) body" "live s1" "closed s1 = closed s"
    by (auto simp: length_to_be_bytes)
  from False assms(4) have "length (pending s1) < length body"
    by (simp add: s1(2) frame_def length_to_be_bytes)
  with read_exact_short [OF s1(3)] s1(4) assms(2) obtain s2 where
    "read_exact rcv (length body) s1 = (Inl UnexpectedEof, s2)" by (metis prod.collapse)
  with assms(5) len s1(1) show ?thesis by (simp add: recv_framed_json_def io_bind_def Let_def)
qed

end

context byte_channel
begin

lemma send_control_byte_triple:
  "io_ok (chan inp out) (send_control_byte snd' m) (\<lambda>_. chan inp (out @ [message_code m]))"
  unfolding send_control_byte_def by (rule write_all_triple)

lemma recv_control_byte_triple:
  "io_ok (chan (message_code m # inp) out) (recv_control_byte rcv) (\<lambda>x s. x = m \<and> chan inp out s)"
proof -
  have "io_ok (chan ([message_code m] @ inp) out) (recv_control_byte rcv)
          (\<lambda>x s. x = m \<and> chan inp out s)"
    unfolding recv_control_byte_def
  proof (rule io_ok_bind [OF read_exact_triple])
    fix x
    show "io_ok (\<lambda>s. x = [message_code m] \<and> chan inp out s)
        (case message_try_from (hd x) of None \<Rightarrow> io_fail InvalidData | Some m \<Rightarrow> io_return m)
        (\<lambda>x s. x = m \<and> chan inp out s)"
      by (cases "x = [message_code m]") (simp_all add: io_ok_def)
  qed simp
  then show ?thesis by simp
qed

lemma send_u16_triple:
  "io_ok (chan inp out) (send_u16_be snd' v) (\<lambda>_. chan inp (out @ u16_to_be_bytes v))"
  unfolding send_u16_be_def by (rule write_all_triple)

lemma recv_u16_triple:
  "io_ok (chan (u16_to_be_bytes v @ inp) out) (recv_u16_be rcv) (\<lambda>x s. x = v \<and> chan inp out s)"
  unfolding recv_u16_be_def
proof (rule io_ok_bind [OF read_exact_triple])
  fix x
  show "io_ok (\<lambda>s. x = u16_to_be_bytes v \<and> chan inp out s) (io_return (from_be_bytes x))
      (\<lambda>x s. x = v \<and> chan inp out s)"
    by (rule io_ok_return) simp
qed (simp add: length_to_be_bytes)

lemma recv_cookie_triple:
  "length c = COOKIE_LEN \<Longrightarrow>
   io_ok (chan (c @ inp) out) (recv_cookie rcv) (\<lambda>x s. x = c \<and> chan inp out s)"
  unfolding recv_cookie_def by (rule read_exact_triple)

lemma send_framed_triple:
  assumes "enc v = Some body" and "length body < 2 ^ 32"
  shows "io_ok (chan inp out) (send_framed_json enc snd' v) (\<lambda>_. chan inp (out @ frame body))"
proof -
  have "io_ok (chan inp out)
      (io_then (write_all snd' (u32_to_be_bytes (of_nat (length body)))) (write_all snd' body))
      (\<lambda>_. chan inp ((out @ u32_to_be_bytes (of_nat (length body))) @ body))"
    by (rule io_ok_then [OF write_all_triple write_all_triple])
  with assms show ?thesis by (simp add: send_framed_json_def frame_def)
qed

lemma recv_framed_frame:
  assumes "recv_framed_json dec' rcv s = (r, s')"
  shows "sent s' = sent s \<and> writable s' = writable s"
proof -
  obtain q s1 where q: "read_exact rcv 4 s = (q, s1)" by fastforce
  note f = read_exact_frame [OF q]
  consider "s' = s1" | n b where "read_exact rcv n s1 = (b, s')"
    using assms q
    by (cases q)
      (auto simp: recv_framed_json_def Let_def io_bind_def split: if_splits prod.splits sum.splits option.splits)
  then show ?thesis
  proof cases
    case 2
    from read_exact_frame [OF 2] f show ?thesis by simp
  qed (use f in simp)
qed

lemma recv_framed_triple:
  assumes "dec' body = Some v" and "length body \<le> MAX_JSON_FRAME_LEN"
  shows "io_ok (chan (frame body @ inp) out) (recv_framed_json dec' rcv) (\<lambda>x s. x = v \<and> chan inp out s)"
proof (rule io_okI)
  fix s assume s: "chan (frame body @ inp) out s"
  then have "live s" "pending s = frame body @ inp" by (simp_all add: chan_def)
  from recv_framed_ok [of dec', OF assms this] obtain s' where
    "recv_framed_json dec' rcv s = (Inr v, s')" "pending s' = inp" "live s'" by blast
  with s recv_framed_frame [OF this(1)]
  show "\<exists>x s'. recv_framed_json dec' rcv s = (Inr x, s') \<and> x = v \<and> chan inp out s'"
    by (auto simp: chan_def)
qed

lemma send_framed_too_long:
  "enc v = Some body \<Longrightarrow> 2 ^ 32 \<le> length body \<Longrightarrow>
   send_framed_json enc snd' v s = (Inl InvalidInput, s)"
  by (simp add: send_framed_json_def)

end

text \<open>Whatever a connection does, the kernel has taken an initial part of the buffer.\<close>

lemma tcp_write_all_part:
  "write_all tcp_send buf s = (r, s') \<Longrightarrow>
   \<exists>p q. buf = p @ q \<and> tcp_out s' = tcp_out s @ p \<and> (\<not> isl r \<longrightarrow> q = [])"
proof (induction buf arbitrary: s rule: length_induct)
  case (1 buf)
  obtain a s1 where a: "tcp_send buf s = (a, s1)" by fastforce
  then have o1: "tcp_out s1 = tcp_out s @ (case a of Inl _ \<Rightarrow> [] | Inr n \<Rightarrow> take n buf)"
    by (auto simp: tcp_send_def split: list.splits tx_event.splits)
  consider "buf = []" | "buf \<noteq> []" "\<forall>n. a = Inr n \<longrightarrow> n = 0" | n where "buf \<noteq> []" "a = Inr n" "n \<noteq> 0" by auto
  then show ?case
  proof cases
    case 1
    with "1.prems" show ?thesis by simp
  next
    case 2
    with "1.prems" a have "s' = s1" "isl r"
      by (auto simp: write_all.simps [of tcp_send buf s] split: sum.splits)
    with 2 o1 show ?thesis by (intro exI [of _ "[]"] exI [of _ buf]) (auto split: sum.splits)
  next
    case 3
    with "1.prems" a have w: "write_all tcp_send (drop n buf) s1 = (r, s')"
      by (simp add: write_all.simps [of tcp_send buf s])
    have "length (drop n buf) < length buf" using 3 by simp
    with "1.IH" w obtain p q where p: "drop n buf = p @ q" "tcp_out s' = tcp_out s1 @ p" "\<not> isl r \<longrightarrow> q = []" by blast
    have "buf = (take n buf @ p) @ q" using p(1) append_take_drop_id [of n buf] by simp
    with p(2,3) o1 3(2) show ?thesis by (intro exI [of _ "take n buf @ p"] exI [of _ q]) simp
  qed
qed

section \<open>Properties\<close>

text \<open>The socket of the witnesses: writes go in pieces of three, two and then all bytes.\<close>

definition sample_tcp :: "rx_event list \<Rightarrow> tcp" where
  "sample_tcp rx = \<lparr>tcp_rx = rx, tcp_tx = [TxAccept 3, TxAccept 2], tcp_out = [],
     tcp_nonblocking = False, tcp_read_timeout = None, tcp_write_timeout = None, tcp_sockopts = []\<rparr>"

text \<open>
  A frame whose announced length exceeds the 16 MiB limit is refused after its four length
  bytes: nothing of the body is read and no buffer for it exists.
\<close>

lemma oversized_frame_refused:
  assumes "rx_ok (tcp_rx s)" and "rx_bytes (tcp_rx s) = u32_to_be_bytes n @ rest"
    and "16 * 1024 * 1024 < unat n"
  shows "\<exists>s'. recv_framed_json dec' tcp_recv s = (Inl InvalidData, s') \<and> rx_bytes (tcp_rx s') = rest"
  using assms tcp.recv_framed_oversized by (simp add: MAX_JSON_FRAME_LEN_def)

text \<open>
  A peer that closes the connection inside a frame, at any byte, makes the reader return
  \<open>UnexpectedEof\<close>; it neither blocks nor returns a partial value.
\<close>

lemma truncated_frame_detected:
  assumes "rx_ok (tcp_rx s)" and "rx_closed (tcp_rx s)"
    and "rx_bytes (tcp_rx s) = take k (frame body)" and "k < length (frame body)"
    and "length body \<le> MAX_JSON_FRAME_LEN"
  shows "fst (recv_framed_json dec' tcp_recv s) = Inl UnexpectedEof"
  using assms by (rule tcp.recv_framed_truncated)

end
