(* ===== verification/Cli_Config.thy ===== *)
theory Cli_Config
  imports Wire
begin

text \<open>
  From the command line to the configuration of a test: \<^verbatim>\<open>src/common/bandwidth.rs\<close>,
  \<^verbatim>\<open>src/common/direction.rs\<close>, \<^verbatim>\<open>src/common/transport_kind.rs\<close>, \<open>Config\<close> of
  \<^verbatim>\<open>src/common/test.rs\<close> and \<^verbatim>\<open>src/cli.rs\<close>. Splitting the command line into a
  \<open>Cli\<close> value is the business of the \<open>clap\<close> crate. The text of an error is only printed, so
  a failing conversion is \<open>None\<close>.
\<close>

section \<open>Parsing sizes, rates and the type of service\<close>

text \<open>The suffix table, with \<open>k\<close> the multiplier of a kilo.\<close>

definition split_suffix :: "u64 \<Rightarrow> rstr \<Rightarrow> rstr \<times> u64" where
  "split_suffix k s =
     (let c = last s
      in if c = 107 \<or> c = 75 then (butlast s, k)
         else if c = 109 \<or> c = 77 then (butlast s, k * k)
         else if c = 103 \<or> c = 71 then (butlast s, k * k * k)
         else (s, 1))"

definition parse_size :: "rstr \<Rightarrow> u64 option" where
  "parse_size s =
     (if s = [] then Some 0
      else case split_suffix 1024 s of (num_part, mult) \<Rightarrow>
        (case parse_u64 num_part of None \<Rightarrow> None | Some n \<Rightarrow> checked_mul n mult))"

definition bandwidth_parse :: "rstr \<Rightarrow> u64 option" where
  "bandwidth_parse s =
     (if s = [] then Some 0
      else case split_suffix 1000 s of (num_part, mult) \<Rightarrow>
        (case parse_u64 num_part of None \<Rightarrow> None | Some n \<Rightarrow> checked_mul n mult))"

definition u32_from_str_radix :: "nat \<Rightarrow> rstr \<Rightarrow> u32 option" where
  "u32_from_str_radix radix s = map_option of_nat (from_str_radix radix (2 ^ 32 - 1) s)"

definition parse_tos :: "rstr \<Rightarrow> u8 option" where
  "parse_tos s =
     (let val =
        (case (case strip_prefix (lit ''0x'') s of
                 Some h \<Rightarrow> Some h | None \<Rightarrow> strip_prefix (lit ''0X'') s) of
           Some hex \<Rightarrow> u32_from_str_radix 16 hex
         | None \<Rightarrow>
             if starts_with (lit ''0'') s \<and> 1 < str_len s then u32_from_str_radix 8 (tl s)
             else parse_u32 s)
      in case val of None \<Rightarrow> None | Some v \<Rightarrow> if 255 < v then None else Some (ucast v))"

section \<open>Direction and transport\<close>

datatype direction = Forward | Reverse | Bidirectional
datatype transport_kind = Tcp | Udp

definition is_reverse :: "direction \<Rightarrow> bool" where
  "is_reverse d \<longleftrightarrow> d = Reverse"

definition is_bidirectional :: "direction \<Rightarrow> bool" where
  "is_bidirectional d \<longleftrightarrow> d = Bidirectional"

definition client_sends :: "direction \<Rightarrow> bool" where
  "client_sends d \<longleftrightarrow> d = Forward \<or> d = Bidirectional"

definition client_receives :: "direction \<Rightarrow> bool" where
  "client_receives d \<longleftrightarrow> d = Reverse \<or> d = Bidirectional"

definition server_sends :: "direction \<Rightarrow> bool" where
  "server_sends d \<longleftrightarrow> d = Reverse \<or> d = Bidirectional"

definition server_receives :: "direction \<Rightarrow> bool" where
  "server_receives d \<longleftrightarrow> d = Forward \<or> d = Bidirectional"

definition is_udp :: "transport_kind \<Rightarrow> bool" where
  "is_udp t \<longleftrightarrow> t = Udp"

lemmas direction_defs = is_reverse_def is_bidirectional_def client_sends_def client_receives_def
  server_sends_def server_receives_def

section \<open>Config\<close>

record config =
  cf_host :: rstr
  cf_port :: u16
  cf_time :: u32
  cf_parallel :: u32
  cf_len :: u32
  cf_omit :: u32
  cf_transport :: transport_kind
  cf_bandwidth :: u64
  cf_one_off :: bool
  cf_max_concurrent :: u32
  cf_direction :: direction
  cf_json :: bool
  cf_format_unit :: "nat option"
  cf_logfile :: "rstr option"
  cf_window_size :: "u32 option"
  cf_mss :: "u32 option"
  cf_congestion :: "rstr option"
  cf_tos :: "u8 option"
  cf_zero_copy :: bool
  cf_total_bytes :: "u64 option"
  cf_total_blocks :: "u64 option"
  cf_title :: "rstr option"
  cf_affinity :: "rstr option"
  cf_username :: "rstr option"
  cf_password :: "rstr option"
  cf_rsa_public_key :: "rstr option"
  cf_rsa_private_key :: "rstr option"
  cf_authorized_users :: "rstr option"
  cf_require_auth :: bool

definition with_host :: "rstr \<Rightarrow> config" where
  "with_host host = \<lparr>cf_host = host, cf_port = 5201, cf_time = 10, cf_parallel = 1,
     cf_len = of_nat DEFAULT_TCP_LEN, cf_omit = 0, cf_transport = Tcp, cf_bandwidth = 0,
     cf_one_off = False, cf_max_concurrent = 1, cf_direction = Forward, cf_json = False,
     cf_format_unit = None, cf_logfile = None, cf_window_size = None, cf_mss = None,
     cf_congestion = None, cf_tos = None, cf_zero_copy = False, cf_total_bytes = None,
     cf_total_blocks = None, cf_title = None, cf_affinity = None, cf_username = None,
     cf_password = None, cf_rsa_public_key = None, cf_rsa_private_key = None,
     cf_authorized_users = None, cf_require_auth = False\<rparr>"

definition host_port :: "config \<Rightarrow> rstr" where
  "host_port c = cf_host c @ lit '':'' @ show_word (cf_port c)"

section \<open>Command line\<close>

definition DEFAULT_PORT :: u16 where "DEFAULT_PORT = 5201"
definition DEFAULT_TIME_SECS :: u32 where "DEFAULT_TIME_SECS = 10"
definition DEFAULT_PARALLEL :: u32 where "DEFAULT_PARALLEL = 1"
definition DEFAULT_BIND :: rstr where "DEFAULT_BIND = lit ''127.0.0.1''"
definition DEFAULT_OMIT_SECS :: u32 where "DEFAULT_OMIT_SECS = 0"
definition DEFAULT_UDP_LEN :: u32 where "DEFAULT_UDP_LEN = 1460"
definition DEFAULT_UDP_BANDWIDTH_BPS :: u64 where "DEFAULT_UDP_BANDWIDTH_BPS = 1000000"

record cli =
  cl_server :: bool
  cl_host :: "rstr option"
  cl_port :: u16
  cl_time :: u32
  cl_parallel :: u32
  cl_len :: "u32 option"
  cl_omit :: u32
  cl_udp :: bool
  cl_bandwidth :: "rstr option"
  cl_one_off :: bool
  cl_max_concurrent :: u32
  cl_reverse :: bool
  cl_bidir :: bool
  cl_json :: bool
  cl_format :: "nat option"
  cl_logfile :: "rstr option"
  cl_verbose :: bool
  cl_timestamps :: bool
  cl_window :: "rstr option"
  cl_mss :: "u32 option"
  cl_congestion :: "rstr option"
  cl_tos :: "rstr option"
  cl_zerocopy :: bool
  cl_bytes :: "rstr option"
  cl_blockcount :: "u64 option"
  cl_title :: "rstr option"
  cl_affinity :: "rstr option"
  cl_username :: "rstr option"
  cl_password :: "rstr option"
  cl_rsa_public_key :: "rstr option"
  cl_rsa_private_key :: "rstr option"
  cl_authorized_users :: "rstr option"
  cl_require_auth :: bool

datatype mode = Client config | Server config

text \<open>An optional argument with a parser: absent is fine, present has to parse.\<close>

definition parse_opt :: "(rstr \<Rightarrow> 'a option) \<Rightarrow> rstr option \<Rightarrow> 'a option option" where
  "parse_opt p s = (case s of None \<Rightarrow> Some None | Some t \<Rightarrow> map_option Some (p t))"

definition cli_bandwidth :: "cli \<Rightarrow> u64 option" where
  "cli_bandwidth c =
     (case cl_bandwidth c of
        Some s \<Rightarrow> bandwidth_parse s
      | None \<Rightarrow> Some (if cl_udp c then DEFAULT_UDP_BANDWIDTH_BPS else 0))"

definition cli_len :: "cli \<Rightarrow> u32" where
  "cli_len c =
     (case cl_len c of
        Some l \<Rightarrow> l
      | None \<Rightarrow> if cl_udp c then DEFAULT_UDP_LEN else of_nat DEFAULT_TCP_LEN)"

definition cli_direction :: "cli \<Rightarrow> direction" where
  "cli_direction c =
     (if cl_bidir c then Bidirectional else if cl_reverse c then Reverse else Forward)"

definition parse_window :: "rstr \<Rightarrow> u32 option" where
  "parse_window s =
     (case parse_size s of None \<Rightarrow> None | Some v \<Rightarrow> if 2 ^ 32 - 1 < v then None else Some (ucast v))"

definition try_into_mode :: "cli \<Rightarrow> mode option" where
  "try_into_mode c =
     (case cli_bandwidth c of None \<Rightarrow> None | Some bandwidth \<Rightarrow>
      case parse_opt parse_window (cl_window c) of None \<Rightarrow> None | Some window_size \<Rightarrow>
      case parse_opt parse_tos (cl_tos c) of None \<Rightarrow> None | Some tos \<Rightarrow>
      case parse_opt parse_size (cl_bytes c) of None \<Rightarrow> None | Some total_bytes \<Rightarrow>
      let base = \<lparr>cf_host = (case cl_host c of None \<Rightarrow> DEFAULT_BIND | Some h \<Rightarrow> h),
            cf_port = cl_port c, cf_time = cl_time c, cf_parallel = cl_parallel c,
            cf_len = cli_len c, cf_omit = cl_omit c, cf_transport = (if cl_udp c then Udp else Tcp),
            cf_bandwidth = bandwidth, cf_one_off = cl_one_off c,
            cf_max_concurrent = max (cl_max_concurrent c) 1, cf_direction = cli_direction c,
            cf_json = cl_json c, cf_format_unit = cl_format c, cf_logfile = cl_logfile c,
            cf_window_size = window_size, cf_mss = cl_mss c, cf_congestion = cl_congestion c,
            cf_tos = tos, cf_zero_copy = cl_zerocopy c, cf_total_bytes = total_bytes,
            cf_total_blocks = cl_blockcount c, cf_title = cl_title c, cf_affinity = cl_affinity c,
            cf_username = cl_username c, cf_password = cl_password c,
            cf_rsa_public_key = cl_rsa_public_key c, cf_rsa_private_key = cl_rsa_private_key c,
            cf_authorized_users = cl_authorized_users c, cf_require_auth = cl_require_auth c\<rparr>
      in Some (if cl_server c then Server base else Client base))"

section \<open>Parsing decimal numbers\<close>

lemma parse_digits_dec_iff: "parse_digits 10 mx 0 (dec n) = (if n \<le> mx then Some n else None)"
proof (induction n rule: dec.induct)
  case (1 n)
  show ?case
  proof (cases "n < 10")
    case True
    then show ?thesis by (simp add: dec.simps [of n])
  next
    case False
    have e: "n div 10 * 10 + n mod 10 = n" by (rule div_mult_mod_eq)
    have "parse_digits 10 mx 0 (dec n) =
        (case parse_digits 10 mx 0 (dec (n div 10)) of
           None \<Rightarrow> None | Some a \<Rightarrow> parse_digits 10 mx a [48 + n mod 10])"
      using False by (simp add: dec.simps [of n] parse_digits_append del: parse_digits.simps)
    also have "\<dots> = (if n \<le> mx then Some n else None)"
      using "1.IH" [OF False] e div_le_dividend [of n 10] by auto
    finally show ?thesis .
  qed
qed

lemma from_str_radix_dec_iff: "from_str_radix 10 mx (dec n) = (if n \<le> mx then Some n else None)"
proof -
  obtain c t where c: "dec n = c # t" by (cases "dec n") auto
  then have "48 \<le> c" using dec_digits [of c n] by simp
  with c show ?thesis using parse_digits_dec_iff [of mx n] by (simp add: from_str_radix_def)
qed

lemma parse_u64_dec: "parse_u64 (dec n) = (if n < 2 ^ 64 then Some (of_nat n) else None)"
  by (simp add: parse_u64_def from_str_radix_dec_iff)

lemma parse_u32_dec: "parse_u32 (dec n) = (if n < 2 ^ 32 then Some (of_nat n) else None)"
  by (simp add: parse_u32_def from_str_radix_dec_iff)

text \<open>The suffixes and their powers.\<close>

definition suffix_power :: "rstr \<Rightarrow> nat option" where
  "suffix_power t =
     (if t = [] then Some 0
      else if t = lit ''k'' \<or> t = lit ''K'' then Some 1
      else if t = lit ''m'' \<or> t = lit ''M'' then Some 2
      else if t = lit ''g'' \<or> t = lit ''G'' then Some 3
      else None)"

lemma split_suffix_dec:
  assumes "suffix_power t = Some p"
  shows "split_suffix k (dec n @ t) = (dec n, k ^ p)"
proof (cases "t = []")
  case True
  have "last (dec n) \<in> set (dec n)" by simp
  then have "last (dec n) \<le> 57" using dec_digits by blast
  with True assms show ?thesis by (simp add: suffix_power_def split_suffix_def Let_def)
next
  case False
  with assms show ?thesis
    by (auto simp: suffix_power_def split_suffix_def lit_def power2_eq_square power3_eq_cube
        split: if_splits)
qed

lemma scaled_parse:
  assumes "suffix_power t = Some p" and "unat (k ^ p :: u64) = kn ^ p" and "0 < kn"
  shows "(case split_suffix k (dec n @ t) of (num_part, mult) \<Rightarrow>
      (case parse_u64 num_part of None \<Rightarrow> None | Some n \<Rightarrow> checked_mul n mult)) =
    (if n * kn ^ p < 2 ^ 64 then Some (of_nat (n * kn ^ p)) else None)"
proof (cases "n < 2 ^ 64")
  case True
  then have n: "unat (of_nat n :: u64) = n" by (simp add: unat_of_nat)
  have "checked_mul (of_nat n) (k ^ p) =
      (if n * kn ^ p < 2 ^ 64 then Some (of_nat (n * kn ^ p)) else None)"
  proof (cases "n * kn ^ p < 2 ^ 64")
    case lt: True
    have "unat (of_nat n * k ^ p :: u64) = n * kn ^ p"
      using lt by (simp only: unat_word_ariths(2) n assms(2)) simp
    then have "of_nat n * k ^ p = (of_nat (n * kn ^ p) :: u64)"
      using lt by (simp only: word_unat_eq_iff unat_of_nat) simp
    with lt show ?thesis by (simp add: checked_mul_def n assms(2))
  next
    case False
    then show ?thesis by (simp add: checked_mul_def n assms(2))
  qed
  with True show ?thesis by (simp add: split_suffix_dec [OF assms(1)] parse_u64_dec)
next
  case False
  have "n \<le> n * kn ^ p" using assms(3) by simp
  with False have "\<not> n * kn ^ p < 2 ^ 64" by linarith
  with False show ?thesis by (simp add: split_suffix_dec [OF assms(1)] parse_u64_dec)
qed

lemma suffix_power_le: "suffix_power t = Some p \<Longrightarrow> p \<in> {0, 1, 2, 3}"
  by (auto simp: suffix_power_def split: if_splits)

section \<open>Properties\<close>

text \<open>
  (C38) Sizes and rates are read exactly: a decimal number with one of the suffixes stands for the
  number times 1024 (sizes) or 1000 (rates) to the power of the suffix, and is refused when, and
  only when, that product does not fit 64 bits.
\<close>

theorem scaled_numbers_exact:
  assumes "suffix_power t = Some p"
  shows "parse_size (dec n @ t) = (if n * 1024 ^ p < 2 ^ 64 then Some (of_nat (n * 1024 ^ p)) else None) \<and>
    bandwidth_parse (dec n @ t) = (if n * 1000 ^ p < 2 ^ 64 then Some (of_nat (n * 1000 ^ p)) else None)"
proof
  have "unat (1024 ^ p :: u64) = 1024 ^ p" using suffix_power_le [OF assms] by auto
  from scaled_parse [OF assms this] show
    "parse_size (dec n @ t) = (if n * 1024 ^ p < 2 ^ 64 then Some (of_nat (n * 1024 ^ p)) else None)"
    by (simp add: parse_size_def)
  have "unat (1000 ^ p :: u64) = 1000 ^ p" using suffix_power_le [OF assms] by auto
  from scaled_parse [OF assms this] show
    "bandwidth_parse (dec n @ t) = (if n * 1000 ^ p < 2 ^ 64 then Some (of_nat (n * 1000 ^ p)) else None)"
    by (simp add: bandwidth_parse_def)
qed

theorem scaled_numbers_exact_witness:
  "parse_size (dec 256 @ lit ''K'') = Some 262144 \<and> bandwidth_parse (dec 256 @ lit ''K'') = Some 256000"
  using scaled_numbers_exact [of "lit ''K''" 1 256] by (simp add: suffix_power_def lit_def)

text \<open>
  Turning the parsed command line into a test fails only for an unreadable \<open>-b\<close>, \<open>-w\<close>, \<open>-S\<close> or
  \<open>-n\<close>; it yields a server exactly when \<open>-s\<close> was given, at least one concurrent session, and the
  length and bandwidth defaults of the chosen transport.
\<close>

lemma try_into_mode_total:
  "(try_into_mode c = None \<longleftrightarrow>
      cli_bandwidth c = None \<or> parse_opt parse_window (cl_window c) = None \<or>
      parse_opt parse_tos (cl_tos c) = None \<or> parse_opt parse_size (cl_bytes c) = None) \<and>
   (\<forall>m cf. try_into_mode c = Some m \<and> (m = Server cf \<or> m = Client cf) \<longrightarrow>
      (m = Server cf \<longleftrightarrow> cl_server c) \<and> 1 \<le> cf_max_concurrent cf \<and>
      is_udp (cf_transport cf) = cl_udp c \<and>
      (cl_len c = None \<longrightarrow> cf_len cf = (if cl_udp c then 1460 else 131072)) \<and>
      (cl_bandwidth c = None \<longrightarrow> cf_bandwidth cf = (if cl_udp c then 1000000 else 0)) \<and>
      (cl_server c \<and> cl_host c = None \<longrightarrow> cf_host cf = lit ''127.0.0.1''))"
proof -
  have m: "(1::u32) \<le> max a 1" for a by simp
  have n: "try_into_mode c = None \<longleftrightarrow>
      cli_bandwidth c = None \<or> parse_opt parse_window (cl_window c) = None \<or>
      parse_opt parse_tos (cl_tos c) = None \<or> parse_opt parse_size (cl_bytes c) = None"
    by (simp add: try_into_mode_def Let_def split: option.splits)
  show ?thesis
    unfolding n
    by (auto simp: try_into_mode_def Let_def m is_udp_def cli_len_def cli_bandwidth_def
        DEFAULT_UDP_LEN_def DEFAULT_TCP_LEN_def DEFAULT_UDP_BANDWIDTH_BPS_def DEFAULT_BIND_def
        split: option.splits if_splits)
qed

definition sample_cli :: cli where
  "sample_cli = \<lparr>cl_server = False, cl_host = Some (lit ''h''), cl_port = DEFAULT_PORT,
     cl_time = DEFAULT_TIME_SECS, cl_parallel = DEFAULT_PARALLEL, cl_len = None,
     cl_omit = DEFAULT_OMIT_SECS, cl_udp = True, cl_bandwidth = None, cl_one_off = False,
     cl_max_concurrent = 0, cl_reverse = False, cl_bidir = False, cl_json = False, cl_format = None,
     cl_logfile = None, cl_verbose = False, cl_timestamps = False, cl_window = None, cl_mss = None,
     cl_congestion = None, cl_tos = None, cl_zerocopy = False, cl_bytes = None, cl_blockcount = None,
     cl_title = None, cl_affinity = None, cl_username = None, cl_password = None,
     cl_rsa_public_key = None, cl_rsa_private_key = None, cl_authorized_users = None,
     cl_require_auth = False\<rparr>"

end
