(* ===== verification/Streams.thy ===== *)
theory Streams
  imports Udp Cli_Config
begin

text \<open>
  The data loops: \<^verbatim>\<open>src/common/stream.rs\<close> (the client's four stream threads) and
  \<open>recv_stream_bytes\<close>, \<open>run_tcp_send_streams\<close>, \<open>run_udp_send_streams\<close> of \<^verbatim>\<open>src/server.rs\<close>.

  A loop that drains a socket ends with the socket's script of events. A loop that sends until a
  deadline runs over a script of turns, which holds the clock readings of each round:
  \<open>Unfinished\<close> is a loop still running when the script is used up, \<open>Panicked\<close> a thread that
  panicked. Printed interval rows are kept as the snapshots they render.
\<close>

section \<open>Shared pieces\<close>

datatype 'a run = Unfinished | Panicked | Finished 'a

definition build_payload :: "nat \<Rightarrow> bytes" where
  "build_payload len = replicate len 1"

definition should_stop :: "timer \<Rightarrow> instant \<Rightarrow> duration \<Rightarrow> bool" where
  "should_stop timer now d = timer_is_elapsed timer now d"

text \<open>A receipt, the optional interval reporter, and the rows printed so far.\<close>

record 'r meter =
  mt_receipt :: 'r
  mt_reporter :: "interval_reporter option"
  mt_rows :: "interval_snapshot list"

definition report_bytes :: "nat \<Rightarrow> instant \<Rightarrow> 'r meter \<Rightarrow> 'r meter" where
  "report_bytes n now m =
     (case mt_reporter m of
        None \<Rightarrow> m
      | Some rep \<Rightarrow>
          (case on_bytes n now rep of
             (None, rep') \<Rightarrow> m\<lparr>mt_reporter := Some rep'\<rparr>
           | (Some snap, rep') \<Rightarrow> m\<lparr>mt_reporter := Some rep', mt_rows := mt_rows m @ [snap]\<rparr>))"

definition meter_tick ::
  "(duration \<Rightarrow> nat \<Rightarrow> instant \<Rightarrow> 'r \<Rightarrow> 'r) \<Rightarrow> duration \<Rightarrow> nat \<Rightarrow> instant \<Rightarrow> 'r meter \<Rightarrow> 'r meter" where
  "meter_tick tick omit n now m =
     report_bytes n now (m\<lparr>mt_receipt := tick omit n now (mt_receipt m)\<rparr>)"

text \<open>The row printed after the loop, when bytes are left in the bucket.\<close>

definition meter_flush :: "('r \<Rightarrow> instant option) \<Rightarrow> 'r meter \<Rightarrow> 'r meter" where
  "meter_flush last' m =
     (case (mt_reporter m, last' (mt_receipt m)) of
        (Some rep, Some l) \<Rightarrow>
          (case flush l rep of
             (Some snap, rep') \<Rightarrow>
               m\<lparr>mt_reporter := Some rep',
                 mt_rows := (if 0 < is_bytes snap then mt_rows m @ [snap] else mt_rows m)\<rparr>
           | (None, rep') \<Rightarrow> m\<lparr>mt_reporter := Some rep'\<rparr>)
      | _ \<Rightarrow> m)"

lemma meter_tick_receipt [simp]:
  "mt_receipt (meter_tick tick omit n now m) = tick omit n now (mt_receipt m)"
  by (auto simp: meter_tick_def report_bytes_def split: option.splits prod.splits)

lemma meter_flush_receipt [simp]: "mt_receipt (meter_flush last' m) = mt_receipt m"
  by (auto simp: meter_flush_def split: option.splits prod.splits)

section \<open>Draining a TCP stream\<close>

fun rx_size :: "rx_event list \<Rightarrow> nat" where
  "rx_size [] = 0"
| "rx_size (RxData c # r) = Suc (length c + rx_size r)"
| "rx_size (RxErr k # r) = Suc (rx_size r)"
| "rx_size (RxIdle d # r) = Suc (rx_size r)"

lemma rx_next_size:
  "rx_next nb tm n rx = (q, r) \<Longrightarrow> (\<exists>c. q = Inr c \<and> c \<noteq> []) \<or> (\<exists>k. q = Inl k \<and> k \<noteq> WouldBlock) \<Longrightarrow>
   rx_size r < rx_size rx"
  by (induction nb tm n rx rule: rx_next.induct) (auto split: if_splits option.splits)

lemma tcp_recv_data_size:
  "tcp_recv n s = (Inr c, s') \<Longrightarrow> c \<noteq> [] \<Longrightarrow> rx_size (tcp_rx s') < rx_size (tcp_rx s)"
  by (auto simp: tcp_recv_def dest: rx_next_size split: prod.splits)

lemma tcp_recv_err_size:
  "tcp_recv n s = (Inl k, s') \<Longrightarrow> k \<noteq> WouldBlock \<Longrightarrow> rx_size (tcp_rx s') < rx_size (tcp_rx s)"
  by (auto simp: tcp_recv_def dest: rx_next_size split: prod.splits)

text \<open>\<open>recv_stream_bytes\<close>; \<open>clk\<close> are the readings of the clock, \<open>i\<close> the number of those taken.\<close>

function recv_stream_loop ::
  "duration \<Rightarrow> (nat \<Rightarrow> instant) \<Rightarrow> nat \<Rightarrow> tcp \<Rightarrow> stream_receipt meter \<Rightarrow> stream_receipt meter" where
  "recv_stream_loop omit clk i s m =
     (case tcp_recv DEFAULT_TCP_LEN s of
        (Inr c, s') \<Rightarrow>
          if c = [] then m
          else recv_stream_loop omit clk (i + 1) s' (meter_tick receipt_tick omit (length c) (clk i) m)
      | (Inl k, s') \<Rightarrow> if k = Interrupted then recv_stream_loop omit clk i s' m else m)"
  by pat_completeness auto
termination
  by (relation "measure (\<lambda>(_, _, _, s, _). rx_size (tcp_rx s))")
    (auto dest: tcp_recv_data_size [OF sym] tcp_recv_err_size [OF sym])

declare recv_stream_loop.simps [simp del]

definition recv_stream_bytes ::
  "duration \<Rightarrow> (nat \<Rightarrow> instant) \<Rightarrow> tcp \<Rightarrow> interval_reporter option \<Rightarrow> stream_receipt meter" where
  "recv_stream_bytes omit clk s reporter =
     meter_flush rc_last_byte_at
       (recv_stream_loop omit clk 0 s
         \<lparr>mt_receipt = stream_receipt_empty, mt_reporter = reporter, mt_rows = []\<rparr>)"

text \<open>
  \<open>Stream::start_recv\<close>: the same loop on the client's receipt with a look at the timer at the head
  of every round, the timer having been started before the connection was opened.
\<close>

function start_recv_loop ::
  "duration \<Rightarrow> duration \<Rightarrow> timer \<Rightarrow> nat \<Rightarrow> (nat \<Rightarrow> instant) \<Rightarrow> nat \<Rightarrow> tcp \<Rightarrow> client_receipt meter \<Rightarrow>
   client_receipt meter" where
  "start_recv_loop dur omit timer buf_len clk i s m =
     (if should_stop timer (clk i) dur then m
      else case tcp_recv buf_len s of
        (Inr c, s') \<Rightarrow>
          if c = [] then m
          else start_recv_loop dur omit timer buf_len clk (i + 2) s'
                 (meter_tick client_tick omit (length c) (clk (i + 1)) m)
      | (Inl k, s') \<Rightarrow>
          if k = Interrupted then start_recv_loop dur omit timer buf_len clk (i + 1) s' m else m)"
  by pat_completeness auto
termination
  by (relation "measure (\<lambda>(_, _, _, _, _, _, s, _). rx_size (tcp_rx s))")
    (auto dest: tcp_recv_data_size [OF sym] tcp_recv_err_size [OF sym])

declare start_recv_loop.simps [simp del]

section \<open>Sending on a TCP stream\<close>

text \<open>The clock at the head of a round and after its send.\<close>

record send_turn =
  st_head :: instant
  st_sent :: instant

text \<open>
  The loop of \<open>Stream::start\<close> and of the threads of \<open>run_tcp_send_streams\<close>: \<open>tot\<close> and \<open>tick\<close> are
  the byte counter and the accounting block of the side's receipt. Dividing by a length of zero
  panics.
\<close>

fun tcp_send_loop ::
  "('r \<Rightarrow> u64) \<Rightarrow> (duration \<Rightarrow> nat \<Rightarrow> instant \<Rightarrow> 'r \<Rightarrow> 'r) \<Rightarrow> timer \<Rightarrow> duration \<Rightarrow> duration \<Rightarrow> nat \<Rightarrow>
   u64 option \<Rightarrow> u64 option \<Rightarrow> send_turn list \<Rightarrow> tcp \<Rightarrow> 'r meter \<Rightarrow> ('r meter \<times> tcp) run" where
  "tcp_send_loop tot tick timer dur omit len max_bytes max_blocks [] s m = Unfinished"
| "tcp_send_loop tot tick timer dur omit len max_bytes max_blocks (t # ts) s m =
     (if should_stop timer (st_head t) dur then Finished (m, s)
      else if (case max_bytes of None \<Rightarrow> False | Some mb \<Rightarrow> mb \<le> tot (mt_receipt m)) then Finished (m, s)
      else if max_blocks \<noteq> None \<and> len = 0 then Panicked
      else if (case max_blocks of None \<Rightarrow> False
               | Some mb \<Rightarrow> unat mb \<le> unat (tot (mt_receipt m)) div len) then Finished (m, s)
      else case tcp_send (build_payload len) s of
             (Inr n, s') \<Rightarrow>
               if 0 < n
               then tcp_send_loop tot tick timer dur omit len max_bytes max_blocks ts s'
                      (meter_tick tick omit n (st_sent t) m)
               else tcp_send_loop tot tick timer dur omit len max_bytes max_blocks ts s' m
           | (Inl k, s') \<Rightarrow>
               if k = WouldBlock
               then tcp_send_loop tot tick timer dur omit len max_bytes max_blocks ts s' m
               else Finished (m, s'))"

definition tuning_of_config :: "config \<Rightarrow> tuning_opts" where
  "tuning_of_config c = \<lparr>tu_window_size = cf_window_size c, tu_mss = cf_mss c,
     tu_congestion = cf_congestion c, tu_tos = cf_tos c\<rparr>"

definition tuning_of_options :: "client_options \<Rightarrow> tuning_opts" where
  "tuning_of_options p = \<lparr>tu_window_size = co_window_size p, tu_mss = co_mss p,
     tu_congestion = co_congestion p, tu_tos = co_tos p\<rparr>"

text \<open>
  What a finished stream thread puts on the two channels of the client's main loop: its receipt,
  and \<open>TestEnd\<close>.
\<close>

record stream_finished =
  sf_receipt :: client_receipt
  sf_message :: message
  sf_rows :: "interval_snapshot list"

definition emit_stream_finished :: "client_receipt \<Rightarrow> interval_snapshot list \<Rightarrow> stream_finished" where
  "emit_stream_finished r rows = \<lparr>sf_receipt = r, sf_message = TestEnd, sf_rows = rows\<rparr>"

text \<open>
  The total budget of a stream; the addition is on \<open>u32\<close> and wraps in a release build.
\<close>

definition stream_duration :: "u32 \<Rightarrow> u32 \<Rightarrow> duration" where
  "stream_duration time omit = from_secs (unat (time + omit))"

definition reporter_for :: "bool \<Rightarrow> u32 \<Rightarrow> interval_reporter option" where
  "reporter_for json sid = (if json then None else Some (reporter_new sid (from_secs 1)))"

text \<open>
  \<open>Stream::start\<close>: \<open>conn\<close> is what the connection attempt returns, \<open>t0\<close> the timer's start, and
  \<open>retr\<close> what \<open>tcp_retransmits\<close> returns. The connection is kept beside the report.
\<close>

definition stream_start ::
  "config \<Rightarrow> bytes \<Rightarrow> u32 \<Rightarrow> tcp io_result \<Rightarrow> instant \<Rightarrow> send_turn list \<Rightarrow> u32 io_result \<Rightarrow>
   (stream_finished \<times> tcp option) run" where
  "stream_start c cookie sid conn t0 turns retr =
     (case connect conn cookie of
        None \<Rightarrow> Finished (emit_stream_finished (client_receipt_empty sid) [], None)
      | Some s \<Rightarrow>
          let s1 = snd (tcp_set_nonblocking False s);
              s2 = snd (tcp_apply_tuning (tuning_of_config c) s1)
          in case tcp_send_loop cr_bytes_sent client_tick (timer_new t0)
                    (stream_duration (cf_time c) (cf_omit c)) (from_secs (unat (cf_omit c)))
                    (unat (cf_len c)) (cf_total_bytes c) (cf_total_blocks c) turns s2
                    \<lparr>mt_receipt = client_receipt_empty sid, mt_reporter = reporter_for (cf_json c) sid,
                     mt_rows = []\<rparr> of
               Unfinished \<Rightarrow> Unfinished
             | Panicked \<Rightarrow> Panicked
             | Finished (m, s3) \<Rightarrow>
                 let m' = meter_flush cr_last_send_at m;
                     r = (mt_receipt m')\<lparr>cr_retransmits := (case retr of Inl _ \<Rightarrow> 0 | Inr n \<Rightarrow> n)\<rparr>
                 in Finished (emit_stream_finished r (mt_rows m'), Some s3))"

definition stream_start_recv ::
  "config \<Rightarrow> bytes \<Rightarrow> u32 \<Rightarrow> tcp io_result \<Rightarrow> instant \<Rightarrow> (nat \<Rightarrow> instant) \<Rightarrow> stream_finished" where
  "stream_start_recv c cookie sid conn t0 clk =
     (case connect conn cookie of
        None \<Rightarrow> emit_stream_finished (client_receipt_empty sid) []
      | Some s \<Rightarrow>
          let s1 = snd (tcp_set_nonblocking False s);
              s2 = snd (tcp_apply_tuning (tuning_of_config c) s1);
              m = start_recv_loop (stream_duration (cf_time c) (cf_omit c))
                    (from_secs (unat (cf_omit c))) (timer_new t0) (max (unat (cf_len c)) 65536) clk 0 s2
                    \<lparr>mt_receipt = client_receipt_empty sid, mt_reporter = reporter_for (cf_json c) sid,
                     mt_rows = []\<rparr>;
              m' = meter_flush cr_last_send_at m
          in emit_stream_finished (mt_receipt m') (mt_rows m'))"

text \<open>One thread of \<open>run_tcp_send_streams\<close>; a thread that panics yields an empty receipt.\<close>

definition tcp_send_stream ::
  "client_options \<Rightarrow> u32 \<Rightarrow> instant \<Rightarrow> send_turn list \<Rightarrow> tcp \<Rightarrow> (stream_receipt meter \<times> tcp) run" where
  "tcp_send_stream opts sid t0 turns s =
     (let s1 = snd (tcp_set_nonblocking False s);
          s2 = snd (tcp_apply_tuning (tuning_of_options opts) s1)
      in tcp_send_loop rc_bytes receipt_tick (timer_new t0)
           (stream_duration (co_time opts) (co_omit opts)) (from_secs (unat (co_omit opts)))
           (unat (co_len opts)) (co_total_bytes opts) (co_total_blocks opts) turns s2
           \<lparr>mt_receipt = stream_receipt_empty, mt_reporter = Some (reporter_new sid (from_secs 1)),
            mt_rows = []\<rparr>)"

definition join_receipt :: "('r meter \<times> 's) run \<Rightarrow> 'r \<Rightarrow> 'r option" where
  "join_receipt r empty' =
     (case r of Unfinished \<Rightarrow> None | Panicked \<Rightarrow> Some empty' | Finished (m, _) \<Rightarrow> Some (mt_receipt m))"

section \<open>Sending datagrams\<close>

definition receipt_udp_tick :: "duration \<Rightarrow> nat \<Rightarrow> instant \<Rightarrow> stream_receipt \<Rightarrow> stream_receipt" where
  "receipt_udp_tick omit n now r =
     (receipt_tick omit n now r)\<lparr>rc_packets := rc_packets r + 1\<rparr>"

definition client_udp_tick :: "duration \<Rightarrow> nat \<Rightarrow> instant \<Rightarrow> client_receipt \<Rightarrow> client_receipt" where
  "client_udp_tick omit n now r =
     (client_tick omit n now r)\<lparr>cr_packets := cr_packets r + 1\<rparr>"

text \<open>
  The readings of one round: the monotonic clock at its head, before pacing and after the send, and
  the wall clock the header is stamped with.
\<close>

record packet_turn =
  pt_head :: instant
  pt_now :: instant
  pt_epoch_secs :: u64
  pt_epoch_micros :: u32
  pt_sent :: instant

record 'r udp_sender =
  up_meter :: "'r meter"
  up_bucket :: token_bucket
  up_seq :: i64
  up_packet :: bytes
  up_sock :: udp_sock

definition stamped :: "u64 \<Rightarrow> u32 \<Rightarrow> i64 \<Rightarrow> udp_header" where
  "stamped secs micros q = \<lparr>uh_tv_sec = ucast secs, uh_tv_usec = micros, uh_seq = q\<rparr>"

text \<open>
  The loop of \<open>Stream::start_udp\<close> and of the threads of \<open>run_udp_send_streams\<close>; the server passes
  no byte or block limit.
\<close>

fun udp_send_loop ::
  "('r \<Rightarrow> u64) \<Rightarrow> (duration \<Rightarrow> nat \<Rightarrow> instant \<Rightarrow> 'r \<Rightarrow> 'r) \<Rightarrow> timer \<Rightarrow> duration \<Rightarrow> duration \<Rightarrow> nat \<Rightarrow>
   u64 option \<Rightarrow> u64 option \<Rightarrow> sock_addr \<Rightarrow> packet_turn list \<Rightarrow> 'r udp_sender \<Rightarrow> 'r udp_sender run" where
  "udp_send_loop tot tick timer dur omit len max_bytes max_blocks peer [] u = Unfinished"
| "udp_send_loop tot tick timer dur omit len max_bytes max_blocks peer (t # ts) u =
     (if should_stop timer (pt_head t) dur then Finished u
      else if (case max_bytes of None \<Rightarrow> False | Some mb \<Rightarrow> mb \<le> tot (mt_receipt (up_meter u)))
      then Finished u
      else if max_blocks \<noteq> None \<and> len = 0 then Panicked
      else if (case max_blocks of None \<Rightarrow> False
               | Some mb \<Rightarrow> unat mb \<le> unat (tot (mt_receipt (up_meter u))) div len) then Finished u
      else if bucket_wait (up_bucket u) (pt_now t) \<noteq> None
      then udp_send_loop tot tick timer dur omit len max_bytes max_blocks peer ts u
      else case udp_encode (stamped (pt_epoch_secs t) (pt_epoch_micros t) (up_seq u))
                  (take UDP_HEADER_LEN (up_packet u)) of
             Inl _ \<Rightarrow> Finished u
           | Inr hdr \<Rightarrow>
               let packet = hdr @ drop UDP_HEADER_LEN (up_packet u)
               in case udp_send_to packet peer (up_sock u) of
                    (Inl k, sock) \<Rightarrow> Finished (u\<lparr>up_packet := packet, up_sock := sock\<rparr>)
                  | (Inr n, sock) \<Rightarrow>
                      if 0 < n
                      then udp_send_loop tot tick timer dur omit len max_bytes max_blocks peer ts
                             \<lparr>up_meter = meter_tick tick omit n (pt_sent t) (up_meter u),
                              up_bucket = bucket_record (of_nat n) (up_bucket u),
                              up_seq = up_seq u + 1, up_packet = packet, up_sock = sock\<rparr>
                      else udp_send_loop tot tick timer dur omit len max_bytes max_blocks peer ts
                             (u\<lparr>up_packet := packet, up_sock := sock\<rparr>))"

text \<open>The end-of-test datagram: a header alone, with sequence number \<open>-1\<close>.\<close>

definition send_sentinel :: "u64 \<Rightarrow> u32 \<Rightarrow> sock_addr \<Rightarrow> udp_sock \<Rightarrow> udp_sock" where
  "send_sentinel secs micros peer sock =
     (case udp_encode (stamped secs micros (- 1)) (replicate UDP_HEADER_LEN 0) of
        Inl _ \<Rightarrow> sock
      | Inr pkt \<Rightarrow> snd (udp_send_to pkt peer sock))"

text \<open>
  \<open>Stream::start_udp\<close>: \<open>bound\<close> and \<open>conn_res\<close> are the outcomes of \<open>bind\<close> and \<open>connect\<close>, \<open>t0\<close> and
  \<open>t1\<close> the starts of the timer and of the bucket, \<open>fin\<close> the wall clock for the sentinel.
\<close>

definition stream_start_udp ::
  "config \<Rightarrow> bytes \<Rightarrow> u32 \<Rightarrow> sock_addr \<Rightarrow> udp_sock io_result \<Rightarrow> unit io_result \<Rightarrow> instant \<Rightarrow> instant \<Rightarrow>
   packet_turn list \<Rightarrow> u64 \<times> u32 \<Rightarrow> (stream_finished \<times> udp_sock option) run" where
  "stream_start_udp c cookie sid peer bound conn_res t0 t1 turns fin =
     (let empty' = emit_stream_finished (client_receipt_empty sid) []; len = unat (cf_len c)
      in case bound of
        Inl _ \<Rightarrow> Finished (empty', None)
      | Inr sock \<Rightarrow>
        (case conn_res of
           Inl _ \<Rightarrow> Finished (empty', Some sock)
         | Inr _ \<Rightarrow>
           (case udp_send_to cookie peer sock of
              (Inl _, sock') \<Rightarrow> Finished (empty', Some sock')
            | (Inr _, sock') \<Rightarrow>
                if len < UDP_HEADER_LEN then Finished (empty', Some sock')
                else
                  (case udp_send_loop cr_bytes_sent client_udp_tick (timer_new t0)
                         (stream_duration (cf_time c) (cf_omit c)) (from_secs (unat (cf_omit c))) len
                         (cf_total_bytes c) (cf_total_blocks c) peer turns
                         \<lparr>up_meter = \<lparr>mt_receipt = client_receipt_empty sid, mt_reporter = None, mt_rows = []\<rparr>,
                          up_bucket = bucket_new (cf_bandwidth c) t1, up_seq = 0,
                          up_packet = replicate len 1, up_sock = sock'\<rparr> of
                     Unfinished \<Rightarrow> Unfinished
                   | Panicked \<Rightarrow> Panicked
                   | Finished u \<Rightarrow>
                       Finished (emit_stream_finished (mt_receipt (up_meter u)) [],
                         Some (send_sentinel (fst fin) (snd fin) peer (up_sock u)))))))"

text \<open>One thread of \<open>run_udp_send_streams\<close>.\<close>

definition udp_send_stream ::
  "client_options \<Rightarrow> u32 \<Rightarrow> sock_addr \<Rightarrow> instant \<Rightarrow> instant \<Rightarrow> packet_turn list \<Rightarrow> u64 \<times> u32 \<Rightarrow> udp_sock \<Rightarrow>
   (stream_receipt meter \<times> udp_sock) run" where
  "udp_send_stream opts sid peer t0 t1 turns fin sock =
     (let len = max (unat (co_len opts)) UDP_HEADER_LEN
      in case udp_send_loop rc_bytes receipt_udp_tick (timer_new t0)
                (stream_duration (co_time opts) (co_omit opts)) (from_secs (unat (co_omit opts))) len
                None None peer turns
                \<lparr>up_meter = \<lparr>mt_receipt = stream_receipt_empty,
                   mt_reporter = Some (reporter_new sid (from_secs 1)), mt_rows = []\<rparr>,
                 up_bucket = bucket_new (co_bandwidth opts) t1, up_seq = 0,
                 up_packet = replicate len 1, up_sock = sock\<rparr> of
           Unfinished \<Rightarrow> Unfinished
         | Panicked \<Rightarrow> Panicked
         | Finished u \<Rightarrow> Finished (up_meter u, send_sentinel (fst fin) (snd fin) peer (up_sock u)))"

section \<open>Receiving datagrams on the client\<close>

record dgram_turn =
  dt_head :: instant
  dt_recv :: "nat io_result"
  dt_now :: instant

text \<open>The loop of \<open>Stream::start_udp_recv\<close>; \<open>dt_recv\<close> is the length \<open>recv\<close> reports.\<close>

fun udp_recv_loop ::
  "timer \<Rightarrow> duration \<Rightarrow> duration \<Rightarrow> dgram_turn list \<Rightarrow> client_receipt meter \<Rightarrow> client_receipt meter run" where
  "udp_recv_loop timer dur omit [] m = Unfinished"
| "udp_recv_loop timer dur omit (t # ts) m =
     (if should_stop timer (dt_head t) dur then Finished m
      else case dt_recv t of
             Inr n \<Rightarrow>
               if n = 0 then udp_recv_loop timer dur omit ts m
               else udp_recv_loop timer dur omit ts (meter_tick client_udp_tick omit n (dt_now t) m)
           | Inl k \<Rightarrow>
               if k = WouldBlock \<or> k = TimedOut then udp_recv_loop timer dur omit ts m else Finished m)"

definition stream_start_udp_recv ::
  "config \<Rightarrow> bytes \<Rightarrow> u32 \<Rightarrow> sock_addr \<Rightarrow> udp_sock io_result \<Rightarrow> unit io_result \<Rightarrow> instant \<Rightarrow>
   dgram_turn list \<Rightarrow> (stream_finished \<times> udp_sock option) run" where
  "stream_start_udp_recv c cookie sid peer bound conn_res t0 turns =
     (let empty' = emit_stream_finished (client_receipt_empty sid) []
      in case bound of
        Inl _ \<Rightarrow> Finished (empty', None)
      | Inr sock \<Rightarrow>
        (case conn_res of
           Inl _ \<Rightarrow> Finished (empty', Some sock)
         | Inr _ \<Rightarrow>
             let sock1 = snd (udp_send_to cookie peer sock);
                 sock2 = snd (udp_set_read_timeout (Some (from_millis 100)) sock1)
             in case udp_recv_loop (timer_new t0) (stream_duration (cf_time c) (cf_omit c))
                       (from_secs (unat (cf_omit c))) turns
                       \<lparr>mt_receipt = client_receipt_empty sid, mt_reporter = reporter_for (cf_json c) sid,
                        mt_rows = []\<rparr> of
                  Unfinished \<Rightarrow> Unfinished
                | Panicked \<Rightarrow> Panicked
                | Finished m \<Rightarrow> Finished (emit_stream_finished (mt_receipt m) (mt_rows m), Some sock2)))"

section \<open>Lemmas\<close>

subsection \<open>Rows and receipts agree\<close>

interpretation server_udp_meter: byte_meter receipt_udp_tick rc_bytes rc_bytes_omit rc_first_byte_at
  rc_first_measured_at rc_last_byte_at
  by unfold_locales
    (auto simp: receipt_udp_tick_def server_meter.tick_total server_meter.tick_first
      server_meter.tick_last server_meter.tick_omitted server_meter.tick_measured)

interpretation client_udp_meter: byte_meter client_udp_tick cr_bytes_sent cr_bytes_omit
  cr_first_send_at cr_first_measured_at cr_last_send_at
  by unfold_locales
    (auto simp: client_udp_tick_def client_meter.tick_total client_meter.tick_first
      client_meter.tick_last client_meter.tick_omitted client_meter.tick_measured)

context byte_meter
begin

text \<open>The printed rows and the open bucket add up to the receipt's total.\<close>

definition rows_ok :: "'r meter \<Rightarrow> bool" where
  "rows_ok m \<longleftrightarrow>
     (case mt_reporter m of
        None \<Rightarrow> True
      | Some rep \<Rightarrow> reporter_inv rep \<and> (\<Sum>s\<leftarrow>mt_rows m. is_bytes s) + ir_bytes rep = total (mt_receipt m) \<and>
          (last' (mt_receipt m) = None \<longrightarrow> ir_bytes rep = 0))"

lemma on_bytes_bytes:
  "on_bytes n t rep = (None, rep') \<Longrightarrow> ir_bytes rep' = ir_bytes rep + of_nat n"
  "on_bytes n t rep = (Some snap, rep') \<Longrightarrow> ir_bytes rep' = 0 \<and> is_bytes snap = ir_bytes rep + of_nat n"
  by (auto simp: on_bytes_def Let_def split: if_splits)

lemma meter_tick_rows: "rows_ok m \<Longrightarrow> rows_ok (meter_tick tick om n t m)"
proof (cases "mt_reporter m")
  case (Some rep)
  assume ok: "rows_ok m"
  obtain res rep' where o: "on_bytes n t rep = (res, rep')" by fastforce
  have inv: "reporter_inv rep'" using on_bytes_inv [of rep n t] ok o by (simp add: rows_ok_def Some)
  show ?thesis
  proof (cases res)
    case None
    with ok o inv on_bytes_bytes(1) [of n t rep rep'] show ?thesis
      by (simp add: rows_ok_def meter_tick_def report_bytes_def Some tick_total tick_last algebra_simps)
  next
    case (Some snap)
    with ok o inv on_bytes_bytes(2) [of n t rep snap rep'] \<open>mt_reporter m = Some rep\<close> show ?thesis
      by (simp add: rows_ok_def meter_tick_def report_bytes_def tick_total tick_last algebra_simps)
  qed
qed (simp add: rows_ok_def meter_tick_def report_bytes_def)

lemma flush_rows:
  assumes "rows_ok m" and "mt_reporter m = Some rep"
  shows "(\<Sum>s\<leftarrow>mt_rows (meter_flush last' m). is_bytes s) = total (mt_receipt m)"
proof (cases "last' (mt_receipt m)")
  case None
  with assms show ?thesis by (auto simp: rows_ok_def meter_flush_def)
next
  case (Some l)
  show ?thesis
  proof (cases "ir_bytes rep = 0")
    case True
    obtain res rep' where f: "flush l rep = (res, rep')" by fastforce
    have "is_bytes snap = 0" if "res = Some snap" for snap
      using f that True by (auto simp: flush_def Let_def split: option.splits if_splits)
    with assms True Some f show ?thesis
      by (cases res) (simp_all add: rows_ok_def meter_flush_def)
  next
    case False
    with assms obtain origin where "ir_origin rep = Some origin"
      by (auto simp: rows_ok_def reporter_inv_def reporter_at_def)
    with False obtain snap rep' where f: "flush l rep = (Some snap, rep')" "is_bytes snap = ir_bytes rep"
      by (simp add: flush_def Let_def)
    moreover have "0 < ir_bytes rep" using False by (simp add: word_greater_zero_iff)
    ultimately show ?thesis using assms Some by (simp add: rows_ok_def meter_flush_def)
  qed
qed

subsection \<open>The TCP send loop\<close>

lemma tcp_send_ok:
  assumes "tcp_send buf s = (Inr n, s')"
  shows "n \<le> length buf" and "tcp_out s' = tcp_out s @ take n buf"
  using assms by (auto simp: tcp_send_def split: list.splits tx_event.splits)

lemma tcp_send_err: "tcp_send buf s = (Inl k, s') \<Longrightarrow> tcp_out s' = tcp_out s"
  by (auto simp: tcp_send_def split: list.splits tx_event.splits)

text \<open>Every byte the kernel took is counted, and nothing but payload was sent.\<close>

lemma send_loop_counts:
  assumes "tcp_send_loop total tick timer dur om len mb bl ts s m = Finished (m', s')"
  shows "\<exists>k. tcp_out s' = tcp_out s @ replicate k 1 \<and>
    total (mt_receipt m') = total (mt_receipt m) + of_nat k"
  using assms
proof (induction ts arbitrary: s m)
  case (Cons t ts)
  obtain r s1 where r: "tcp_send (build_payload len) s = (r, s1)" by fastforce
  show ?case
  proof (cases "s' = s \<and> m' = m")
    case True
    then show ?thesis by (intro exI [of _ 0]) simp
  next
    case False
    note F = False
    show ?thesis
    proof (cases r)
      case (Inl k)
      with r have o: "tcp_out s1 = tcp_out s" by (simp add: tcp_send_err)
      show ?thesis
      proof (cases "k = WouldBlock")
        case True
        with Cons.prems F r Inl have "tcp_send_loop total tick timer dur om len mb bl ts s1 m = Finished (m', s')"
          by (auto split: if_splits)
        from Cons.IH [OF this] o show ?thesis by simp
      next
        case False
        with Cons.prems F r Inl have "m' = m" "s' = s1" by (auto split: if_splits)
        with o show ?thesis by (intro exI [of _ 0]) simp
      qed
    next
      case (Inr n)
      with r have n: "n \<le> len" and o: "tcp_out s1 = tcp_out s @ replicate n 1"
        using tcp_send_ok [of "build_payload len" s n s1] by (simp_all add: build_payload_def min_def)
      show ?thesis
      proof (cases "0 < n")
        case True
        with Cons.prems F r Inr have
          "tcp_send_loop total tick timer dur om len mb bl ts s1 (meter_tick tick om n (st_sent t) m) = Finished (m', s')"
          by (auto split: if_splits)
        from Cons.IH [OF this] o obtain k where "tcp_out s' = tcp_out s @ replicate (n + k) 1"
          "total (mt_receipt m') = total (mt_receipt m) + of_nat (n + k)"
          by (auto simp: tick_total replicate_add)
        then show ?thesis by blast
      next
        case False
        with Cons.prems F r Inr have "tcp_send_loop total tick timer dur om len mb bl ts s1 m = Finished (m', s')"
          by (auto split: if_splits)
        from Cons.IH [OF this] o False show ?thesis by simp
      qed
    qed
  qed
qed simp

text \<open>The byte limit is overshot by less than one write.\<close>

lemma send_loop_budget:
  assumes "tcp_send_loop total tick timer dur om len (Some mb) bl ts s m = Finished (m', s')"
    and "unat (total (mt_receipt m)) < unat mb + len" and "unat mb + len \<le> 2 ^ 64"
  shows "unat (total (mt_receipt m')) < unat mb + len"
  using assms(1,2)
proof (induction ts arbitrary: s m)
  case (Cons t ts)
  obtain r s1 where r: "tcp_send (build_payload len) s = (r, s1)" by fastforce
  show ?case
  proof (cases "m' = m")
    case True
    with Cons.prems(2) show ?thesis by simp
  next
    case False
    with Cons.prems(1) have lt: "total (mt_receipt m) < mb" by (auto simp: not_le split: if_splits)
    show ?thesis
    proof (cases "\<exists>n. r = Inr n \<and> 0 < n")
      case True
      then obtain n where n: "r = Inr n" "0 < n" by blast
      with r have le: "n \<le> len"
        using tcp_send_ok(1) [of "build_payload len" s n s1] by (simp add: build_payload_def)
      have "unat (total (mt_receipt m)) + n < unat mb + len"
        using lt le by (simp add: word_less_nat_alt)
      then have "unat (total (mt_receipt m) + of_nat n) < unat mb + len"
        using assms(3) by (simp add: unat_word_ariths(1) unat_of_nat)
      then have "unat (total (mt_receipt (meter_tick tick om n (st_sent t) m))) < unat mb + len"
        by (simp only: meter_tick_receipt tick_total)
      moreover have "tcp_send_loop total tick timer dur om len (Some mb) bl ts s1
          (meter_tick tick om n (st_sent t) m) = Finished (m', s')"
        using Cons.prems(1) False r n by (auto split: if_splits)
      ultimately show ?thesis using Cons.IH by blast
    next
      case no: False
      have "tcp_send_loop total tick timer dur om len (Some mb) bl ts s1 m = Finished (m', s')"
        using Cons.prems(1) False r no by (cases r) (auto split: if_splits)
      then show ?thesis using Cons.prems(2) by (intro Cons.IH)
    qed
  qed
qed simp

text \<open>Once a turn finds the timer elapsed the loop has ended, and it panics only for length zero.\<close>

lemma send_loop_ends:
  assumes "should_stop timer (st_head t) dur" and "0 < len"
  shows "\<exists>m' s'. tcp_send_loop total tick timer dur om len mb bl (pre @ t # post) s m = Finished (m', s')"
proof (induction pre arbitrary: s m)
  case Nil
  then show ?case using assms by simp
next
  case (Cons a pre)
  obtain r s1 where r: "tcp_send (build_payload len) s = (r, s1)" by fastforce
  show ?case
    using Cons.IH [of s1 m] Cons.IH [of s1 "meter_tick tick om _ (st_sent a) m"] r assms(2)
    by (cases r) auto
qed

end

subsection \<open>The drain loop\<close>

lemma recv_stream_loop_rows:
  "server_meter.rows_ok m \<Longrightarrow> server_meter.rows_ok (recv_stream_loop omit clk i s m) \<and>
     (mt_reporter m = None \<longleftrightarrow> mt_reporter (recv_stream_loop omit clk i s m) = None)"
proof (induction omit clk i s m rule: recv_stream_loop.induct)
  case (1 omit clk i s m)
  obtain r s' where r: "tcp_recv DEFAULT_TCP_LEN s = (r, s')" by fastforce
  have rep: "mt_reporter (meter_tick receipt_tick omit n t m) = None \<longleftrightarrow> mt_reporter m = None" for n t
    by (auto simp: meter_tick_def report_bytes_def split: option.splits prod.splits)
  show ?case
  proof (cases r)
    case (Inl k)
    show ?thesis
    proof (cases "k = Interrupted")
      case True
      from "1.IH"(1) [OF r [symmetric] Inl True "1.prems"] r Inl True show ?thesis
        by (simp add: recv_stream_loop.simps [of omit clk i s])
    next
      case False
      with r Inl "1.prems" show ?thesis by (simp add: recv_stream_loop.simps [of omit clk i s])
    qed
  next
    case (Inr c)
    show ?thesis
    proof (cases "c = []")
      case True
      with r Inr "1.prems" show ?thesis by (simp add: recv_stream_loop.simps [of omit clk i s])
    next
      case False
      from "1.IH"(2) [OF r [symmetric] Inr False server_meter.meter_tick_rows [OF "1.prems"]] r Inr False rep
      show ?thesis by (simp add: recv_stream_loop.simps [of omit clk i s])
    qed
  qed
qed

lemma recv_stream_loop_bytes:
  assumes "rx_ok (tcp_rx s)"
  shows "rc_bytes (mt_receipt (recv_stream_loop omit clk i s m)) =
    rc_bytes (mt_receipt m) + of_nat (length (rx_bytes (tcp_rx s)))"
  using assms
proof (induction omit clk i s m rule: recv_stream_loop.induct)
  case (1 omit clk i s m)
  show ?case
  proof (cases "rx_bytes (tcp_rx s) = []")
    case True
    from rx_ok_pending_Nil [OF "1.prems" True] True show ?thesis
      by (subst recv_stream_loop.simps) (auto simp: tcp_recv_def)
  next
    case False
    have "0 < DEFAULT_TCP_LEN" by (simp add: DEFAULT_TCP_LEN_def)
    from tcp_recv_chunk [OF "1.prems" this False] obtain c s' where
      c: "tcp_recv DEFAULT_TCP_LEN s = (Inr c, s')" "c \<noteq> []"
         "rx_bytes (tcp_rx s) = c @ rx_bytes (tcp_rx s')" "rx_ok (tcp_rx s')" by blast
    from "1.IH"(2) [OF c(1) [symmetric] refl c(2,4)] c(1-3) show ?thesis
      by (simp add: recv_stream_loop.simps [of omit clk i s] server_meter.tick_total)
  qed
qed

subsection \<open>The datagram send loop\<close>

text \<open>Datagram \<open>i\<close> of a stream of \<open>len\<close>-byte packets.\<close>

definition seq_packet :: "nat \<Rightarrow> nat \<Rightarrow> bytes \<Rightarrow> bool" where
  "seq_packet len i d \<longleftrightarrow>
     length d = len \<and> (\<exists>h. udp_decode (take UDP_HEADER_LEN d) = Inr h \<and> uh_seq h = of_nat i)"

lemma encode_packet:
  assumes "16 \<le> length pkt"
  shows "\<exists>hdr. udp_encode h (take UDP_HEADER_LEN pkt) = Inr hdr \<and>
    length (hdr @ drop UDP_HEADER_LEN pkt) = length pkt \<and>
    udp_decode (take UDP_HEADER_LEN (hdr @ drop UDP_HEADER_LEN pkt)) = Inr h"
proof -
  have "udp_decode (u32_to_be_bytes (uh_tv_sec h) @ u32_to_be_bytes (uh_tv_usec h) @
      u64_to_be_bytes (uh_seq h)) = Inr h"
    using udp_decode_encode [of "uh_tv_sec h" "uh_tv_usec h" "uh_seq h" "[]"] by simp
  with assms show ?thesis by (simp add: udp_encode_def UDP_HEADER_LEN_def)
qed

lemma udp_send_to_ok:
  "us_tx sock = [] \<Longrightarrow> udp_send_to d a sock = (Inr (length d), sock\<lparr>us_out := us_out sock @ [(d, a)]\<rparr>)"
  by (simp add: udp_send_to_def)

lemma udp_send_loop_sequence:
  assumes "udp_send_loop tot tick timer dur om len mb bl peer ts u = Finished u'"
    and "16 \<le> len" and "us_tx (up_sock u) = []" and "length (up_packet u) = len"
    and "up_seq u = of_nat k" and tick: "\<And>om n t r. tot (tick om n t r) = tot r + of_nat n"
  shows "\<exists>ds. us_out (up_sock u') = us_out (up_sock u) @ map (\<lambda>d. (d, peer)) ds \<and>
    us_tx (up_sock u') = [] \<and> (\<forall>i<length ds. seq_packet len (k + i) (ds ! i)) \<and>
    tot (mt_receipt (up_meter u')) = tot (mt_receipt (up_meter u)) + of_nat (len * length ds)"
  using assms(1,3-5)
proof (induction ts arbitrary: u k)
  case (Cons t ts)
  show ?case
  proof (cases "u' = u")
    case True
    with Cons.prems show ?thesis by (intro exI [of _ "[]"]) simp
  next
    case False
    show ?thesis
    proof (cases "bucket_wait (up_bucket u) (pt_now t) = None")
      case wait: False
      have "udp_send_loop tot tick timer dur om len mb bl peer ts u = Finished u'"
        using Cons.prems(1) False wait by (auto split: if_splits)
      then show ?thesis using Cons.IH Cons.prems(2-4) by blast
    next
      case True
      let ?h = "stamped (pt_epoch_secs t) (pt_epoch_micros t) (up_seq u)"
      obtain hdr where hdr: "udp_encode ?h (take UDP_HEADER_LEN (up_packet u)) = Inr hdr"
        and l: "length (hdr @ drop UDP_HEADER_LEN (up_packet u)) = len"
        and d: "udp_decode (take UDP_HEADER_LEN (hdr @ drop UDP_HEADER_LEN (up_packet u))) = Inr ?h"
        using encode_packet [of "up_packet u" ?h] assms(2) Cons.prems(3) by auto
      let ?p = "hdr @ drop UDP_HEADER_LEN (up_packet u)"
      let ?u = "\<lparr>up_meter = meter_tick tick om len (pt_sent t) (up_meter u),
        up_bucket = bucket_record (of_nat len) (up_bucket u), up_seq = up_seq u + 1, up_packet = ?p,
        up_sock = (up_sock u)\<lparr>us_out := us_out (up_sock u) @ [(?p, peer)]\<rparr>\<rparr>"
      have "udp_send_loop tot tick timer dur om len mb bl peer ts ?u = Finished u'"
        using Cons.prems(1) False True hdr l assms(2) udp_send_to_ok [OF Cons.prems(2), of ?p peer]
        by (auto simp: Let_def split: if_splits)
      moreover have "up_seq ?u = of_nat (Suc k)" using Cons.prems(4) by simp
      ultimately obtain ds where ds: "us_out (up_sock u') = us_out (up_sock ?u) @ map (\<lambda>d. (d, peer)) ds"
        "us_tx (up_sock u') = []" "\<And>i. i < length ds \<Longrightarrow> seq_packet len (Suc k + i) (ds ! i)"
        "tot (mt_receipt (up_meter u')) = tot (mt_receipt (up_meter ?u)) + of_nat (len * length ds)"
        using Cons.IH [of ?u "Suc k"] Cons.prems(2) l by (auto simp del: length_append)
      have "seq_packet len k ?p" using l d Cons.prems(4) by (auto simp: seq_packet_def stamped_def)
      with ds(3) have "seq_packet len (k + i) ((?p # ds) ! i)" if "i < length (?p # ds)" for i
        using that by (cases i) auto
      with ds(1,2,4) tick show ?thesis by (intro exI [of _ "?p # ds"]) (simp add: algebra_simps)
    qed
  qed
qed simp

section \<open>Properties\<close>

text \<open>
  The server counts every byte once: however the kernel cuts a stream into reads, the receipt of
  its reader holds exactly the number of bytes the peer sent, and the interval rows it printed add
  up to the same number.
\<close>

lemma recv_stream_bytes_exact:
  assumes "rx_ok (tcp_rx s)"
  shows "rc_bytes (mt_receipt (recv_stream_bytes omit clk s (Some (reporter_new sid iv)))) =
      of_nat (length (rx_bytes (tcp_rx s))) \<and>
    (\<Sum>row\<leftarrow>mt_rows (recv_stream_bytes omit clk s (Some (reporter_new sid iv))). is_bytes row) =
      of_nat (length (rx_bytes (tcp_rx s)))"
proof -
  let ?init = "\<lparr>mt_receipt = stream_receipt_empty, mt_reporter = Some (reporter_new sid iv), mt_rows = []\<rparr>"
  let ?m = "recv_stream_loop omit clk 0 s ?init"
  have z: "rc_bytes stream_receipt_empty = 0" "rc_last_byte_at stream_receipt_empty = None"
    by (simp_all add: stream_receipt_empty_def)
  have "server_meter.rows_ok ?init"
    by (simp add: server_meter.rows_ok_def reporter_new_inv z) (simp add: reporter_new_def)
  from recv_stream_loop_rows [OF this] obtain rep where
    ok: "server_meter.rows_ok ?m" and rep: "mt_reporter ?m = Some rep" by fastforce
  have b: "rc_bytes (mt_receipt ?m) = of_nat (length (rx_bytes (tcp_rx s)))"
    by (simp add: recv_stream_loop_bytes [OF assms] z)
  from server_meter.flush_rows [OF ok rep] b show ?thesis
    by (simp add: recv_stream_bytes_def)
qed

text \<open>
  The sender is accurate and bounded: when the server's sending thread finishes, the kernel took
  only payload bytes and the receipt counts exactly those, and with a byte limit the total overshoots
  it by less than one write.
\<close>

lemma tcp_sender_bounded:
  assumes "tcp_send_stream opts sid t0 turns s = Finished (m, s')"
    and "co_total_bytes opts = Some mb" and "0 < unat (co_len opts)"
    and "unat mb + unat (co_len opts) \<le> 2 ^ 64"
  shows "(\<exists>k. tcp_out s' = tcp_out s @ replicate k 1 \<and> rc_bytes (mt_receipt m) = of_nat k) \<and>
    unat (rc_bytes (mt_receipt m)) < unat mb + unat (co_len opts)"
proof -
  let ?s = "snd (tcp_apply_tuning (tuning_of_options opts) (snd (tcp_set_nonblocking False s)))"
  let ?m = "\<lparr>mt_receipt = stream_receipt_empty, mt_reporter = Some (reporter_new sid (from_secs 1)), mt_rows = []\<rparr>"
  have run: "tcp_send_loop rc_bytes receipt_tick (timer_new t0)
      (stream_duration (co_time opts) (co_omit opts)) (from_secs (unat (co_omit opts)))
      (unat (co_len opts)) (Some mb) (co_total_blocks opts) turns ?s ?m = Finished (m, s')"
    using assms(1,2) by (simp add: tcp_send_stream_def)
  have out: "tcp_out ?s = tcp_out s" by (simp add: tcp_apply_tuning_def tcp_set_nonblocking_def)
  have z: "rc_bytes (mt_receipt ?m) = 0" by (simp add: stream_receipt_empty_def)
  from server_meter.send_loop_counts [OF run] out z
  have "\<exists>k. tcp_out s' = tcp_out s @ replicate k 1 \<and> rc_bytes (mt_receipt m) = of_nat k" by simp
  moreover have "unat (rc_bytes (mt_receipt m)) < unat mb + unat (co_len opts)"
    by (rule server_meter.send_loop_budget [OF run _ assms(4)]) (use z assms(3) in simp)
  ultimately show ?thesis ..
qed

definition sample_send_opts :: client_options where
  "sample_send_opts = (tcp_defaults 1 1 4)\<lparr>co_total_bytes := Some 5\<rparr>"

definition sample_turn :: "instant \<Rightarrow> send_turn" where
  "sample_turn t = \<lparr>st_head = t, st_sent = t + 1\<rparr>"

text \<open>
  The sender stops on time: as soon as a round finds the test's duration over, the sending thread
  has finished, whatever the socket does; it never panics for a positive write length.
\<close>

lemma tcp_sender_terminates:
  assumes "0 < unat (co_len opts)"
    and "stream_duration (co_time opts) (co_omit opts) \<le> st_head t - t0"
  shows "\<exists>m s'. tcp_send_stream opts sid t0 (pre @ t # post) s = Finished (m, s')"
  unfolding tcp_send_stream_def Let_def
  by (rule server_meter.send_loop_ends [OF _ assms(1)])
    (simp add: should_stop_def timer_is_elapsed_def timer_elapsed_def timer_new_def duration_since_def assms(2))



text \<open>
  A UDP sending thread of the server numbers its packets without a gap: over a socket that
  delivers, it sends packets of the negotiated length with sequence numbers 0, 1, 2 and so on, then
  one sentinel, all to its peer, and its receipt counts the bytes of the data packets.
\<close>

lemma udp_sender_sequence:
  assumes "udp_send_stream opts sid peer t0 t1 turns fin sock = Finished (m, sock')"
    and "us_tx sock = []"
  shows "\<exists>ds sentinel. us_out sock' = us_out sock @ map (\<lambda>d. (d, peer)) (ds @ [sentinel]) \<and>
    (\<forall>i<length ds. seq_packet (max (unat (co_len opts)) 16) i (ds ! i)) \<and>
    (\<exists>h. udp_decode sentinel = Inr h \<and> is_sentinel h) \<and>
    rc_bytes (mt_receipt m) = of_nat (max (unat (co_len opts)) 16 * length ds)"
proof -
  let ?len = "max (unat (co_len opts)) UDP_HEADER_LEN"
  have len: "16 \<le> ?len" by (simp add: UDP_HEADER_LEN_def)
  from assms(1) obtain u where
    run: "udp_send_loop rc_bytes receipt_udp_tick (timer_new t0)
        (stream_duration (co_time opts) (co_omit opts)) (from_secs (unat (co_omit opts))) ?len None None peer turns
        \<lparr>up_meter = \<lparr>mt_receipt = stream_receipt_empty, mt_reporter = Some (reporter_new sid (from_secs 1)), mt_rows = []\<rparr>,
         up_bucket = bucket_new (co_bandwidth opts) t1, up_seq = 0, up_packet = replicate ?len 1, up_sock = sock\<rparr>
        = Finished u"
    and m: "m = up_meter u" and s': "sock' = send_sentinel (fst fin) (snd fin) peer (up_sock u)"
    by (auto simp: udp_send_stream_def Let_def split: run.splits)
  from udp_send_loop_sequence [OF run len, of 0] assms(2) obtain ds where
    ds: "us_out (up_sock u) = us_out sock @ map (\<lambda>d. (d, peer)) ds" "us_tx (up_sock u) = []"
        "\<forall>i<length ds. seq_packet ?len i (ds ! i)"
        "rc_bytes (mt_receipt (up_meter u)) = rc_bytes stream_receipt_empty + of_nat (?len * length ds)"
    by (auto simp: server_udp_meter.tick_total)
  let ?h = "stamped (fst fin) (snd fin) (- 1)"
  obtain pkt where p: "udp_encode ?h (replicate UDP_HEADER_LEN 0) = Inr pkt" "udp_decode pkt = Inr ?h"
    using udp_decode_encode [of "uh_tv_sec ?h" "uh_tv_usec ?h" "uh_seq ?h" "[]"]
    by (simp add: udp_encode_def UDP_HEADER_LEN_def)
  have "us_out sock' = us_out (up_sock u) @ [(pkt, peer)]"
    by (simp add: s' send_sentinel_def p udp_send_to_ok [OF ds(2)])
  moreover have "is_sentinel ?h" by (simp add: is_sentinel_def stamped_def)
  ultimately show ?thesis
    using ds p(2) m
    by (intro exI [of _ ds] exI [of _ pkt]) (simp add: UDP_HEADER_LEN_def stream_receipt_empty_def)
qed

definition sample_udp_sock :: udp_sock where
  "sample_udp_sock = \<lparr>us_rx = [], us_tx = [], us_out = [], us_read_timeout = None\<rparr>"

definition sample_packet_turn :: "instant \<Rightarrow> packet_turn" where
  "sample_packet_turn t = \<lparr>pt_head = t, pt_now = t, pt_epoch_secs = 9, pt_epoch_micros = 0, pt_sent = t\<rparr>"

text \<open>
  The client's UDP receiver does not ignore the server's stream acknowledgment: the four-byte
  datagram that answers its stream-init is counted as a received packet of four bytes, although it
  carries no test data.
\<close>

lemma udp_ack_counted:
  assumes "dt_recv t1 = Inr (length UDP_STREAM_ACK)"
    and "dt_head t1 - t0 < stream_duration (cf_time c) (cf_omit c)"
    and "stream_duration (cf_time c) (cf_omit c) \<le> dt_head t2 - t0"
  shows "\<exists>f sock'. stream_start_udp_recv c cookie sid peer (Inr sock) (Inr ()) t0 [t1, t2] = Finished (f, sock') \<and>
    cr_bytes_sent (sf_receipt f) = 4 \<and> cr_packets (sf_receipt f) = 1"
proof -
  have z: "cr_bytes_sent (client_receipt_empty sid) = 0" "cr_packets (client_receipt_empty sid) = 0"
    by (simp_all add: client_receipt_empty_def)
  show ?thesis
    using assms client_udp_meter.tick_total
    by (simp add: stream_start_udp_recv_def should_stop_def timer_is_elapsed_def timer_elapsed_def
        timer_new_def duration_since_def UDP_STREAM_ACK_def emit_stream_finished_def z
        client_udp_tick_def)
qed

end
