(* ===== verification/Sessions.thy ===== *)
theory Sessions
  imports Wire Udp
begin

text \<open>
  The concurrent server: the per-address counter and the accept loop of \<^verbatim>\<open>src/server.rs\<close>, and
  the session plumbing of \<^verbatim>\<open>src/common/session.rs\<close>.

  The accept loop and the session threads interleave. The loop's handling of one connection is the
  function \<open>accept_one\<close>; a session thread moves through the phases of its closure. The step relation
  \<open>conc_step\<close> interleaves both and labels every step with its event; a panic of a session thread is one.
\<close>

section \<open>Per-address counter\<close>

definition PER_IP_SESSION_CAP :: u32 where
  "PER_IP_SESSION_CAP = 4"

type_synonym per_ip = "ip_addr \<Rightarrow> u32 option"

text \<open>\<open>or_insert(0)\<close> leaves an entry behind even when the slot is refused.\<close>

definition try_acquire :: "u32 \<Rightarrow> ip_addr \<Rightarrow> per_ip \<Rightarrow> bool \<times> per_ip" where
  "try_acquire limit ip m =
     (let count = (case m ip of None \<Rightarrow> 0 | Some c \<Rightarrow> c)
      in if limit \<le> count then (False, m(ip \<mapsto> count)) else (True, m(ip \<mapsto> count + 1)))"

definition drop_handle :: "ip_addr \<Rightarrow> per_ip \<Rightarrow> per_ip" where
  "drop_handle ip m =
     (case m ip of
        None \<Rightarrow> m
      | Some count \<Rightarrow>
          let c = saturating_sub count 1 in if c = 0 then m(ip := None) else m(ip \<mapsto> c))"

definition held :: "per_ip \<Rightarrow> ip_addr \<Rightarrow> nat" where
  "held m ip = (case m ip of None \<Rightarrow> 0 | Some c \<Rightarrow> unat c)"

text \<open>
  What the accept loop needs of a pool of slots: a slot is granted exactly below the cap, a grant and
  a release change one key's count by one, and a refusal changes no count.
\<close>

locale slot_pool =
  fixes acquire :: "'k \<Rightarrow> 'p \<Rightarrow> bool \<times> 'p"
    and release :: "'k \<Rightarrow> 'p \<Rightarrow> 'p"
    and used :: "'p \<Rightarrow> 'k \<Rightarrow> nat"
    and cap :: nat
  assumes acquire_grant: "fst (acquire k p) \<longleftrightarrow> used p k < cap"
    and acquire_used: "used (snd (acquire k p)) j = (if j = k \<and> fst (acquire k p) then used p k + 1 else used p j)"
    and release_used: "used (release k p) j = (if j = k then used p k - 1 else used p j)"
begin

text \<open>A pool keeps track of a list of holders.\<close>

definition tracks :: "'p \<Rightarrow> 'k list \<Rightarrow> bool" where
  "tracks p ks \<longleftrightarrow> (\<forall>k. used p k = count_list ks k)"

lemma tracks_acquire:
  "tracks p ks \<Longrightarrow> acquire k p = (True, p') \<Longrightarrow> tracks p' (ks @ [k])"
  using acquire_used [of k p] by (auto simp: tracks_def)

lemma tracks_refuse: "tracks p ks \<Longrightarrow> acquire k p = (False, p') \<Longrightarrow> tracks p' ks"
  using acquire_used [of k p] by (auto simp: tracks_def)

lemma tracks_release:
  assumes "tracks p (xs @ k # ys)"
  shows "tracks (release k p) (xs @ ys)"
  using assms release_used [of k p] by (auto simp: tracks_def)

lemma tracks_cap:
  "tracks p ks \<Longrightarrow> acquire k p = (True, p') \<Longrightarrow> count_list ks k < cap"
  using acquire_grant [of k p] by (auto simp: tracks_def)

end

lemma held_acquire:
  assumes "unat limit < 2 ^ 32 - 1"
  shows "fst (try_acquire limit k p) \<longleftrightarrow> held p k < unat limit"
    and "held (snd (try_acquire limit k p)) j =
      (if j = k \<and> fst (try_acquire limit k p) then held p k + 1 else held p j)"
proof -
  show g: "fst (try_acquire limit k p) \<longleftrightarrow> held p k < unat limit"
    by (auto simp: try_acquire_def held_def Let_def word_le_nat_alt split: option.splits)
  let ?c = "case p k of None \<Rightarrow> 0 | Some c \<Rightarrow> c"
  have c: "unat ?c = held p k" by (simp add: held_def split: option.splits)
  show "held (snd (try_acquire limit k p)) j =
      (if j = k \<and> fst (try_acquire limit k p) then held p k + 1 else held p j)"
  proof (cases "fst (try_acquire limit k p)")
    case True
    then have "held p k < unat limit" using g by blast
    then have "unat (?c + 1) = held p k + 1" using assms c by (simp add: unat_word_ariths(1))
    moreover have "snd (try_acquire limit k p) = p(k \<mapsto> ?c + 1)"
      using True by (auto simp: try_acquire_def Let_def split: if_splits)
    ultimately show ?thesis using True by (simp add: held_def)
  next
    case False
    then have "snd (try_acquire limit k p) = p(k \<mapsto> ?c)"
      by (auto simp: try_acquire_def Let_def split: if_splits)
    then show ?thesis using False c by (auto simp: held_def)
  qed
qed

lemma held_release: "held (drop_handle k p) j = (if j = k then held p k - 1 else held p j)"
  by (auto simp: drop_handle_def held_def Let_def unat_saturating_sub word_unat_eq_iff
      split: option.splits)

interpretation ip_pool: slot_pool "try_acquire PER_IP_SESSION_CAP" drop_handle held "unat PER_IP_SESSION_CAP"
  by unfold_locales (simp_all add: held_acquire held_release PER_IP_SESSION_CAP_def)

section \<open>Sessions\<close>

text \<open>
  The phases of a session thread: serving, returned from the session (its end of the channel is
  gone), removed from the registry (the address slot is still held).
\<close>

datatype phase = Serving | Returned | Removed

record session =
  sn_cookie :: bytes
  sn_ip :: ip_addr
  sn_control :: tcp
  sn_data_rx :: "tcp list"
  sn_phase :: phase

definition session_new :: "bytes \<Rightarrow> ip_addr \<Rightarrow> tcp \<Rightarrow> session" where
  "session_new cookie ip control = \<lparr>sn_cookie = cookie, sn_ip = ip, sn_control = control,
     sn_data_rx = [], sn_phase = Serving\<rparr>"

text \<open>
  Taking \<open>n\<close> streams off the channel; the queue holds what arrives before each wait runs out.
\<close>

fun accept_streams_from_channel ::
  "nat \<Rightarrow> duration option \<Rightarrow> tcp list \<Rightarrow> tcp list io_result \<times> tcp list" where
  "accept_streams_from_channel 0 timeout q = (Inr [], q)"
| "accept_streams_from_channel (Suc n) timeout [] =
     (Inl (case timeout of Some _ \<Rightarrow> TimedOut | None \<Rightarrow> UnexpectedEof), [])"
| "accept_streams_from_channel (Suc n) timeout (s # q) =
     (case accept_streams_from_channel n timeout q of
        (Inl k, q') \<Rightarrow> (Inl k, q')
      | (Inr ss, q') \<Rightarrow> (Inr (s # ss), q'))"

lemma accept_from_channel_spec:
  "accept_streams_from_channel n timeout q =
     (if n \<le> length q then (Inr (take n q), drop n q)
      else (Inl (case timeout of Some _ \<Rightarrow> TimedOut | None \<Rightarrow> UnexpectedEof), []))"
  by (induction n timeout q rule: accept_streams_from_channel.induct) auto

record conc =
  cc_registry :: "bytes list"
  cc_per_ip :: per_ip
  cc_threads :: "session list"
  cc_ended :: "io_kind option"

definition conc_init :: conc where
  "conc_init = \<lparr>cc_registry = [], cc_per_ip = (\<lambda>_. None), cc_threads = [], cc_ended = None\<rparr>"

text \<open>What becomes of a connection; a refused one carries the socket after the refusal.\<close>

datatype verdict =
  CookieFailed | Attached | ChannelClosed | DeniedFull tcp | DeniedPerIp tcp | Spawned

definition deny :: "tcp \<Rightarrow> tcp" where
  "deny s = snd (send_control_byte tcp_send AccessDenied s)"

text \<open>\<open>handle.data_tx.send(tcp)\<close>: the stream joins the queue of the session that still listens.\<close>

definition push_stream :: "bytes \<Rightarrow> tcp \<Rightarrow> session list \<Rightarrow> session list" where
  "push_stream cookie s = map (\<lambda>t. if sn_cookie t = cookie \<and> sn_phase t = Serving
     then t\<lparr>sn_data_rx := sn_data_rx t @ [s]\<rparr> else t)"

definition route :: "nat \<Rightarrow> bytes \<Rightarrow> tcp \<Rightarrow> ip_addr \<Rightarrow> conc \<Rightarrow> verdict \<times> conc" where
  "route max_concurrent cookie s ip st =
     (if cookie \<in> set (cc_registry st) then
        if list_ex (\<lambda>t. sn_cookie t = cookie \<and> sn_phase t = Serving) (cc_threads st)
        then (Attached, st\<lparr>cc_threads := push_stream cookie s (cc_threads st)\<rparr>)
        else (ChannelClosed, st)
      else if max_concurrent \<le> length (cc_registry st) then (DeniedFull (deny s), st)
      else
        case try_acquire PER_IP_SESSION_CAP ip (cc_per_ip st) of
          (False, m) \<Rightarrow> (DeniedPerIp (deny s), st\<lparr>cc_per_ip := m\<rparr>)
        | (True, m) \<Rightarrow>
            (Spawned, st\<lparr>cc_registry := cc_registry st @ [cookie], cc_per_ip := m,
                        cc_threads := cc_threads st @ [session_new cookie ip s]\<rparr>))"

text \<open>
  One round of \<open>run_concurrent_accept_loop\<close>: \<open>accepted\<close> is what \<open>accept\<close> returns. Its error, or one of the
  two deadline calls, ends the loop.
\<close>

definition accept_one ::
  "nat \<Rightarrow> duration option \<Rightarrow> tcp \<Rightarrow> ip_addr \<Rightarrow> conc \<Rightarrow> (verdict \<times> conc) io_result" where
  "accept_one max_concurrent timeout s ip st =
     (case tcp_set_read_timeout timeout s of
        (Inl k, _) \<Rightarrow> Inl k
      | (Inr _, s1) \<Rightarrow>
        (case tcp_set_write_timeout timeout s1 of
           (Inl k, _) \<Rightarrow> Inl k
         | (Inr _, s2) \<Rightarrow>
           (case recv_cookie tcp_recv s2 of
              (Inl _, _) \<Rightarrow> Inr (CookieFailed, st)
            | (Inr cookie, s3) \<Rightarrow> Inr (route max_concurrent cookie s3 ip st))))"

section \<open>Interleaving\<close>

definition accept_round ::
  "nat \<Rightarrow> duration option \<Rightarrow> (tcp \<times> ip_addr) io_result \<Rightarrow> conc \<Rightarrow> (verdict \<times> conc) io_result" where
  "accept_round max_concurrent timeout accepted st =
     (case accepted of Inl k \<Rightarrow> Inl k | Inr (s, ip) \<Rightarrow> accept_one max_concurrent timeout s ip st)"

text \<open>Several rounds in a row, and the streams that wait for a session.\<close>

fun accept_rounds ::
  "nat \<Rightarrow> duration option \<Rightarrow> (tcp \<times> ip_addr) list \<Rightarrow> conc \<Rightarrow> conc io_result" where
  "accept_rounds max_concurrent timeout [] st = Inr st"
| "accept_rounds max_concurrent timeout (c # cs) st =
     (case accept_round max_concurrent timeout (Inr c) st of
        Inl k \<Rightarrow> Inl k
      | Inr (_, st') \<Rightarrow> accept_rounds max_concurrent timeout cs st')"

definition serving :: "bytes \<Rightarrow> conc \<Rightarrow> session list" where
  "serving cookie st = filter (\<lambda>t. sn_cookie t = cookie \<and> sn_phase t = Serving) (cc_threads st)"

definition session_queue :: "bytes \<Rightarrow> conc \<Rightarrow> tcp list" where
  "session_queue cookie st = concat (map sn_data_rx (serving cookie st))"

text \<open>
  The steps of the accept loop and of the session threads, each named by its event: what \<open>accept\<close> returned,
  or the cookie of the thread that moves. An error of a round ends the loop for good while the threads
  go on; \<open>main\<close> then returns, and the process takes every thread that is left with it.
\<close>

datatype conc_event =
    Accepts "(tcp \<times> ip_addr) io_result" | Takes bytes | Returns bytes | Unregisters bytes
  | Exits bytes | Panics bytes | ProcessExit

inductive conc_step :: "nat \<Rightarrow> duration option \<Rightarrow> conc_event \<Rightarrow> conc \<Rightarrow> conc \<Rightarrow> bool"
  for mx :: nat and timeout :: "duration option" where
  accept: "cc_ended st = None \<Longrightarrow> accept_round mx timeout accepted st = Inr (v, st') \<Longrightarrow>
    conc_step mx timeout (Accepts accepted) st st'"
| ends: "cc_ended st = None \<Longrightarrow> accept_round mx timeout accepted st = Inl k \<Longrightarrow>
    conc_step mx timeout (Accepts accepted) st (st\<lparr>cc_ended := Some k\<rparr>)"
| takes: "cc_threads st = xs @ t # ys \<Longrightarrow> sn_phase t = Serving \<Longrightarrow> sn_data_rx t = d # q \<Longrightarrow>
    conc_step mx timeout (Takes (sn_cookie t)) st (st\<lparr>cc_threads := xs @ t\<lparr>sn_data_rx := q\<rparr> # ys\<rparr>)"
| returns: "cc_threads st = xs @ t # ys \<Longrightarrow> sn_phase t = Serving \<Longrightarrow>
    conc_step mx timeout (Returns (sn_cookie t)) st
      (st\<lparr>cc_threads := xs @ t\<lparr>sn_phase := Returned\<rparr> # ys\<rparr>)"
| unregisters: "cc_threads st = xs @ t # ys \<Longrightarrow> sn_phase t = Returned \<Longrightarrow>
    conc_step mx timeout (Unregisters (sn_cookie t)) st
      (st\<lparr>cc_registry := filter (\<lambda>c. c \<noteq> sn_cookie t) (cc_registry st),
          cc_threads := xs @ t\<lparr>sn_phase := Removed\<rparr> # ys\<rparr>)"
| exits: "cc_threads st = xs @ t # ys \<Longrightarrow> sn_phase t = Removed \<Longrightarrow>
    conc_step mx timeout (Exits (sn_cookie t)) st
      (st\<lparr>cc_per_ip := drop_handle (sn_ip t) (cc_per_ip st), cc_threads := xs @ ys\<rparr>)"
| panics: "cc_threads st = xs @ t # ys \<Longrightarrow> sn_phase t = Serving \<Longrightarrow>
    conc_step mx timeout (Panics (sn_cookie t)) st
      (st\<lparr>cc_per_ip := drop_handle (sn_ip t) (cc_per_ip st), cc_threads := xs @ ys\<rparr>)"
| process_exit: "cc_ended st = Some k \<Longrightarrow>
    conc_step mx timeout ProcessExit st (conc_init\<lparr>cc_ended := Some k\<rparr>)"

inductive_cases conc_stepE
  [consumes 1, case_names accept ends takes returns unregisters exits panics process_exit]:
  "conc_step mx timeout e st st'"
inductive_cases conc_panicE: "conc_step mx timeout (Panics c) st st'"
inductive_cases conc_acceptE [consumes 1, case_names accept ends]: "conc_step mx timeout (Accepts a) st st'"

text \<open>What may follow a state.\<close>

definition conc_next :: "nat \<Rightarrow> duration option \<Rightarrow> conc \<Rightarrow> conc \<Rightarrow> bool" where
  "conc_next mx timeout st st' \<longleftrightarrow> (\<exists>e. conc_step mx timeout e st st')"

inductive conc_reach :: "nat \<Rightarrow> duration option \<Rightarrow> conc \<Rightarrow> bool" for mx :: nat and timeout :: "duration option" where
  init: "conc_reach mx timeout conc_init"
| step: "conc_reach mx timeout st \<Longrightarrow> conc_step mx timeout e st st' \<Longrightarrow> conc_reach mx timeout st'"

text \<open>The invariant of the concurrent server.\<close>

definition conc_inv :: "nat \<Rightarrow> conc \<Rightarrow> bool" where
  "conc_inv mx st \<longleftrightarrow>
     length (cc_registry st) \<le> mx \<and> distinct (cc_registry st) \<and>
     ip_pool.tracks (cc_per_ip st) (map sn_ip (cc_threads st)) \<and>
     (\<forall>ip. count_list (map sn_ip (cc_threads st)) ip \<le> 4) \<and>
     (\<forall>t\<in>set (cc_threads st). sn_phase t \<noteq> Removed \<longrightarrow> sn_cookie t \<in> set (cc_registry st)) \<and>
     distinct (map sn_cookie (filter (\<lambda>t. sn_phase t \<noteq> Removed) (cc_threads st)))"

lemma push_stream_simps [simp]:
  "map sn_ip (push_stream c s ts) = map sn_ip ts" "map sn_cookie (push_stream c s ts) = map sn_cookie ts"
  "map sn_phase (push_stream c s ts) = map sn_phase ts"
  by (simp_all add: push_stream_def)

lemma push_stream_live:
  "map sn_cookie (filter (\<lambda>t. sn_phase t \<noteq> Removed) (push_stream c s ts)) =
     map sn_cookie (filter (\<lambda>t. sn_phase t \<noteq> Removed) ts)"
  "(\<forall>t\<in>set (push_stream c s ts). sn_phase t \<noteq> Removed \<longrightarrow> sn_cookie t \<in> R) \<longleftrightarrow>
     (\<forall>t\<in>set ts. sn_phase t \<noteq> Removed \<longrightarrow> sn_cookie t \<in> R)"
  by (induction ts) (auto simp: push_stream_def)

lemma conc_init_inv [wf_intros]: "conc_inv mx conc_init"
  by (simp add: conc_inv_def conc_init_def ip_pool.tracks_def held_def)

lemma route_inv:
  assumes "conc_inv mx st" and "route mx cookie s ip st = (v, st')"
  shows "conc_inv mx st'"
proof (cases "v = Spawned")
  case True
  with assms(2) obtain m where
    new: "cookie \<notin> set (cc_registry st)" "length (cc_registry st) < mx"
         "try_acquire PER_IP_SESSION_CAP ip (cc_per_ip st) = (True, m)"
         "st' = st\<lparr>cc_registry := cc_registry st @ [cookie], cc_per_ip := m,
                   cc_threads := cc_threads st @ [session_new cookie ip s]\<rparr>"
    by (auto simp: route_def split: if_splits prod.splits bool.splits)
  have tr: "ip_pool.tracks (cc_per_ip st) (map sn_ip (cc_threads st))"
    using assms(1) by (simp add: conc_inv_def)
  from ip_pool.tracks_acquire [OF tr new(3)] have "ip_pool.tracks m (map sn_ip (cc_threads st) @ [ip])" .
  moreover from ip_pool.tracks_cap [OF tr new(3)]
  have "count_list (map sn_ip (cc_threads st)) ip < 4" by (simp add: PER_IP_SESSION_CAP_def)
  ultimately show ?thesis
    using assms(1) new(1,2) by (auto simp: conc_inv_def new(4) session_new_def)
next
  case False
  obtain g m where g: "try_acquire PER_IP_SESSION_CAP ip (cc_per_ip st) = (g, m)" by fastforce
  have "snd (route mx cookie s ip st) = st \<or>
      snd (route mx cookie s ip st) = st\<lparr>cc_threads := push_stream cookie s (cc_threads st)\<rparr> \<or>
      g = False \<and> snd (route mx cookie s ip st) = st\<lparr>cc_per_ip := m\<rparr>"
    using False assms(2) g by (cases g) (simp_all add: route_def split: if_splits)
  then consider "st' = st" | "st' = st\<lparr>cc_threads := push_stream cookie s (cc_threads st)\<rparr>"
    | "try_acquire PER_IP_SESSION_CAP ip (cc_per_ip st) = (False, m)" "st' = st\<lparr>cc_per_ip := m\<rparr>"
    using assms(2) g by auto
  then show ?thesis
  proof cases
    case 3
    have "ip_pool.tracks m (map sn_ip (cc_threads st))"
      using assms(1) ip_pool.tracks_refuse [OF _ 3(1)] by (simp add: conc_inv_def)
    with assms(1) show ?thesis by (simp add: conc_inv_def 3(2))
  qed (use assms(1) in \<open>simp_all add: conc_inv_def push_stream_live\<close>)
qed

lemma accept_round_cases:
  assumes "accept_round mx timeout accepted st = Inr (v, st')"
  obtains "v = CookieFailed" "st' = st" | cookie s' ip where "route mx cookie s' ip st = (v, st')"
  using assms by (auto simp: accept_round_def accept_one_def split: sum.splits prod.splits)

lemma live_cookie_unique:
  assumes "conc_inv mx st" and "cc_threads st = xs @ t # ys" and "sn_phase t \<noteq> Removed"
    and "u \<in> set (xs @ ys)" and "sn_phase u \<noteq> Removed"
  shows "sn_cookie u \<noteq> sn_cookie t"
proof -
  have "sn_cookie t \<notin> sn_cookie ` {x \<in> set (xs @ ys). sn_phase x \<noteq> Removed}"
    using assms(1-3) by (auto simp: conc_inv_def)
  then show ?thesis using assms(4,5) by (metis (mono_tags, lifting) image_eqI mem_Collect_eq)
qed

lemma conc_inv_release:
  assumes "conc_inv mx st" and "cc_threads st = xs @ t # ys"
  shows "conc_inv mx (st\<lparr>cc_per_ip := drop_handle (sn_ip t) (cc_per_ip st), cc_threads := xs @ ys\<rparr>)"
proof -
  have "ip_pool.tracks (cc_per_ip st) (map sn_ip xs @ sn_ip t # map sn_ip ys)"
    using assms by (simp add: conc_inv_def)
  note tr = ip_pool.tracks_release [OF this]
  have "count_list (map sn_ip (xs @ ys)) ip \<le> count_list (map sn_ip (cc_threads st)) ip" for ip
    by (simp add: assms(2))
  also have "count_list (map sn_ip (cc_threads st)) ip \<le> 4" for ip
    using assms(1) by (simp add: conc_inv_def)
  finally have le: "count_list (map sn_ip (xs @ ys)) ip \<le> 4" for ip .
  have d: "distinct (map sn_cookie (filter (\<lambda>t. sn_phase t \<noteq> Removed) (xs @ ys)))"
    using assms by (cases "sn_phase t = Removed") (auto simp: conc_inv_def)
  from assms tr le d show ?thesis by (simp add: conc_inv_def)
qed

lemma conc_step_inv:
  assumes "conc_step mx timeout e st st'" and "conc_inv mx st"
  shows "conc_inv mx st'"
  using assms(1)
proof (cases rule: conc_stepE)
  case (accept accepted v)
  from accept(3) show ?thesis
    by (cases rule: accept_round_cases) (use assms(2) route_inv in auto)
next
  case (ends accepted k)
  with assms(2) show ?thesis by (simp add: conc_inv_def)
next
  case (takes xs t ys d q)
  with assms(2) show ?thesis by (auto simp: conc_inv_def)
next
  case (process_exit k)
  with conc_init_inv [of mx] show ?thesis by (simp add: conc_inv_def)
next
  case (returns xs t ys)
  with assms(2) show ?thesis by (auto simp: conc_inv_def)
next
  case (unregisters xs t ys)
  have "sn_cookie u \<noteq> sn_cookie t" if "u \<in> set (xs @ ys)" "sn_phase u \<noteq> Removed" for u
    using live_cookie_unique [OF assms(2) unregisters(3) _ that] unregisters(4) by simp
  moreover have "length (filter (\<lambda>c. c \<noteq> sn_cookie t) (cc_registry st)) \<le> mx"
    using assms(2) by (intro le_trans [OF length_filter_le]) (simp add: conc_inv_def)
  ultimately show ?thesis
    using assms(2) unregisters by (auto simp: conc_inv_def)
next
  case (exits xs t ys)
  with conc_inv_release [OF assms(2)] show ?thesis by simp
next
  case (panics xs t ys)
  with conc_inv_release [OF assms(2)] show ?thesis by simp
qed

lemma conc_reach_inv: "conc_reach mx timeout st \<Longrightarrow> conc_inv mx st"
  by (induction rule: conc_reach.induct) (auto intro: conc_init_inv conc_step_inv)

lemma serving_single:
  assumes "conc_inv mx st" and "t \<in> set (cc_threads st)" and "sn_phase t = Serving"
  shows "serving (sn_cookie t) st = [t]"
proof -
  from assms(2) obtain xs ys where ts: "cc_threads st = xs @ t # ys" by (auto dest: split_list)
  have "\<not> (sn_cookie u = sn_cookie t \<and> sn_phase u = Serving)" if "u \<in> set (xs @ ys)" for u
    using live_cookie_unique [OF assms(1) ts _ that] assms(3) by auto
  then show ?thesis using assms(3) by (auto simp: serving_def ts filter_empty_conv)
qed

text \<open>A connection with the cookie of a session being served joins the queue of that session.\<close>

lemma route_serving:
  assumes "serving cookie st = [t]" and "cookie \<in> set (cc_registry st)"
  obtains st' where "route mx cookie s ip st = (Attached, st')"
    and "serving cookie st' = [t\<lparr>sn_data_rx := sn_data_rx t @ [s]\<rparr>]"
    and "cc_registry st' = cc_registry st"
proof -
  let ?p = "\<lambda>t. sn_cookie t = cookie \<and> sn_phase t = Serving"
  have "t \<in> set (serving cookie st)" by (simp add: assms(1))
  then have t: "t \<in> set (cc_threads st)" "?p t" by (simp_all add: serving_def)
  then have "list_ex ?p (cc_threads st)" by (auto simp: list_ex_iff)
  then have "route mx cookie s ip st = (Attached, st\<lparr>cc_threads := push_stream cookie s (cc_threads st)\<rparr>)"
    using assms(2) by (simp add: route_def)
  moreover have "filter ?p (push_stream cookie s ts) =
      map (\<lambda>t. t\<lparr>sn_data_rx := sn_data_rx t @ [s]\<rparr>) (filter ?p ts)" for ts
    by (induction ts) (auto simp: push_stream_def)
  then have "serving cookie (st\<lparr>cc_threads := push_stream cookie s (cc_threads st)\<rparr>) =
      [t\<lparr>sn_data_rx := sn_data_rx t @ [s]\<rparr>]"
    using assms(1) by (simp add: serving_def)
  ultimately show thesis by (rule that) simp
qed

lemma accept_round_ended:
  assumes "accept_round mx timeout accepted st = Inr (v, st')"
  shows "cc_ended st' = cc_ended st"
proof -
  have "cc_ended (snd (route mx cookie s ip st)) = cc_ended st" for cookie s ip
    by (auto simp: route_def split: prod.splits bool.splits)
  then show ?thesis using assms by (elim accept_round_cases) (simp, metis snd_conv)
qed

lemma accept_rounds_reach:
  "conc_reach mx timeout st \<Longrightarrow> cc_ended st = None \<Longrightarrow> accept_rounds mx timeout cs st = Inr st' \<Longrightarrow>
   conc_reach mx timeout st' \<and> cc_ended st' = None"
proof (induction cs arbitrary: st)
  case (Cons c cs)
  then obtain v st1 where r: "accept_round mx timeout (Inr c) st = Inr (v, st1)"
    "accept_rounds mx timeout cs st1 = Inr st'" by (auto split: sum.splits)
  have "conc_reach mx timeout st1" using conc_reach.step [OF Cons.prems(1) conc_step.accept [OF Cons.prems(2) r(1)]] .
  then show ?case using Cons.IH [OF _ _ r(2)] accept_round_ended [OF r(1)] Cons.prems(2) by simp
qed simp

text \<open>A registered cookie without a thread that will ever unregister it, as long as the server runs.\<close>

definition leaked :: "bytes \<Rightarrow> conc \<Rightarrow> bool" where
  "leaked c st \<longleftrightarrow> (cc_ended st = None \<longrightarrow> c \<in> set (cc_registry st) \<and>
     (\<forall>t\<in>set (cc_threads st). sn_cookie t = c \<longrightarrow> sn_phase t = Removed))"

lemma push_stream_leaked:
  "(\<forall>t\<in>set (push_stream x s ts). sn_cookie t = c \<longrightarrow> sn_phase t = Removed) \<longleftrightarrow>
   (\<forall>t\<in>set ts. sn_cookie t = c \<longrightarrow> sn_phase t = Removed)"
  by (induction ts) (simp_all add: push_stream_def)

lemma route_leaked:
  assumes "leaked c st" and "route mx cookie s ip st = (v, st')"
  shows "leaked c st'"
proof -
  obtain g m where g: "try_acquire PER_IP_SESSION_CAP ip (cc_per_ip st) = (g, m)" by fastforce
  have "leaked c (snd (route mx cookie s ip st))"
    using assms(1) g
    by (cases g) (simp_all add: route_def leaked_def push_stream_leaked session_new_def, blast?)
  with assms(2) show ?thesis by simp
qed

lemma conc_step_leaked:
  assumes "conc_step mx timeout e st st'" and "leaked c st"
  shows "leaked c st'"
  using assms(1)
proof (cases rule: conc_stepE)
  case (accept accepted v)
  from accept(3) show ?thesis
    by (cases rule: accept_round_cases) (use assms(2) route_leaked in auto)
qed (use assms(2) in \<open>auto simp: leaked_def\<close>)

text \<open>A server with one session being served, reached by one accepted connection.\<close>

definition sample_cookie :: bytes where
  "sample_cookie = replicate 37 65"

definition sample_conc :: conc where
  "sample_conc = \<lparr>cc_registry = [sample_cookie], cc_per_ip = (\<lambda>_. None)(7 \<mapsto> 1),
     cc_threads = [session_new sample_cookie 7 (sample_tcp [])], cc_ended = None\<rparr>"

lemma sample_conc_reach: "conc_reach 2 None sample_conc"
proof (rule conc_reach.step [OF conc_reach.init])
  have chunk: "tcp_recv 37 (sample_tcp [RxData sample_cookie]) = (Inr sample_cookie, sample_tcp [])"
    by (simp add: tcp_recv_def sample_tcp_def sample_cookie_def)
  have "sample_cookie \<noteq> []" "length sample_cookie = 37" by (simp_all add: sample_cookie_def)
  then have "recv_cookie tcp_recv (sample_tcp [RxData sample_cookie]) = (Inr sample_cookie, sample_tcp [])"
    unfolding recv_cookie_def COOKIE_LEN_def by (subst read_exact.simps) (simp add: chunk)
  then have "accept_round 2 None (Inr (sample_tcp [RxData sample_cookie], 7)) conc_init =
      Inr (route 2 sample_cookie (sample_tcp []) 7 conc_init)"
    by (simp add: accept_round_def accept_one_def tcp_set_read_timeout_def tcp_set_write_timeout_def sample_tcp_def)
  moreover have "route 2 sample_cookie (sample_tcp []) 7 conc_init = (Spawned, sample_conc)"
    by (simp add: route_def conc_init_def sample_conc_def try_acquire_def PER_IP_SESSION_CAP_def)
  ultimately show "conc_step 2 None (Accepts (Inr (sample_tcp [RxData sample_cookie], 7))) conc_init sample_conc"
    by (intro conc_step.accept) (simp_all add: conc_init_def)
qed

section \<open>Properties\<close>

text \<open>
  (C19) The session limits hold under every interleaving of connections, session ends and panics:
  never more registered sessions than configured, never more than four session threads per peer
  address, and the counter of each address is exact.
\<close>

theorem session_limits:
  assumes "conc_reach mx timeout st"
  shows "length (cc_registry st) \<le> mx \<and>
    (\<forall>ip. length (filter (\<lambda>t. sn_ip t = ip) (cc_threads st)) \<le> 4 \<and>
          held (cc_per_ip st) ip = length (filter (\<lambda>t. sn_ip t = ip) (cc_threads st)))"
proof -
  have c: "count_list (map sn_ip ts) ip = length (filter (\<lambda>t. sn_ip t = ip) ts)" for ts ip
    by (induction ts) auto
  from conc_reach_inv [OF assms] show ?thesis
    by (simp add: conc_inv_def ip_pool.tracks_def c)
qed

theorem session_limits_witness:
  "length (cc_registry sample_conc) \<le> 2 \<and> held (cc_per_ip sample_conc) 7 = 1 \<and>
   length (filter (\<lambda>t. sn_ip t = 7) (cc_threads sample_conc)) = 1"
  using session_limits [OF sample_conc_reach]
  by (simp add: sample_conc_def session_new_def held_def)

text \<open>
  (C35) Streams reach their own session: a connection that presents the cookie of a session being served
  is queued, with its unread bytes, on exactly that session; nothing else changes and no slot is
  taken. One with an unknown cookie is never attached to anything.
\<close>

theorem stream_demux:
  assumes "conc_reach mx timeout st" and "t \<in> set (cc_threads st)" and "sn_phase t = Serving"
  shows "route mx (sn_cookie t) s ip st =
      (Attached, st\<lparr>cc_threads := map (\<lambda>u. if u = t then u\<lparr>sn_data_rx := sn_data_rx u @ [s]\<rparr> else u) (cc_threads st)\<rparr>) \<and>
    (\<forall>c s' ip'. c \<notin> set (cc_registry st) \<longrightarrow> fst (route mx c s' ip' st) \<noteq> Attached)"
proof
  from conc_reach_inv [OF assms(1)]
  have reg: "sn_cookie t \<in> set (cc_registry st)"
    and d: "distinct (map sn_cookie (filter (\<lambda>t. sn_phase t \<noteq> Removed) (cc_threads st)))"
    using assms(2,3) by (auto simp: conc_inv_def)
  have "u = t" if "u \<in> set (cc_threads st)" "sn_cookie u = sn_cookie t" "sn_phase u = Serving" for u
    using d that assms(2,3) by (auto simp: distinct_map inj_on_def)
  then have "push_stream (sn_cookie t) s (cc_threads st) =
      map (\<lambda>u. if u = t then u\<lparr>sn_data_rx := sn_data_rx u @ [s]\<rparr> else u) (cc_threads st)"
    using assms(3) by (auto simp: push_stream_def)
  moreover have "list_ex (\<lambda>u. sn_cookie u = sn_cookie t \<and> sn_phase u = Serving) (cc_threads st)"
    using assms(2,3) by (auto simp: list_ex_iff)
  ultimately show "route mx (sn_cookie t) s ip st =
      (Attached, st\<lparr>cc_threads := map (\<lambda>u. if u = t then u\<lparr>sn_data_rx := sn_data_rx u @ [s]\<rparr> else u) (cc_threads st)\<rparr>)"
    using reg by (simp add: route_def)
  have "fst (route mx c s' ip' st) \<noteq> Attached" if "c \<notin> set (cc_registry st)" for c s' ip'
    using that by (cases "try_acquire PER_IP_SESSION_CAP ip' (cc_per_ip st)"; cases "fst (try_acquire PER_IP_SESSION_CAP ip' (cc_per_ip st))")
      (simp_all add: route_def)
  then show "\<forall>c s' ip'. c \<notin> set (cc_registry st) \<longrightarrow> fst (route mx c s' ip' st) \<noteq> Attached"
    by blast
qed

theorem stream_demux_witness:
  "fst (route 2 sample_cookie (sample_tcp []) 9 sample_conc) = Attached"
  using stream_demux [OF sample_conc_reach, of "session_new sample_cookie 7 (sample_tcp [])" "sample_tcp []" 9]
  by (simp add: sample_conc_def session_new_def)

text \<open>
  (C40) A panicking session loses its slot for good: only the address counter is given back, the cookie
  stays registered as long as the server runs, and every later connection with it is dropped.
\<close>

theorem panic_leaks_slot:
  assumes "conc_reach mx timeout st" and "conc_step mx timeout (Panics c) st st1"
    and "(conc_next mx timeout)\<^sup>*\<^sup>* st1 st'" and "cc_ended st' = None"
  shows "length (cc_threads st) = Suc (length (cc_threads st1)) \<and>
    (\<exists>t\<in>set (cc_threads st). sn_cookie t = c \<and> cc_per_ip st1 = drop_handle (sn_ip t) (cc_per_ip st)) \<and>
    cc_registry st1 = cc_registry st \<and>
    c \<in> set (cc_registry st') \<and> route mx c s ip st' = (ChannelClosed, st')"
proof -
  from assms(2) obtain xs t ys where t: "cc_threads st = xs @ t # ys" "sn_phase t = Serving"
      "c = sn_cookie t"
      "st1 = st\<lparr>cc_per_ip := drop_handle (sn_ip t) (cc_per_ip st), cc_threads := xs @ ys\<rparr>"
    by (auto elim: conc_panicE)
  note inv = conc_reach_inv [OF assms(1)]
  have "c \<in> set (cc_registry st)" using inv t(1-3) by (simp add: conc_inv_def)
  moreover have "sn_phase u = Removed" if "u \<in> set (xs @ ys)" "sn_cookie u = c" for u
    using live_cookie_unique [OF inv t(1) _ that(1)] t(2,3) that(2) by auto
  ultimately have "leaked c st1" by (simp add: leaked_def t(4))
  with assms(3) have "leaked c st'"
    by (induction rule: rtranclp_induct) (auto simp: conc_next_def intro: conc_step_leaked)
  then have "c \<in> set (cc_registry st') \<and> route mx c s ip st' = (ChannelClosed, st')"
    using assms(4) by (auto simp: leaked_def route_def list_ex_iff)
  moreover have "\<exists>t\<in>set (cc_threads st). sn_cookie t = c \<and> cc_per_ip st1 = drop_handle (sn_ip t) (cc_per_ip st)"
    by (rule bexI [of _ t]) (simp_all add: t)
  ultimately show ?thesis by (simp add: t(1,4))
qed

text \<open>The session of the sample server panics.\<close>

definition sample_panicked :: conc where
  "sample_panicked = sample_conc\<lparr>cc_per_ip := drop_handle 7 (cc_per_ip sample_conc), cc_threads := []\<rparr>"

lemma sample_panics: "conc_step 2 None (Panics sample_cookie) sample_conc sample_panicked"
  using conc_step.panics [of sample_conc "[]" "session_new sample_cookie 7 (sample_tcp [])" "[]" 2 None]
  by (simp add: sample_conc_def sample_panicked_def session_new_def)

theorem panic_leaks_slot_witness:
  "sample_cookie \<in> set (cc_registry sample_panicked) \<and>
   route 2 sample_cookie (sample_tcp []) 9 sample_panicked = (ChannelClosed, sample_panicked)"
  using panic_leaks_slot [OF sample_conc_reach sample_panics, of sample_panicked "sample_tcp []" 9]
  by (simp add: sample_panicked_def sample_conc_def session_new_def)

end
