(* ===== verification/Auth.thy ===== *)
theory Auth
  imports Wire
begin

unbundle bit_operations_syntax

text \<open>
  \<^verbatim>\<open>src/common/auth.rs\<close> and the authentication step of \<^verbatim>\<open>src/server.rs\<close>
  (\<open>check_auth_inner\<close>, \<open>smear_auth_timing\<close>): credentials, tokens, the replay cache and the file of
  authorised users.

  RSA, base64 and SHA-256 are third-party code and parameters of the definitions. The file system
  is a parameter too: a path leads to the mode and the contents of a file. Reasons for a refusal are
  the values of \<open>auth_error\<close>; the texts built from them are only logged.
\<close>

section \<open>Reasons\<close>

datatype auth_error =
    StatFailed | InsecureMode | ReadFailed | KeyParse | KeyTooSmall
  | EmptyField | ControlCharacter | ClockError | EncryptFailed
  | BadBase64 | DecryptFailed | NotUtf8 | MissingTimestamp | BadTimestamp | MissingUsername
  | MissingHash | BadUsername | BadHash | TimestampSkew | Replayed
  | BadLine nat | DuplicateUser nat | MissingToken | AuthFailed

type_synonym 'a auth_result = "auth_error + 'a"

definition TIMESTAMP_SKEW_SECS :: u64 where
  "TIMESTAMP_SKEW_SECS = 10"

definition MIN_RSA_KEY_BYTES :: nat where
  "MIN_RSA_KEY_BYTES = 256"

section \<open>Secret files\<close>

record secret_file =
  sf_mode :: u32
  sf_contents :: "bytes option"

type_synonym file_system = "rstr \<Rightarrow> secret_file option"

text \<open>\<open>mode & 0o077 != 0\<close>: any permission for group or others.\<close>

definition check_secret_file_mode :: "file_system \<Rightarrow> rstr \<Rightarrow> unit auth_result" where
  "check_secret_file_mode fs path =
     (case fs path of
        None \<Rightarrow> Inl StatFailed
      | Some f \<Rightarrow> if sf_mode f AND 63 \<noteq> 0 then Inl InsecureMode else Inr ())"

definition read_to_string :: "file_system \<Rightarrow> rstr \<Rightarrow> rstr option" where
  "read_to_string fs path =
     (case fs path of
        None \<Rightarrow> None
      | Some f \<Rightarrow> (case sf_contents f of None \<Rightarrow> None | Some bs \<Rightarrow> from_utf8 bs))"

text \<open>The two PEM readers and the key size in bytes are the parameters.\<close>

definition parse_key ::
  "(rstr \<Rightarrow> 'k option) \<Rightarrow> (rstr \<Rightarrow> 'k option) \<Rightarrow> ('k \<Rightarrow> nat) \<Rightarrow> rstr \<Rightarrow> 'k auth_result" where
  "parse_key pkcs8 pkcs1 size' pem =
     (case (case pkcs8 pem of Some k \<Rightarrow> Some k | None \<Rightarrow> pkcs1 pem) of
        None \<Rightarrow> Inl KeyParse
      | Some k \<Rightarrow> if size' k < MIN_RSA_KEY_BYTES then Inl KeyTooSmall else Inr k)"

definition load_public_key_pem ::
  "(rstr \<Rightarrow> 'k option) \<Rightarrow> (rstr \<Rightarrow> 'k option) \<Rightarrow> ('k \<Rightarrow> nat) \<Rightarrow> file_system \<Rightarrow> rstr \<Rightarrow> 'k auth_result" where
  "load_public_key_pem pkcs8 pkcs1 size' fs path =
     (case read_to_string fs path of
        None \<Rightarrow> Inl ReadFailed
      | Some pem \<Rightarrow> parse_key pkcs8 pkcs1 size' pem)"

definition load_private_key_pem ::
  "(rstr \<Rightarrow> 'k option) \<Rightarrow> (rstr \<Rightarrow> 'k option) \<Rightarrow> ('k \<Rightarrow> nat) \<Rightarrow> file_system \<Rightarrow> rstr \<Rightarrow> 'k auth_result" where
  "load_private_key_pem pkcs8 pkcs1 size' fs path =
     (case check_secret_file_mode fs path of
        Inl e \<Rightarrow> Inl e
      | Inr _ \<Rightarrow>
          (case read_to_string fs path of
             None \<Rightarrow> Inl ReadFailed
           | Some pem \<Rightarrow> parse_key pkcs8 pkcs1 size' pem))"

section \<open>Replay cache\<close>

record nonce_cache =
  nc_seen :: "bytes \<Rightarrow> instant option"
  nc_ttl :: duration

definition with_ttl :: "duration \<Rightarrow> nonce_cache" where
  "with_ttl ttl = \<lparr>nc_seen = (\<lambda>_. None), nc_ttl = ttl\<rparr>"

definition nonce_cache_new :: nonce_cache where
  "nonce_cache_new = with_ttl (from_secs (unat (TIMESTAMP_SKEW_SECS * 2)))"

definition retain_live :: "instant \<Rightarrow> (bytes \<Rightarrow> instant option) \<Rightarrow> (bytes \<Rightarrow> instant option)" where
  "retain_live now seen =
     (\<lambda>d. case seen d of None \<Rightarrow> None | Some deadline \<Rightarrow> if now < deadline then Some deadline else None)"

definition check_and_record ::
  "(bytes \<Rightarrow> bytes) \<Rightarrow> instant \<Rightarrow> bytes \<Rightarrow> nonce_cache \<Rightarrow> unit auth_result \<times> nonce_cache" where
  "check_and_record sha256 now token c =
     (let digest = sha256 token; seen = retain_live now (nc_seen c)
      in if seen digest \<noteq> None then (Inl Replayed, c\<lparr>nc_seen := seen\<rparr>)
         else (Inr (), c\<lparr>nc_seen := seen(digest \<mapsto> now + nc_ttl c)\<rparr>))"

text \<open>
  Within its time to live an accepted token stays in the cache, whatever else is checked meanwhile.
\<close>

lemma check_and_record_keeps:
  assumes "nc_seen c d = Some dl" and "now < dl"
  shows "nc_seen (snd (check_and_record sha256 now token c)) d = Some dl"
  using assms by (auto simp: check_and_record_def Let_def retain_live_def)

lemma check_and_record_ttl [simp]: "nc_ttl (snd (check_and_record sha256 now token c)) = nc_ttl c"
  by (auto simp: check_and_record_def Let_def)

lemma check_and_record_run_keeps:
  assumes "nc_seen c d = Some dl" and "\<forall>(t, tok)\<in>set evs. t < dl"
  shows "nc_seen (fold (\<lambda>(t, tok) c. snd (check_and_record sha256 t tok c)) evs c) d = Some dl"
  using assms
proof (induction evs arbitrary: c)
  case (Cons e evs)
  then show ?case by (cases e) (auto simp: check_and_record_keeps)
qed simp

section \<open>Tokens\<close>

definition hex_digit :: "nat \<Rightarrow> nat" where
  "hex_digit n = (if n < 10 then 48 + n else 87 + n)"

text \<open>\<open>format!("{:02x}", b)\<close> over the digest.\<close>

definition sha256_hex :: "(bytes \<Rightarrow> bytes) \<Rightarrow> rstr \<Rightarrow> rstr" where
  "sha256_hex sha256 input =
     concat (map (\<lambda>b. [hex_digit (unat b div 16), hex_digit (unat b mod 16)]) (sha256 (as_bytes input)))"

definition validate_credential_field :: "rstr \<Rightarrow> unit auth_result" where
  "validate_credential_field v =
     (if v = [] then Inl EmptyField
      else if list_ex is_control v then Inl ControlCharacter
      else Inr ())"

definition token_payload :: "u64 \<Rightarrow> rstr \<Rightarrow> rstr \<Rightarrow> rstr" where
  "token_payload ts username hash = show_word ts @ [10] @ username @ [10] @ hash"

text \<open>
  \<open>wall\<close> is the Unix time in seconds, \<open>None\<close> before the epoch; \<open>encrypt\<close> is RSA-OAEP with the
  server's public key and fresh randomness.
\<close>

definition build_authtoken ::
  "(bytes \<Rightarrow> bytes) \<Rightarrow> (bytes \<Rightarrow> bytes option) \<Rightarrow> (bytes \<Rightarrow> rstr) \<Rightarrow> u64 option \<Rightarrow> rstr \<Rightarrow> rstr \<Rightarrow>
   rstr auth_result" where
  "build_authtoken sha256 encrypt b64_encode wall username password =
     (case validate_credential_field username of Inl e \<Rightarrow> Inl e | Inr _ \<Rightarrow>
      case validate_credential_field password of Inl e \<Rightarrow> Inl e | Inr _ \<Rightarrow>
      case wall of None \<Rightarrow> Inl ClockError | Some ts \<Rightarrow>
      case encrypt (as_bytes (token_payload ts username (sha256_hex sha256 password))) of
        None \<Rightarrow> Inl EncryptFailed
      | Some c \<Rightarrow> Inr (b64_encode c))"

record auth_claim =
  ac_timestamp :: u64
  ac_username :: rstr
  ac_password_sha256_hex :: rstr

definition decode_authtoken_bytes :: "(bytes \<Rightarrow> bytes option) \<Rightarrow> bytes \<Rightarrow> auth_claim auth_result" where
  "decode_authtoken_bytes decrypt ciphertext =
     (case decrypt ciphertext of None \<Rightarrow> Inl DecryptFailed | Some plain \<Rightarrow>
      case from_utf8 plain of None \<Rightarrow> Inl NotUtf8 | Some s \<Rightarrow>
      let parts = splitn 3 10 s
      in if length parts < 1 then Inl MissingTimestamp else
      case parse_u64 (parts ! 0) of None \<Rightarrow> Inl BadTimestamp | Some ts \<Rightarrow>
      if length parts < 2 then Inl MissingUsername else
      if length parts < 3 then Inl MissingHash else
      let username = parts ! 1; hash = parts ! 2
      in if username = [] \<or> list_ex is_control username then Inl BadUsername
         else if str_len hash \<noteq> 64 \<or> \<not> list_all is_ascii_hexdigit hash then Inl BadHash
         else Inr \<lparr>ac_timestamp = ts, ac_username = username, ac_password_sha256_hex = hash\<rparr>)"

definition decode_authtoken ::
  "(rstr \<Rightarrow> bytes option) \<Rightarrow> (bytes \<Rightarrow> bytes option) \<Rightarrow> rstr \<Rightarrow> auth_claim auth_result" where
  "decode_authtoken b64_decode decrypt token =
     (case b64_decode token of None \<Rightarrow> Inl BadBase64 | Some c \<Rightarrow> decode_authtoken_bytes decrypt c)"

definition validate_timestamp :: "u64 option \<Rightarrow> auth_claim \<Rightarrow> u64 \<Rightarrow> unit auth_result" where
  "validate_timestamp wall claim skew =
     (case wall of
        None \<Rightarrow> Inl ClockError
      | Some now \<Rightarrow> if skew < abs_diff now (ac_timestamp claim) then Inl TimestampSkew else Inr ())"

section \<open>Authorised users\<close>

text \<open>The loop over the lines, with the line number the messages carry.\<close>

fun users_lines ::
  "nat \<Rightarrow> rstr list \<Rightarrow> (rstr \<Rightarrow> rstr option) \<Rightarrow> (rstr \<Rightarrow> rstr option) auth_result" where
  "users_lines n [] m = Inr m"
| "users_lines n (raw # rest) m =
     (let line = trim raw
      in if line = [] \<or> starts_with (lit ''#'') line then users_lines (n + 1) rest m
         else
           let parts = splitn 2 44 line
           in if length parts < 2 then Inl (BadLine (n + 1))
              else
                let user = to_ascii_lowercase (trim (parts ! 0));
                    hash = to_ascii_lowercase (trim (parts ! 1))
                in if str_len hash \<noteq> 64 \<or> \<not> list_all is_ascii_hexdigit hash then Inl (BadLine (n + 1))
                   else if m user \<noteq> None then Inl (DuplicateUser (n + 1))
                   else users_lines (n + 1) rest (m(user \<mapsto> hash)))"

definition load_authorized_users ::
  "file_system \<Rightarrow> rstr \<Rightarrow> (rstr \<Rightarrow> rstr option) auth_result" where
  "load_authorized_users fs path =
     (case check_secret_file_mode fs path of
        Inl e \<Rightarrow> Inl e
      | Inr _ \<Rightarrow>
          (case read_to_string fs path of
             None \<Rightarrow> Inl ReadFailed
           | Some contents \<Rightarrow> users_lines 0 (lines contents) (\<lambda>_. None)))"

definition constant_time_eq :: "bytes \<Rightarrow> bytes \<Rightarrow> bool" where
  "constant_time_eq a b =
     (if length a \<noteq> length b then False
      else foldl (\<lambda>diff (x, y). diff OR (x XOR y)) 0 (zip a b) = 0)"

definition DUMMY_HASH :: rstr where
  "DUMMY_HASH = replicate 64 48"

definition authorize :: "auth_claim \<Rightarrow> (rstr \<Rightarrow> rstr option) \<Rightarrow> unit auth_result" where
  "authorize claim users =
     (let lookup_username = to_ascii_lowercase (ac_username claim);
          claim_hash = to_ascii_lowercase (ac_password_sha256_hex claim);
          expected = (case users lookup_username of None \<Rightarrow> DUMMY_HASH | Some h \<Rightarrow> h);
          matched = constant_time_eq (as_bytes expected) (as_bytes claim_hash);
          user_exists = (users lookup_username \<noteq> None)
      in if matched \<and> user_exists then Inr () else Inl AuthFailed)"

section \<open>The server's check\<close>

text \<open>What the server's check needs of its surroundings.\<close>

record 'k auth_env =
  ae_fs :: file_system
  ae_pkcs8 :: "rstr \<Rightarrow> 'k option"
  ae_pkcs1 :: "rstr \<Rightarrow> 'k option"
  ae_key_size :: "'k \<Rightarrow> nat"
  ae_decrypt :: "'k \<Rightarrow> bytes \<Rightarrow> bytes option"
  ae_b64_decode :: "rstr \<Rightarrow> bytes option"
  ae_sha256 :: "bytes \<Rightarrow> bytes"

definition check_auth_inner ::
  "'k auth_env \<Rightarrow> rstr \<Rightarrow> rstr \<Rightarrow> u64 option \<Rightarrow> instant \<Rightarrow> client_options \<Rightarrow> nonce_cache \<Rightarrow>
   unit auth_result \<times> nonce_cache" where
  "check_auth_inner env pk_path users_path wall now opts cache =
     (case load_private_key_pem (ae_pkcs8 env) (ae_pkcs1 env) (ae_key_size env) (ae_fs env) pk_path of
        Inl e \<Rightarrow> (Inl e, cache) | Inr privkey \<Rightarrow>
      case load_authorized_users (ae_fs env) users_path of Inl e \<Rightarrow> (Inl e, cache) | Inr users \<Rightarrow>
      case co_authtoken opts of None \<Rightarrow> (Inl MissingToken, cache) | Some token \<Rightarrow>
      case ae_b64_decode env token of None \<Rightarrow> (Inl BadBase64, cache) | Some ciphertext \<Rightarrow>
      case decode_authtoken_bytes (ae_decrypt env privkey) ciphertext of
        Inl e \<Rightarrow> (Inl e, cache) | Inr claim \<Rightarrow>
      case validate_timestamp wall claim TIMESTAMP_SKEW_SECS of Inl e \<Rightarrow> (Inl e, cache) | Inr _ \<Rightarrow>
      case check_and_record (ae_sha256 env) now ciphertext cache of
        (Inl e, cache') \<Rightarrow> (Inl e, cache')
      | (Inr _, cache') \<Rightarrow> (authorize claim users, cache'))"

definition AUTH_RESPONSE_FLOOR :: duration where
  "AUTH_RESPONSE_FLOOR = from_millis 100"

text \<open>How long \<open>smear_auth_timing\<close> sleeps when it reads the clock as \<open>now\<close>.\<close>

definition smear_auth_timing :: "instant \<Rightarrow> instant \<Rightarrow> duration" where
  "smear_auth_timing start now =
     (let el = duration_since now start
      in if el < AUTH_RESPONSE_FLOOR then AUTH_RESPONSE_FLOOR - el else 0)"

lemma smear_floor: "AUTH_RESPONSE_FLOOR \<le> duration_since now start + smear_auth_timing start now"
  by (simp add: smear_auth_timing_def Let_def)

section \<open>Lemmas\<close>

lemma word_or_eq_0: "(a :: u8) OR b = 0 \<longleftrightarrow> a = 0 \<and> b = 0"
  by (auto simp: bit_eq_iff bit_or_iff)

lemma word_xor_eq_0: "(a :: u8) XOR b = 0 \<longleftrightarrow> a = b"
  by (auto simp: bit_eq_iff bit_xor_iff)

lemma diff_fold_zero:
  "foldl (\<lambda>diff (x, y). diff OR (x XOR y)) (d :: u8) xs = 0 \<longleftrightarrow> d = 0 \<and> (\<forall>(x, y)\<in>set xs. x = y)"
  by (induction xs arbitrary: d) (auto simp: word_or_eq_0 word_xor_eq_0)

lemma constant_time_eq_iff: "constant_time_eq a b \<longleftrightarrow> a = b"
proof (cases "length a = length b")
  case True
  then have "(\<forall>(x, y)\<in>set (zip a b). x = y) \<longleftrightarrow> a = b"
    by (induction a b rule: list_induct2) auto
  with True show ?thesis by (simp add: constant_time_eq_def diff_fold_zero)
qed (auto simp: constant_time_eq_def)

lemma authorize_iff:
  "authorize claim users = Inr () \<longleftrightarrow>
     (\<exists>h. users (to_ascii_lowercase (ac_username claim)) = Some h \<and>
          as_bytes h = as_bytes (to_ascii_lowercase (ac_password_sha256_hex claim)))"
  by (auto simp: authorize_def Let_def constant_time_eq_iff split: option.splits)

lemma hex_digit_props:
  assumes "n < 16"
  shows "is_ascii_hexdigit (hex_digit n)" "hex_digit n < 128" "hex_digit n \<noteq> 10"
    "ascii_lower (hex_digit n) = hex_digit n"
  using assms by (auto simp: hex_digit_def is_ascii_hexdigit_def ascii_lower_def)

lemma unat_u8_div: "unat (b :: u8) div 16 < 16"
  using unat_bound [of b] by simp

lemma sha256_hex_digits:
  "c \<in> set (sha256_hex sha256 x) \<Longrightarrow> \<exists>n<16. c = hex_digit n"
proof -
  assume "c \<in> set (sha256_hex sha256 x)"
  then obtain b :: u8 where "c = hex_digit (unat b div 16) \<or> c = hex_digit (unat b mod 16)"
    by (auto simp: sha256_hex_def)
  moreover have "unat b mod 16 < 16" by simp
  ultimately show ?thesis using unat_u8_div [of b] by blast
qed

lemma sha256_hex_ascii: "list_all (\<lambda>c. c < 128) (sha256_hex sha256 x)"
  using sha256_hex_digits hex_digit_props(2) by (fastforce simp: list_all_iff)

lemma sha256_hex_length:
  "length (sha256 (as_bytes x)) = 32 \<Longrightarrow> length (sha256_hex sha256 x) = 64"
  by (simp add: sha256_hex_def length_concat comp_def sum_list_triv)

lemma sha256_hex_ok:
  assumes "\<And>b. length (sha256 b) = 32"
  shows "str_len (sha256_hex sha256 x) = 64" "list_all is_ascii_hexdigit (sha256_hex sha256 x)"
    "valid_str (sha256_hex sha256 x)" "to_ascii_lowercase (sha256_hex sha256 x) = sha256_hex sha256 x"
proof -
  show "str_len (sha256_hex sha256 x) = 64"
    by (simp add: str_len_ascii [OF sha256_hex_ascii] sha256_hex_length assms)
  show "list_all is_ascii_hexdigit (sha256_hex sha256 x)"
    using sha256_hex_digits hex_digit_props(1) by (fastforce simp: list_all_iff)
  show "valid_str (sha256_hex sha256 x)"
    using sha256_hex_ascii [of sha256 x] by (auto simp: valid_str_def list_all_iff valid_char_def)
  show "to_ascii_lowercase (sha256_hex sha256 x) = sha256_hex sha256 x"
    unfolding to_ascii_lowercase_def
    using sha256_hex_digits hex_digit_props(4) by (intro map_idI) fastforce
qed

lemma show_word_chars: "c \<in> set (show_word w) \<Longrightarrow> 48 \<le> c \<and> c \<le> 57"
  unfolding show_word_def by (rule dec_digits)

lemma valid_show_word [simp]: "valid_str (show_word w)"
  using show_word_chars [of _ w] by (fastforce simp: valid_str_def list_all_iff valid_char_def)

lemma splitn_payload:
  assumes "10 \<notin> set username"
  shows "splitn 3 10 (token_payload ts username hash) = [show_word ts, username, hash]"
proof -
  have "10 \<notin> set (show_word ts)" using show_word_chars [of 10 ts] by auto
  then show ?thesis
    using assms by (simp add: token_payload_def numeral_3_eq_3 splitn_field del: splitn.simps(3))
qed

lemma validate_credential_iff:
  "validate_credential_field v = Inr () \<longleftrightarrow> v \<noteq> [] \<and> \<not> list_ex is_control v"
  by (simp add: validate_credential_field_def)

lemma decode_payload:
  assumes "decrypt c = Some (as_bytes (token_payload ts username hash))"
    and "valid_str username" and "username \<noteq> []" and "\<not> list_ex is_control username"
    and "valid_str hash" and "str_len hash = 64" and "list_all is_ascii_hexdigit hash"
  shows "decode_authtoken_bytes decrypt c =
    Inr \<lparr>ac_timestamp = ts, ac_username = username, ac_password_sha256_hex = hash\<rparr>"
proof -
  have "valid_str (token_payload ts username hash)"
    using assms(2,5) by (simp add: token_payload_def valid_char_def)
  moreover have "10 \<notin> set username"
    using assms(4) by (auto simp: list_ex_iff is_control_def)
  ultimately show ?thesis
    using assms by (simp add: decode_authtoken_bytes_def splitn_payload Let_def)
qed

lemma decode_claim_clean:
  assumes "decode_authtoken_bytes decrypt c = Inr claim"
  shows "ac_username claim \<noteq> []" "\<not> list_ex is_control (ac_username claim)"
    "str_len (ac_password_sha256_hex claim) = 64" "list_all is_ascii_hexdigit (ac_password_sha256_hex claim)"
  using assms by (auto simp: decode_authtoken_bytes_def Let_def split: option.splits if_splits)

lemma validate_timestamp_iff:
  "validate_timestamp wall claim skew = Inr () \<longleftrightarrow>
     (\<exists>now. wall = Some now \<and> abs_diff now (ac_timestamp claim) \<le> skew)"
  by (auto simp: validate_timestamp_def not_less split: option.splits)

subsection \<open>The users file\<close>

text \<open>A line of the file as an administrator writes it.\<close>

definition user_entry :: "rstr \<times> rstr \<Rightarrow> rstr" where
  "user_entry e = fst e @ [44] @ snd e"

definition entry_ok :: "rstr \<times> rstr \<Rightarrow> bool" where
  "entry_ok e \<longleftrightarrow>
     fst e \<noteq> [] \<and> hd (fst e) \<noteq> 35 \<and> list_all (\<lambda>c. \<not> is_whitespace c \<and> c \<noteq> 44) (fst e) \<and>
     length (snd e) = 64 \<and> list_all is_ascii_hexdigit (snd e)"

definition users_file :: "(rstr \<times> rstr) list \<Rightarrow> rstr" where
  "users_file es = concat (map (\<lambda>e. user_entry e @ [10]) es)"

lemma lines_newline: "10 \<notin> set a \<Longrightarrow> lines (a @ 10 # r) = strip_cr a # lines r"
proof -
  assume "10 \<notin> set a"
  then have "dropWhile (\<lambda>c. c \<noteq> 10) (a @ 10 # r) = 10 # r" "takeWhile (\<lambda>c. c \<noteq> 10) (a @ 10 # r) = a"
    by (auto simp: dropWhile_append takeWhile_append)
  then show ?thesis by (subst lines.simps) simp
qed

lemma dropWhile_hd: "s \<noteq> [] \<Longrightarrow> \<not> P (hd s) \<Longrightarrow> dropWhile P s = s"
  by (cases s) auto

lemma trim_id: "s \<noteq> [] \<Longrightarrow> \<not> is_whitespace (hd s) \<Longrightarrow> \<not> is_whitespace (last s) \<Longrightarrow> trim s = s"
  by (simp add: trim_def trim_start_def dropWhile_hd hd_rev)

lemma trim_no_ws: "list_all (\<lambda>c. \<not> is_whitespace c) s \<Longrightarrow> trim s = s"
proof (cases "s = []")
  case False
  assume "list_all (\<lambda>c. \<not> is_whitespace c) s"
  with False show ?thesis by (intro trim_id) (simp_all add: list_all_iff)
qed (simp add: trim_def trim_start_def)

lemma length_to_ascii_lowercase [simp]: "length (to_ascii_lowercase s) = length s"
  by (simp add: to_ascii_lowercase_def)

lemma hexdigit_props:
  assumes "is_ascii_hexdigit c"
  shows "\<not> is_whitespace c" "c \<noteq> 10" "c \<noteq> 13" "c < 128"
  using assms by (auto simp: is_ascii_hexdigit_def is_whitespace_def)

lemma hex_str:
  assumes "list_all is_ascii_hexdigit h"
  shows "list_all (\<lambda>c. \<not> is_whitespace c) h" "str_len h = length h" "valid_str h"
    "list_all is_ascii_hexdigit (to_ascii_lowercase h)" "str_len (to_ascii_lowercase h) = length h"
proof -
  have a: "list_all (\<lambda>c. c < 128) h" using assms by (auto simp: list_all_iff dest: hexdigit_props(4))
  show "list_all (\<lambda>c. \<not> is_whitespace c) h" using assms by (auto simp: list_all_iff dest: hexdigit_props(1))
  show "str_len h = length h" using a by (rule str_len_ascii)
  show "valid_str h" using a by (auto simp: valid_str_def list_all_iff valid_char_def)
  have b: "is_ascii_hexdigit (ascii_lower c)" if "is_ascii_hexdigit c" for c
    using that by (auto simp: ascii_lower_def is_ascii_hexdigit_def)
  show l: "list_all is_ascii_hexdigit (to_ascii_lowercase h)"
    using assms b by (auto simp: list_all_iff to_ascii_lowercase_def)
  have "list_all (\<lambda>c. c < 128) (to_ascii_lowercase h)"
    using l by (auto simp: list_all_iff dest: hexdigit_props(4))
  then show "str_len (to_ascii_lowercase h) = length h"
    by (simp add: str_len_ascii to_ascii_lowercase_def)
qed

lemma entry_facts:
  assumes "entry_ok e"
  shows "10 \<notin> set (user_entry e)" "strip_cr (user_entry e) = user_entry e"
    "trim (user_entry e) = user_entry e" "\<not> starts_with (lit ''#'') (user_entry e)"
    "user_entry e \<noteq> []" "splitn 2 44 (user_entry e) = [fst e, snd e]"
    "trim (fst e) = fst e" "trim (snd e) = snd e"
proof -
  obtain u h where e: "e = (u, h)" by (cases e)
  from assms have u: "u \<noteq> []" "hd u \<noteq> 35" "list_all (\<lambda>c. \<not> is_whitespace c \<and> c \<noteq> 44) u"
    and h: "length h = 64" "list_all is_ascii_hexdigit h" by (simp_all add: entry_ok_def e)
  have hn: "h \<noteq> []" using h(1) by auto
  have ws10: "is_whitespace 10" "is_whitespace 13" by (simp_all add: is_whitespace_def)
  have uc: "\<not> is_whitespace c \<and> c \<noteq> 44" if "c \<in> set u" for c using u(3) that by (simp add: list_all_iff)
  have hc: "is_ascii_hexdigit c" if "c \<in> set h" for c using h(2) that by (simp add: list_all_iff)
  have lh: "is_ascii_hexdigit (last h)" using hc hn by simp
  show "10 \<notin> set (user_entry e)"
    using uc [of 10] hc [of 10] ws10 hexdigit_props(2) [of 10] by (auto simp: user_entry_def e)
  show "strip_cr (user_entry e) = user_entry e"
    using hn hexdigit_props(3) [OF lh] by (simp add: strip_cr_def user_entry_def e)
  show "trim (user_entry e) = user_entry e"
    using u(1) uc [of "hd u"] hn hexdigit_props(1) [OF lh] by (intro trim_id) (simp_all add: user_entry_def e)
  show "\<not> starts_with (lit ''#'') (user_entry e)"
    using u(1,2) by (cases u) (auto simp: user_entry_def e lit_def)
  show "user_entry e \<noteq> []" by (simp add: user_entry_def)
  have "44 \<notin> set u" using uc by blast
  then show "splitn 2 44 (user_entry e) = [fst e, snd e]"
    by (simp add: user_entry_def e numeral_2_eq_2 splitn_field del: splitn.simps(3))
  show "trim (fst e) = fst e" using uc by (intro trim_no_ws) (simp add: e list_all_iff)
  show "trim (snd e) = snd e" using hex_str(1) [OF h(2)] by (intro trim_no_ws) (simp add: e)
qed

lemma users_lines_entry:
  assumes "entry_ok e" and "m (to_ascii_lowercase (fst e)) = None"
  shows "users_lines n (user_entry e # rest) m =
    users_lines (n + 1) rest (m(to_ascii_lowercase (fst e) \<mapsto> to_ascii_lowercase (snd e)))"
proof -
  have "list_all is_ascii_hexdigit (snd e)" "length (snd e) = 64"
    using assms(1) by (simp_all add: entry_ok_def)
  then show ?thesis
    using assms(2) entry_facts [OF assms(1)] by (simp add: hex_str Let_def)
qed

abbreviation lower_entry :: "rstr \<times> rstr \<Rightarrow> rstr \<times> rstr" where
  "lower_entry e \<equiv> (to_ascii_lowercase (fst e), to_ascii_lowercase (snd e))"

lemma users_lines_entries:
  assumes "list_all entry_ok es" and "distinct (map (to_ascii_lowercase \<circ> fst) es)"
    and "\<forall>e\<in>set es. m (to_ascii_lowercase (fst e)) = None"
  shows "users_lines n (map user_entry es) m = Inr (m ++ map_of (map lower_entry es))"
  using assms
proof (induction es arbitrary: n m)
  case (Cons e es)
  let ?m = "m(to_ascii_lowercase (fst e) \<mapsto> to_ascii_lowercase (snd e))"
  have "\<forall>x\<in>set es. ?m (to_ascii_lowercase (fst x)) = None"
    using Cons.prems(2,3) by (auto simp: image_iff)
  with Cons have run: "users_lines (n + 1) (map user_entry es) ?m = Inr (?m ++ map_of (map lower_entry es))"
    by simp
  have eq: "?m ++ map_of (map lower_entry es) = m ++ map_of (map lower_entry (e # es))"
  proof -
    have "map_of (map lower_entry es) (to_ascii_lowercase (fst e)) = None"
      using Cons.prems(2) by (auto simp: map_of_eq_None_iff image_iff)
    then show ?thesis by (auto simp: map_add_def fun_eq_iff split: option.splits)
  qed
  have step: "users_lines n (map user_entry (e # es)) m = users_lines (n + 1) (map user_entry es) ?m"
    using Cons.prems users_lines_entry [of e m n "map user_entry es"] by (simp del: users_lines.simps)
  show ?case unfolding step run eq ..
qed simp

lemma lines_users_file: "list_all entry_ok es \<Longrightarrow> lines (users_file es) = map user_entry es"
proof (induction es)
  case (Cons e es)
  then have "lines (user_entry e @ 10 # users_file es) = strip_cr (user_entry e) # lines (users_file es)"
    using entry_facts(1) by (intro lines_newline) simp
  with Cons show ?case by (simp add: users_file_def entry_facts(2))
qed (simp add: users_file_def lines.simps)

lemma valid_users_file:
  "list_all entry_ok es \<Longrightarrow> \<forall>e\<in>set es. valid_str (fst e) \<Longrightarrow> valid_str (users_file es)"
  by (induction es)
    (auto simp: users_file_def user_entry_def entry_ok_def hex_str(3) valid_char_def)

subsection \<open>The server's check\<close>

lemma check_auth_inner_iff:
  "check_auth_inner env pk up wall t opts c = (Inr (), c') \<longleftrightarrow>
   (\<exists>key users token ct claim.
      load_private_key_pem (ae_pkcs8 env) (ae_pkcs1 env) (ae_key_size env) (ae_fs env) pk = Inr key \<and>
      load_authorized_users (ae_fs env) up = Inr users \<and> co_authtoken opts = Some token \<and>
      ae_b64_decode env token = Some ct \<and> decode_authtoken_bytes (ae_decrypt env key) ct = Inr claim \<and>
      validate_timestamp wall claim TIMESTAMP_SKEW_SECS = Inr () \<and>
      check_and_record (ae_sha256 env) t ct c = (Inr (), c') \<and> authorize claim users = Inr ())"
  by (auto simp: check_auth_inner_def split: sum.splits option.splits prod.splits)

lemma check_and_record_ok_iff:
  "fst (check_and_record sha256 t ct c) = Inr () \<longleftrightarrow>
     (case nc_seen c (sha256 ct) of None \<Rightarrow> True | Some dl \<Rightarrow> dl \<le> t)"
  by (auto simp: check_and_record_def Let_def retain_live_def not_less split: option.splits)

lemma check_and_record_ok_seen:
  "fst (check_and_record sha256 t ct c) = Inr () \<Longrightarrow>
     nc_seen (snd (check_and_record sha256 t ct c)) (sha256 ct) = Some (t + nc_ttl c)"
  by (auto simp: check_and_record_def Let_def)

lemma load_users_file:
  assumes "fs path = Some \<lparr>sf_mode = md, sf_contents = Some (as_bytes (users_file es))\<rparr>"
    and "md AND 63 = 0" and "list_all entry_ok es" and "\<forall>e\<in>set es. valid_str (fst e)"
    and "distinct (map (to_ascii_lowercase \<circ> fst) es)"
  shows "load_authorized_users fs path = Inr (map_of (map lower_entry es))"
proof -
  have "users_lines 0 (map user_entry es) (\<lambda>_. None) = Inr (map_of (map lower_entry es))"
    using users_lines_entries [OF assms(3,5), of "\<lambda>_. None" 0] by simp
  then show ?thesis
    using assms(1,2)
    by (simp add: load_authorized_users_def check_secret_file_mode_def read_to_string_def
        valid_users_file [OF assms(3,4)] lines_users_file [OF assms(3)])
qed

section \<open>Properties\<close>

text \<open>
  The constant-time comparison decides equality, so authorisation succeeds exactly when the
  user, compared without regard to ASCII case, is listed with the claimed password hash. An unknown
  user is refused even with the hash that stands in for the missing entry.
\<close>

lemma authorize_exact:
  assumes "valid_str (ac_password_sha256_hex claim)" and "\<forall>u h. users u = Some h \<longrightarrow> valid_str h"
  shows "authorize claim users = Inr () \<longleftrightarrow>
    users (to_ascii_lowercase (ac_username claim)) =
      Some (to_ascii_lowercase (ac_password_sha256_hex claim))"
  unfolding authorize_iff using assms by (metis as_bytes_inject valid_to_ascii_lowercase)

text \<open>
  A token made by the client is read back by the server as the same timestamp, user and password
  hash, whatever the user name and the password are made of, provided decryption undoes encryption
  and base64 decoding undoes encoding. A name or password with a control character, with which an
  extra field could be smuggled in, is refused.
\<close>

lemma authtoken_roundtrip:
  assumes "\<And>m c. encrypt m = Some c \<Longrightarrow> decrypt c = Some m"
    and "\<And>b. b64_decode (b64_encode b) = Some b" and "\<And>b. length (sha256 b) = 32"
    and "valid_str username"
    and "build_authtoken sha256 encrypt b64_encode (Some ts) username password = Inr token"
  shows "decode_authtoken b64_decode decrypt token =
      Inr \<lparr>ac_timestamp = ts, ac_username = username,
           ac_password_sha256_hex = sha256_hex sha256 password\<rparr> \<and>
    \<not> list_ex is_control username \<and> \<not> list_ex is_control password"
proof -
  from assms(5) obtain c where
    v: "validate_credential_field username = Inr ()" "validate_credential_field password = Inr ()"
    and c: "encrypt (as_bytes (token_payload ts username (sha256_hex sha256 password))) = Some c"
    and t: "token = b64_encode c"
    by (auto simp: build_authtoken_def split: sum.splits option.splits)
  from v have u: "username \<noteq> []" "\<not> list_ex is_control username" "\<not> list_ex is_control password"
    by (simp_all add: validate_credential_iff)
  show ?thesis
    using decode_payload [of decrypt, OF assms(1) [OF c] assms(4) u(1,2) sha256_hex_ok(3,1,2) [of sha256, OF assms(3)]] u
    by (simp add: decode_authtoken_def t assms(2))
qed

text \<open>
  No injected fields: whatever ciphertext arrives, a claim the server reads from it names a user
  without control characters and carries a hash of 64 hexadecimal digits.
\<close>

lemma decoded_claim_clean:
  assumes "decode_authtoken_bytes decrypt ct = Inr claim"
  shows "ac_username claim \<noteq> [] \<and> list_all (\<lambda>c. \<not> is_control c) (ac_username claim) \<and>
    length (ac_password_sha256_hex claim) = 64 \<and>
    list_all is_ascii_hexdigit (ac_password_sha256_hex claim)"
  using decode_claim_clean [OF assms] hex_str(2) [of "ac_password_sha256_hex claim"]
  by (auto simp: list_ex_iff list_all_iff)

text \<open>
  Replay protection: once a token is accepted at time \<open>t\<close>, every later check of the same token
  before \<open>t\<close> plus the cache's time to live is refused, whatever tokens are checked in between.
\<close>

lemma replay_rejected:
  assumes "check_and_record sha256 t token c = (Inr (), c1)"
    and "\<forall>(u, tok)\<in>set evs. u < t + nc_ttl c" and "t' < t + nc_ttl c"
    and "c2 = fold (\<lambda>(u, tok) c. snd (check_and_record sha256 u tok c)) evs c1"
  shows "fst (check_and_record sha256 t' token c2) = Inl Replayed"
proof -
  have "nc_seen c1 (sha256 token) = Some (t + nc_ttl c)"
    using check_and_record_ok_seen [of sha256 t token c] assms(1) by simp
  from check_and_record_run_keeps [OF this assms(2)] assms(4)
  have "nc_seen c2 (sha256 token) = Some (t + nc_ttl c)" by simp
  with assms(3) show ?thesis by (simp add: check_and_record_def Let_def retain_live_def)
qed

text \<open>
  The users file is read as written: a file with one \<open>user,hash\<close> line per user, readable by its
  owner only, yields exactly the listed users with their hashes, both in lower case. A file any
  other user may access is refused before its contents are looked at.
\<close>

lemma users_file_loaded:
  assumes "fs path = Some \<lparr>sf_mode = md, sf_contents = Some (as_bytes (users_file es))\<rparr>"
    and "list_all entry_ok es" and "\<forall>e\<in>set es. valid_str (fst e)"
    and "distinct (map (to_ascii_lowercase \<circ> fst) es)"
  shows "load_authorized_users fs path =
    (if md AND 63 = 0
     then Inr (map_of (map (\<lambda>e. (to_ascii_lowercase (fst e), to_ascii_lowercase (snd e))) es))
     else Inl InsecureMode)"
proof (cases "md AND 63 = 0")
  case True
  with load_users_file [of fs, OF assms(1) True assms(2-4)] show ?thesis by simp
next
  case False
  with assms(1) show ?thesis by (simp add: load_authorized_users_def check_secret_file_mode_def)
qed

text \<open>
  (C20) Only authenticated peers pass: when the server's check succeeds, the token decrypted to a claim
  whose timestamp is within ten seconds of the server's clock, whose user is listed with the claimed
  hash, and whose ciphertext was not live in the replay cache; it is now.
\<close>

theorem check_auth_sound:
  assumes "check_auth_inner env pk up wall t opts c = (Inr (), c')"
  shows "\<exists>key users token ct claim now h.
    co_authtoken opts = Some token \<and> ae_b64_decode env token = Some ct \<and>
    decode_authtoken_bytes (ae_decrypt env key) ct = Inr claim \<and>
    wall = Some now \<and> unat (abs_diff now (ac_timestamp claim)) \<le> 10 \<and>
    load_authorized_users (ae_fs env) up = Inr users \<and>
    users (to_ascii_lowercase (ac_username claim)) = Some h \<and>
    as_bytes h = as_bytes (to_ascii_lowercase (ac_password_sha256_hex claim)) \<and>
    (\<forall>dl. nc_seen c (ae_sha256 env ct) = Some dl \<longrightarrow> dl \<le> t) \<and>
    nc_seen c' (ae_sha256 env ct) = Some (t + nc_ttl c)"
proof -
  from assms obtain key users token ct claim where
    a: "load_authorized_users (ae_fs env) up = Inr users" "co_authtoken opts = Some token"
       "ae_b64_decode env token = Some ct" "decode_authtoken_bytes (ae_decrypt env key) ct = Inr claim"
    and v: "validate_timestamp wall claim TIMESTAMP_SKEW_SECS = Inr ()"
    and r: "check_and_record (ae_sha256 env) t ct c = (Inr (), c')" and z: "authorize claim users = Inr ()"
    unfolding check_auth_inner_iff by blast
  from v obtain now where "wall = Some now" "abs_diff now (ac_timestamp claim) \<le> 10"
    by (auto simp: validate_timestamp_iff TIMESTAMP_SKEW_SECS_def)
  moreover from this(2) have "unat (abs_diff now (ac_timestamp claim)) \<le> 10"
    by (simp add: word_le_nat_alt)
  moreover from z obtain h where "users (to_ascii_lowercase (ac_username claim)) = Some h"
    "as_bytes h = as_bytes (to_ascii_lowercase (ac_password_sha256_hex claim))"
    by (auto simp: authorize_iff)
  moreover have "nc_seen c (ae_sha256 env ct) = Some dl \<Longrightarrow> dl \<le> t" for dl
    using check_and_record_ok_iff [of "ae_sha256 env" t ct c] r by simp
  moreover have "nc_seen c' (ae_sha256 env ct) = Some (t + nc_ttl c)"
    using check_and_record_ok_seen [of "ae_sha256 env" t ct c] r by simp
  ultimately show ?thesis using a by blast
qed

text \<open>The surroundings of the witnesses: a key that does not encrypt and one registered user.\<close>

definition sample_env :: "unit auth_env" where
  "sample_env = \<lparr>
     ae_fs = (\<lambda>p. if p = lit ''k'' then Some \<lparr>sf_mode = 384, sf_contents = Some []\<rparr>
                  else Some \<lparr>sf_mode = 384, sf_contents = Some (as_bytes (users_file [(lit ''bob'', DUMMY_HASH)]))\<rparr>),
     ae_pkcs8 = (\<lambda>_. Some ()), ae_pkcs1 = (\<lambda>_. None), ae_key_size = (\<lambda>_. 256),
     ae_decrypt = (\<lambda>_. Some), ae_b64_decode = (\<lambda>t. Some (map of_nat t)), ae_sha256 = (\<lambda>b. b)\<rparr>"

definition sample_token :: "u64 \<Rightarrow> client_options" where
  "sample_token ts = (tcp_defaults 10 1 131072)\<lparr>co_authtoken :=
     Some (map unat (as_bytes (token_payload ts (lit ''bob'') DUMMY_HASH)))\<rparr>"

lemma dummy_hash:
  "list_all is_ascii_hexdigit DUMMY_HASH" "length DUMMY_HASH = 64" "valid_str DUMMY_HASH"
  "str_len DUMMY_HASH = 64" "to_ascii_lowercase DUMMY_HASH = DUMMY_HASH"
proof -
  show a: "list_all is_ascii_hexdigit DUMMY_HASH" "length DUMMY_HASH = 64"
    by (simp_all add: DUMMY_HASH_def list_all_iff is_ascii_hexdigit_def)
  show "valid_str DUMMY_HASH" "str_len DUMMY_HASH = 64"
    using hex_str(2,3) [OF a(1)] a(2) by simp_all
  show "to_ascii_lowercase DUMMY_HASH = DUMMY_HASH"
    by (simp add: to_ascii_lowercase_def ascii_lower_def DUMMY_HASH_def)
qed

lemma sample_decode:
  "decode_authtoken_bytes (ae_decrypt sample_env key) (as_bytes (token_payload ts (lit ''bob'') DUMMY_HASH)) =
     Inr \<lparr>ac_timestamp = ts, ac_username = lit ''bob'', ac_password_sha256_hex = DUMMY_HASH\<rparr>"
  by (intro decode_payload)
    (simp_all add: dummy_hash, simp_all add: sample_env_def lit_def valid_char_def is_control_def)

lemma sample_check:
  assumes "abs_diff wall ts \<le> 10" and "fst (check_and_record (\<lambda>b. b) t
      (as_bytes (token_payload ts (lit ''bob'') DUMMY_HASH)) c) = Inr ()"
  shows "check_auth_inner sample_env (lit ''k'') (lit ''u'') (Some wall) t (sample_token ts) c =
    (Inr (), snd (check_and_record (\<lambda>b. b) t (as_bytes (token_payload ts (lit ''bob'') DUMMY_HASH)) c))"
  unfolding check_auth_inner_iff
proof (intro exI conjI)
  let ?ct = "as_bytes (token_payload ts (lit ''bob'') DUMMY_HASH)"
  let ?claim = "\<lparr>ac_timestamp = ts, ac_username = lit ''bob'', ac_password_sha256_hex = DUMMY_HASH\<rparr>"
  have low: "to_ascii_lowercase (lit ''bob'') = lit ''bob''"
    by (simp add: to_ascii_lowercase_def ascii_lower_def lit_def)
  have nul: "from_utf8 [] = Some []" by (simp add: from_utf8_def utf8_decode.simps)
  show "load_private_key_pem (ae_pkcs8 sample_env) (ae_pkcs1 sample_env) (ae_key_size sample_env)
      (ae_fs sample_env) (lit ''k'') = Inr ()"
    by (simp add: load_private_key_pem_def sample_env_def check_secret_file_mode_def read_to_string_def
        parse_key_def MIN_RSA_KEY_BYTES_def nul)
  have "lit ''u'' \<noteq> lit ''k''" by (simp add: lit_def)
  then show "load_authorized_users (ae_fs sample_env) (lit ''u'') = Inr (map_of (map lower_entry [(lit ''bob'', DUMMY_HASH)]))"
    by (intro load_users_file [where md = 384])
      (simp_all add: sample_env_def entry_ok_def dummy_hash lit_def is_whitespace_def valid_char_def)
  show "co_authtoken (sample_token ts) = Some (map unat ?ct)" by (simp add: sample_token_def)
  show "ae_b64_decode sample_env (map unat ?ct) = Some ?ct" by (simp add: sample_env_def comp_def)
  show "decode_authtoken_bytes (ae_decrypt sample_env ()) ?ct = Inr ?claim"
    by (rule sample_decode)
  show "validate_timestamp (Some wall) ?claim TIMESTAMP_SKEW_SECS = Inr ()"
    using assms(1) by (simp add: validate_timestamp_iff TIMESTAMP_SKEW_SECS_def)
  show "check_and_record (ae_sha256 sample_env) t ?ct c = (Inr (), snd (check_and_record (\<lambda>b. b) t ?ct c))"
    using assms(2) by (simp add: sample_env_def prod_eq_iff)
  show "authorize ?claim (map_of (map lower_entry [(lit ''bob'', DUMMY_HASH)])) = Inr ()"
    by (simp add: authorize_iff low dummy_hash)
qed

theorem check_auth_sound_witness:
  "\<exists>h. map_of [(lit ''bob'', DUMMY_HASH)] (lit ''bob'') = Some h \<and>
     fst (check_auth_inner sample_env (lit ''k'') (lit ''u'') (Some 1000) 5 (sample_token 1003) nonce_cache_new) = Inr ()"
proof -
  have "fst (check_and_record (\<lambda>b. b) 5 (as_bytes (token_payload 1003 (lit ''bob'') DUMMY_HASH)) nonce_cache_new) = Inr ()"
    by (simp add: check_and_record_ok_iff nonce_cache_new_def with_ttl_def)
  from sample_check [OF _ this, of 1000] have s:
    "check_auth_inner sample_env (lit ''k'') (lit ''u'') (Some 1000) 5 (sample_token 1003) nonce_cache_new =
       (Inr (), snd (check_and_record (\<lambda>b. b) 5
         (as_bytes (token_payload 1003 (lit ''bob'') DUMMY_HASH)) nonce_cache_new))"
    by (simp add: abs_diff_def)
  show ?thesis using check_auth_sound [OF s] s by auto
qed

text \<open>
  (C37) The replay cache forgets a token one instant too early. A token whose timestamp is ten seconds
  ahead of the server's clock, accepted once, is accepted again exactly twenty seconds later: the
  timestamp is still within the permitted skew, and the cache entry has just expired.
\<close>

theorem replay_after_ttl:
  assumes first: "check_auth_inner env pk up (Some w) t opts c = (Inr (), c')"
    and ttl: "nc_ttl c = nc_ttl nonce_cache_new"
    and token: "co_authtoken opts = Some token" "ae_b64_decode env token = Some ct"
    and claim: "\<And>key claim. decode_authtoken_bytes (ae_decrypt env key) ct = Inr claim \<Longrightarrow>
      ac_timestamp claim = w + 10"
    and w: "unat w + 20 < 2 ^ 64"
  shows "\<exists>c''. check_auth_inner env pk up (Some (w + 20)) (t + from_secs 20) opts c' = (Inr (), c'')"
proof -
  from first token obtain key users cl where
    a: "load_private_key_pem (ae_pkcs8 env) (ae_pkcs1 env) (ae_key_size env) (ae_fs env) pk = Inr key"
       "load_authorized_users (ae_fs env) up = Inr users"
       "decode_authtoken_bytes (ae_decrypt env key) ct = Inr cl" "authorize cl users = Inr ()"
    and r: "check_and_record (ae_sha256 env) t ct c = (Inr (), c')"
    unfolding check_auth_inner_iff by auto
  have "nc_seen c' (ae_sha256 env ct) = Some (t + from_secs 20)"
    using check_and_record_ok_seen [of "ae_sha256 env" t ct c] r ttl
    by (simp add: nonce_cache_new_def with_ttl_def TIMESTAMP_SKEW_SECS_def)
  then have "fst (check_and_record (ae_sha256 env) (t + from_secs 20) ct c') = Inr ()"
    by (simp add: check_and_record_ok_iff)
  then obtain c'' where r2: "check_and_record (ae_sha256 env) (t + from_secs 20) ct c' = (Inr (), c'')"
    by (metis prod.collapse)
  have u: "unat (w + 20) = unat w + 20" "unat (w + 10) = unat w + 10"
    using w by (simp_all add: unat_word_ariths(1))
  have "unat (abs_diff (w + 20) (ac_timestamp cl)) = 10"
    unfolding claim [OF a(3)] unat_abs_diff u by simp
  then have "abs_diff (w + 20) (ac_timestamp cl) \<le> 10" by (simp add: word_le_nat_alt)
  then have "validate_timestamp (Some (w + 20)) cl TIMESTAMP_SKEW_SECS = Inr ()"
    by (simp add: validate_timestamp_iff TIMESTAMP_SKEW_SECS_def)
  with a token r2 show ?thesis unfolding check_auth_inner_iff by blast
qed

theorem replay_after_ttl_witness:
  "\<exists>c1 c2. check_auth_inner sample_env (lit ''k'') (lit ''u'') (Some 1000) 5 (sample_token 1010) nonce_cache_new =
      (Inr (), c1) \<and>
    check_auth_inner sample_env (lit ''k'') (lit ''u'') (Some 1020) (5 + from_secs 20) (sample_token 1010) c1 =
      (Inr (), c2)"
proof -
  let ?ct = "as_bytes (token_payload 1010 (lit ''bob'') DUMMY_HASH)"
  have "fst (check_and_record (\<lambda>b. b) 5 ?ct nonce_cache_new) = Inr ()"
    by (simp add: check_and_record_ok_iff nonce_cache_new_def with_ttl_def)
  from sample_check [OF _ this, of 1000] obtain c1 where s:
    "check_auth_inner sample_env (lit ''k'') (lit ''u'') (Some 1000) 5 (sample_token 1010) nonce_cache_new = (Inr (), c1)"
    by (simp add: abs_diff_def)
  have t: "co_authtoken (sample_token 1010) = Some (map unat ?ct)" by (simp add: sample_token_def)
  have d: "ae_b64_decode sample_env (map unat ?ct) = Some ?ct" by (simp add: sample_env_def comp_def)
  from replay_after_ttl [OF s refl t d] obtain c2 where
    "check_auth_inner sample_env (lit ''k'') (lit ''u'') (Some (1000 + 20)) (5 + from_secs 20)
       (sample_token 1010) c1 = (Inr (), c2)"
    by (auto simp: sample_decode)
  with s show ?thesis by auto
qed

end
