(* ===== verification/Payload_Json.thy ===== *)
theory Payload_Json
  imports Wire "HOL-Library.Monad_Syntax"
begin

text \<open>
  What the \<open>serde\<close> attributes of \<^verbatim>\<open>src/common/wire.rs\<close> say about the JSON form of
  \<open>ClientOptions\<close> and \<open>Results\<close>: which keys are written and when they are left out
  (\<open>skip_serializing_if\<close>), which keys may be missing on input (\<open>default\<close>), and the documented
  rules of a derived deserialiser (unknown keys are skipped, a repeated key of the struct is an
  error, a struct may also come as an array of its fields in order). The text of the JSON
  document is the business of \<open>serde_json\<close> and not modelled.
\<close>

section \<open>JSON values\<close>

datatype json =
    JNull | JBool bool | JInt int | JNum f64 | JStr rstr
  | JArr "json list" | JObj "(rstr \<times> json) list"

fun de_bool :: "json \<Rightarrow> bool option" where
  "de_bool (JBool b) = Some b"
| "de_bool _ = None"

fun de_str :: "json \<Rightarrow> rstr option" where
  "de_str (JStr s) = Some s"
| "de_str _ = None"

fun de_f64 :: "json \<Rightarrow> f64 option" where
  "de_f64 (JNum x) = Some x"
| "de_f64 (JInt i) = Some (of_int i)"
| "de_f64 _ = None"

fun de_uint :: "json \<Rightarrow> 'a::len word option" where
  "de_uint (JInt i) = (if 0 \<le> i \<and> i < 2 ^ LENGTH('a) then Some (word_of_int i) else None)"
| "de_uint _ = None"

fun de_sint :: "json \<Rightarrow> 'a::len word option" where
  "de_sint (JInt i) =
     (if - (2 ^ (LENGTH('a) - 1)) \<le> i \<and> i < 2 ^ (LENGTH('a) - 1) then Some (word_of_int i) else None)"
| "de_sint _ = None"

definition de_opt :: "(json \<Rightarrow> 'a option) \<Rightarrow> json \<Rightarrow> 'a option option" where
  "de_opt d v = (if v = JNull then Some None else map_option Some (d v))"

definition ser_uint :: "'a::len word \<Rightarrow> json" where
  "ser_uint w = JInt (uint w)"

definition ser_sint :: "'a::len word \<Rightarrow> json" where
  "ser_sint w = JInt (sint w)"

lemma de_uint_ser [simp]: "de_uint (ser_uint w) = Some w"
  by (simp add: ser_uint_def)

lemma de_sint_ser [simp]: "de_sint (ser_sint w) = Some w"
  using sint_range_size [of w] by (simp add: ser_sint_def word_size)

lemma de_opt_ser [simp]:
  "de_opt de_uint (ser_uint w) = Some (Some w)" "de_opt de_str (JStr s) = Some (Some s)"
  by (simp_all add: de_opt_def) (simp add: ser_uint_def)

lemma lit_inject [simp]: "lit s = lit t \<longleftrightarrow> s = t"
proof -
  have "inj (of_char :: char \<Rightarrow> nat)" by (auto intro: injI)
  then show ?thesis by (simp add: lit_def inj_map_eq_map)
qed

section \<open>Fields of a struct\<close>

text \<open>A field is repeated (an error), missing, or there with a value.\<close>

datatype lookup = Dup | Missing | Found json

definition obj_look :: "(rstr \<times> json) list \<Rightarrow> rstr \<Rightarrow> nat \<Rightarrow> lookup" where
  "obj_look fs k i =
     (case filter (\<lambda>p. fst p = k) fs of [] \<Rightarrow> Missing | [p] \<Rightarrow> Found (snd p) | _ \<Rightarrow> Dup)"

definition arr_look :: "json list \<Rightarrow> rstr \<Rightarrow> nat \<Rightarrow> lookup" where
  "arr_look xs k i = (if i < length xs then Found (xs ! i) else Missing)"

fun required :: "(json \<Rightarrow> 'a option) \<Rightarrow> lookup \<Rightarrow> 'a option" where
  "required d (Found v) = d v"
| "required d _ = None"

fun with_default :: "(json \<Rightarrow> 'a option) \<Rightarrow> 'a \<Rightarrow> lookup \<Rightarrow> 'a option" where
  "with_default d x (Found v) = d v"
| "with_default d x Missing = Some x"
| "with_default d x Dup = None"

text \<open>\<open>skip_serializing_if\<close>.\<close>

definition skip_if :: "bool \<Rightarrow> string \<Rightarrow> json \<Rightarrow> (rstr \<times> json) list" where
  "skip_if c k v = (if c then [] else [(lit k, v)])"

definition skip_none :: "string \<Rightarrow> ('a \<Rightarrow> json) \<Rightarrow> 'a option \<Rightarrow> (rstr \<times> json) list" where
  "skip_none k ser x = (case x of None \<Rightarrow> [] | Some a \<Rightarrow> [(lit k, ser a)])"

lemma obj_filter_simps [simp]:
  "filter (\<lambda>p. fst p = lit k) (skip_if c k' v) = (if k = k' \<and> \<not> c then [(lit k, v)] else [])"
  "filter (\<lambda>p. fst p = lit k) (skip_none k' ser x) =
     (if k = k' then (case x of None \<Rightarrow> [] | Some a \<Rightarrow> [(lit k, ser a)]) else [])"
  by (auto simp: skip_if_def skip_none_def split: option.splits)

section \<open>ClientOptions\<close>

definition client_options_keys :: "string list" where
  "client_options_keys =
     [''tcp'', ''omit'', ''time'', ''parallel'', ''len'', ''client_version'', ''udp'', ''bandwidth'',
      ''reverse'', ''bidirectional'', ''window_size'', ''mss'', ''congestion'', ''tos'',
      ''total_bytes'', ''total_blocks'', ''authtoken'']"

definition client_options_fields :: "client_options \<Rightarrow> (rstr \<times> json) list" where
  "client_options_fields p =
     [(lit ''tcp'', JBool (co_tcp p)), (lit ''omit'', ser_uint (co_omit p)),
      (lit ''time'', ser_uint (co_time p)), (lit ''parallel'', ser_uint (co_parallel p)),
      (lit ''len'', ser_uint (co_len p)), (lit ''client_version'', JStr (co_client_version p))] @
     skip_if (\<not> co_udp p) ''udp'' (JBool (co_udp p)) @
     skip_if (is_zero_u64 (co_bandwidth p)) ''bandwidth'' (ser_uint (co_bandwidth p)) @
     skip_if (\<not> co_reverse p) ''reverse'' (JBool (co_reverse p)) @
     skip_if (\<not> co_bidirectional p) ''bidirectional'' (JBool (co_bidirectional p)) @
     skip_none ''window_size'' ser_uint (co_window_size p) @
     skip_none ''mss'' ser_uint (co_mss p) @
     skip_none ''congestion'' JStr (co_congestion p) @
     skip_none ''tos'' ser_uint (co_tos p) @
     skip_none ''total_bytes'' ser_uint (co_total_bytes p) @
     skip_none ''total_blocks'' ser_uint (co_total_blocks p) @
     skip_none ''authtoken'' JStr (co_authtoken p)"

definition client_options_build :: "(rstr \<Rightarrow> nat \<Rightarrow> lookup) \<Rightarrow> client_options option" where
  "client_options_build look = do {
     tcp' \<leftarrow> with_default de_bool False (look (lit ''tcp'') 0);
     omit \<leftarrow> required de_uint (look (lit ''omit'') 1);
     time \<leftarrow> required de_uint (look (lit ''time'') 2);
     parallel \<leftarrow> required de_uint (look (lit ''parallel'') 3);
     len \<leftarrow> required de_uint (look (lit ''len'') 4);
     version \<leftarrow> required de_str (look (lit ''client_version'') 5);
     udp \<leftarrow> with_default de_bool False (look (lit ''udp'') 6);
     bandwidth \<leftarrow> with_default de_uint 0 (look (lit ''bandwidth'') 7);
     reverse \<leftarrow> with_default de_bool False (look (lit ''reverse'') 8);
     bidirectional \<leftarrow> with_default de_bool False (look (lit ''bidirectional'') 9);
     window_size \<leftarrow> with_default (de_opt de_uint) None (look (lit ''window_size'') 10);
     mss \<leftarrow> with_default (de_opt de_uint) None (look (lit ''mss'') 11);
     congestion \<leftarrow> with_default (de_opt de_str) None (look (lit ''congestion'') 12);
     tos \<leftarrow> with_default (de_opt de_uint) None (look (lit ''tos'') 13);
     total_bytes \<leftarrow> with_default (de_opt de_uint) None (look (lit ''total_bytes'') 14);
     total_blocks \<leftarrow> with_default (de_opt de_uint) None (look (lit ''total_blocks'') 15);
     authtoken \<leftarrow> with_default (de_opt de_str) None (look (lit ''authtoken'') 16);
     Some \<lparr>co_tcp = tcp', co_omit = omit, co_time = time, co_parallel = parallel, co_len = len,
       co_client_version = version, co_udp = udp, co_bandwidth = bandwidth, co_reverse = reverse,
       co_bidirectional = bidirectional, co_window_size = window_size, co_mss = mss,
       co_congestion = congestion, co_tos = tos, co_total_bytes = total_bytes,
       co_total_blocks = total_blocks, co_authtoken = authtoken\<rparr> }"

fun client_options_of_json :: "json \<Rightarrow> client_options option" where
  "client_options_of_json (JObj fs) = client_options_build (obj_look fs)"
| "client_options_of_json (JArr xs) =
     (if length xs \<le> length client_options_keys then client_options_build (arr_look xs) else None)"
| "client_options_of_json _ = None"

text \<open>Looking up a key in the written fields, whatever unknown keys follow.\<close>

definition unknown_keys :: "string list \<Rightarrow> (rstr \<times> json) list \<Rightarrow> bool" where
  "unknown_keys ks fs \<longleftrightarrow> (\<forall>p\<in>set fs. fst p \<notin> lit ` set ks)"

lemma filter_unknown: "unknown_keys ks fs \<Longrightarrow> k \<in> set ks \<Longrightarrow> filter (\<lambda>p. fst p = lit k) fs = []"
  by (auto simp: unknown_keys_def filter_empty_conv)

lemma with_default_case [simp]:
  "with_default (de_opt de_uint) None
     (case (case x of None \<Rightarrow> [] | Some a \<Rightarrow> [(k, ser_uint a)]) of [] \<Rightarrow> Missing | [p] \<Rightarrow> Found (snd p) | _ \<Rightarrow> Dup) = Some x"
  "with_default (de_opt de_str) None
     (case (case y of None \<Rightarrow> [] | Some a \<Rightarrow> [(k, JStr a)]) of [] \<Rightarrow> Missing | [p] \<Rightarrow> Found (snd p) | _ \<Rightarrow> Dup) = Some y"
  by (simp_all split: option.splits)

lemma with_default_skip [simp]:
  "with_default de_bool False
     (case (if b then [(k, JBool b)] else []) of [] \<Rightarrow> Missing | [p] \<Rightarrow> Found (snd p) | _ \<Rightarrow> Dup) = Some b"
  "with_default de_uint 0
     (case (if \<not> is_zero_u64 n then [(k, ser_uint n)] else []) of
        [] \<Rightarrow> Missing | [p] \<Rightarrow> Found (snd p) | _ \<Rightarrow> Dup) = Some n"
  by (simp_all add: is_zero_u64_def)

lemma client_options_build_fields:
  assumes "unknown_keys client_options_keys extra"
  shows "client_options_build (obj_look (client_options_fields p @ extra)) = Some p"
  by (simp add: client_options_build_def obj_look_def client_options_fields_def
      filter_unknown [OF assms] client_options_keys_def)

section \<open>Results\<close>

definition stream_results_fields :: "stream_results \<Rightarrow> (rstr \<times> json) list" where
  "stream_results_fields r =
     [(lit ''id'', ser_uint (sr_id r)), (lit ''bytes'', ser_uint (sr_bytes r)),
      (lit ''retransmits'', ser_sint (sr_retransmits r)), (lit ''jitter'', JNum (sr_jitter r)),
      (lit ''errors'', ser_uint (sr_errors r)), (lit ''packets'', ser_uint (sr_packets r))]"

definition stream_results_build :: "(rstr \<Rightarrow> nat \<Rightarrow> lookup) \<Rightarrow> stream_results option" where
  "stream_results_build look = do {
     id' \<leftarrow> required de_uint (look (lit ''id'') 0);
     bytes' \<leftarrow> required de_uint (look (lit ''bytes'') 1);
     retransmits \<leftarrow> required de_sint (look (lit ''retransmits'') 2);
     jitter \<leftarrow> required de_f64 (look (lit ''jitter'') 3);
     errors \<leftarrow> required de_uint (look (lit ''errors'') 4);
     packets \<leftarrow> required de_uint (look (lit ''packets'') 5);
     Some \<lparr>sr_id = id', sr_bytes = bytes', sr_retransmits = retransmits, sr_jitter = jitter,
       sr_errors = errors, sr_packets = packets\<rparr> }"

fun stream_results_of_json :: "json \<Rightarrow> stream_results option" where
  "stream_results_of_json (JObj fs) = stream_results_build (obj_look fs)"
| "stream_results_of_json (JArr xs) =
     (if length xs = 6 then stream_results_build (arr_look xs) else None)"
| "stream_results_of_json _ = None"

fun de_list :: "(json \<Rightarrow> 'a option) \<Rightarrow> json \<Rightarrow> 'a list option" where
  "de_list d (JArr xs) = those (map d xs)"
| "de_list d _ = None"

definition results_fields :: "results \<Rightarrow> (rstr \<times> json) list" where
  "results_fields r =
     [(lit ''cpu_util_total'', JNum (re_cpu_util_total r)),
      (lit ''cpu_util_user'', JNum (re_cpu_util_user r)),
      (lit ''cpu_util_system'', JNum (re_cpu_util_system r)),
      (lit ''sender_has_retransmits'', ser_sint (re_sender_has_retransmits r)),
      (lit ''streams'', JArr (map (JObj \<circ> stream_results_fields) (re_streams r)))]"

definition results_build :: "(rstr \<Rightarrow> nat \<Rightarrow> lookup) \<Rightarrow> results option" where
  "results_build look = do {
     total \<leftarrow> required de_f64 (look (lit ''cpu_util_total'') 0);
     user \<leftarrow> required de_f64 (look (lit ''cpu_util_user'') 1);
     system \<leftarrow> required de_f64 (look (lit ''cpu_util_system'') 2);
     retransmits \<leftarrow> required de_sint (look (lit ''sender_has_retransmits'') 3);
     streams \<leftarrow> required (de_list stream_results_of_json) (look (lit ''streams'') 4);
     Some \<lparr>re_cpu_util_total = total, re_cpu_util_user = user, re_cpu_util_system = system,
       re_sender_has_retransmits = retransmits, re_streams = streams\<rparr> }"

fun results_of_json :: "json \<Rightarrow> results option" where
  "results_of_json (JObj fs) = results_build (obj_look fs)"
| "results_of_json (JArr xs) = (if length xs = 5 then results_build (arr_look xs) else None)"
| "results_of_json _ = None"

lemma stream_results_of_fields [simp]:
  "stream_results_of_json (JObj (stream_results_fields r)) = Some r"
  by (simp add: stream_results_build_def obj_look_def stream_results_fields_def)

lemma those_map_Some: "(\<And>x. x \<in> set xs \<Longrightarrow> f x = Some (g x)) \<Longrightarrow> those (map f xs) = Some (map g xs)"
  by (induction xs) auto

lemma de_streams [simp]:
  "de_list stream_results_of_json (JArr (map (JObj \<circ> stream_results_fields) rs)) = Some rs"
  using those_map_Some [of rs "stream_results_of_json \<circ> (JObj \<circ> stream_results_fields)" "\<lambda>x. x"]
  by (simp del: stream_results_of_json.simps)

section \<open>Properties\<close>

text \<open>
  (C34) What the client writes for any set of options is read back by the server as the same
  options, also when the peer adds keys this version does not know.
\<close>

theorem client_options_json_roundtrip:
  assumes "unknown_keys client_options_keys extra"
  shows "client_options_of_json (JObj (client_options_fields p @ extra)) = Some p"
  using client_options_build_fields [OF assms] by simp

theorem client_options_json_roundtrip_witness:
  "client_options_of_json
     (JObj (client_options_fields (tcp_defaults 10 2 131072) @ [(lit ''get_server_output'', JInt 1)])) =
   Some (tcp_defaults 10 2 131072)"
  by (rule client_options_json_roundtrip) (simp add: unknown_keys_def client_options_keys_def)

lemma results_json_parse: "results_of_json (JObj (results_fields r)) = Some r"
  by (simp add: results_build_def obj_look_def results_fields_def del: de_list.simps)

text \<open>
  The results payload survives its JSON form, every stream of it included.
\<close>

lemma results_json_roundtrip: "results_of_json (JObj (results_fields r)) = Some r"
  by (rule results_json_parse)

text \<open>
  A plain TCP test writes exactly the six keys of the legacy payload, and a payload without
  the \<open>tcp\<close> key, as iperf3 sends it in UDP mode, is read as a UDP test.
\<close>

lemma client_options_legacy:
  "map fst (client_options_fields (tcp_defaults t n l)) =
     map lit [''tcp'', ''omit'', ''time'', ''parallel'', ''len'', ''client_version''] \<and>
   (client_options_of_json (JObj (tl (client_options_fields p))) = Some (p\<lparr>co_tcp := False\<rparr>))"
proof
  show "map fst (client_options_fields (tcp_defaults t n l)) =
      map lit [''tcp'', ''omit'', ''time'', ''parallel'', ''len'', ''client_version'']"
    by (simp add: client_options_fields_def tcp_defaults_def skip_if_def skip_none_def is_zero_u64_def)
  show "client_options_of_json (JObj (tl (client_options_fields p))) = Some (p\<lparr>co_tcp := False\<rparr>)"
    by (simp add: client_options_build_def obj_look_def client_options_fields_def)
qed

end
