(* ===== verification/Report_Text.thy ===== *)
theory Report_Text
  imports Payload_Json Reporting
begin

text \<open>
  Text on the terminal: \<^verbatim>\<open>src/common/format.rs\<close>, the row formats and the title of
  \<^verbatim>\<open>src/common/stream.rs\<close>, \<open>format_summary\<close> of \<^verbatim>\<open>src/server.rs\<close> and the report structs of
  \<^verbatim>\<open>src/common/json_output.rs\<close>. Both programs record the lines they print as values of the type
  \<open>line\<close>; \<open>line_text\<close> is the text of a line.
\<close>

section \<open>Formatting of the standard library\<close>

text \<open>
  \<open>{:.2}\<close> of a float: the nearest hundredth of its exact value, a tie going to the even digit. Integers
  are printed by \<open>dec\<close>; \<open>{:>n}\<close> and \<open>{:<n}\<close> pad with blanks and never cut.
\<close>

definition round_half_even :: "f64 \<Rightarrow> int" where
  "round_half_even x =
     (let f = \<lfloor>x\<rfloor>; r = x - of_int f
      in if r < 1 / 2 \<or> r = 1 / 2 \<and> even f then f else f + 1)"

definition hundredths :: "f64 \<Rightarrow> nat" where
  "hundredths x = nat (round_half_even (\<bar>x\<bar> * 100))"

definition show_fixed2 :: "f64 \<Rightarrow> rstr" where
  "show_fixed2 x =
     (let h = hundredths x
      in (if x < 0 then lit ''-'' else []) @ dec (h div 100) @ lit ''.'' @
         [48 + h div 10 mod 10, 48 + h mod 10])"

definition pad_left :: "nat \<Rightarrow> rstr \<Rightarrow> rstr" where
  "pad_left n s = replicate (n - length s) 32 @ s"

definition pad_right :: "nat \<Rightarrow> rstr \<Rightarrow> rstr" where
  "pad_right n s = s @ replicate (n - length s) 32"

section \<open>Sizes and rates\<close>

definition format_bytes :: "u64 \<Rightarrow> rstr" where
  "format_bytes n =
     (let v = unat n; KIB = 1024 :: nat; MIB = KIB * 1024; GIB = MIB * 1024; TIB = GIB * 1024
      in if TIB \<le> v then show_fixed2 (real v / real TIB) @ lit '' TBytes''
         else if GIB \<le> v then show_fixed2 (real v / real GIB) @ lit '' GBytes''
         else if MIB \<le> v then show_fixed2 (real v / real MIB) @ lit '' MBytes''
         else if KIB \<le> v then show_fixed2 (real v / real KIB) @ lit '' KBytes''
         else dec v @ lit '' Bytes'')"

definition format_bitrate_bps :: "f64 \<Rightarrow> rstr" where
  "format_bitrate_bps b =
     (let K = 1000 :: f64; M = K * 1000; G = M * 1000; T = G * 1000
      in if T \<le> b then show_fixed2 (b / T) @ lit '' Tbits/sec''
         else if G \<le> b then show_fixed2 (b / G) @ lit '' Gbits/sec''
         else if M \<le> b then show_fixed2 (b / M) @ lit '' Mbits/sec''
         else if K \<le> b then show_fixed2 (b / K) @ lit '' Kbits/sec''
         else show_fixed2 b @ lit '' bits/sec'')"

definition format_bitrate :: "u64 \<Rightarrow> f64 \<Rightarrow> rstr" where
  "format_bitrate n dur =
     (let secs = max dur (1 / 1000000) in format_bitrate_bps (real (unat n) * 8 / secs))"

definition format_summary :: "u64 \<Rightarrow> duration \<Rightarrow> nat \<Rightarrow> rstr" where
  "format_summary total_bytes d streams =
     (let secs = max (as_secs_f64 d) (1 / 1000000)
      in format_bytes total_bytes @ lit '' across '' @ dec streams @ lit '' stream(s) in '' @
         show_fixed2 secs @ lit ''s ('' @ format_bitrate total_bytes secs @ lit '')'')"

section \<open>Rows\<close>

definition INTERVAL_HEADER :: rstr where
  "INTERVAL_HEADER = lit ''[ ID] Interval           Transfer     Bitrate''"

definition SUMMARY_SEPARATOR :: rstr where
  "SUMMARY_SEPARATOR = lit ''- - - - - - - - - - - - - - - - - - - - - - - - -''"

definition format_interval_row :: "u32 \<Rightarrow> f64 \<Rightarrow> f64 \<Rightarrow> u64 \<Rightarrow> rstr" where
  "format_interval_row stream_id start_sec end_sec n =
     (let secs = max (end_sec - start_sec) (1 / 1000000); bitrate = real (unat n) * 8 / secs
      in lit ''['' @ pad_left 3 (show_word stream_id) @ lit ''] '' @ pad_left 6 (show_fixed2 start_sec) @
         lit ''-'' @ pad_right 5 (show_fixed2 end_sec) @ lit '' sec  '' @ pad_left 10 (format_bytes n) @
         lit ''  '' @ pad_left 14 (format_bitrate_bps bitrate))"

definition format_summary_row :: "u32 \<Rightarrow> f64 \<Rightarrow> f64 \<Rightarrow> u64 \<Rightarrow> rstr \<Rightarrow> rstr" where
  "format_summary_row stream_id start_sec end_sec n role =
     format_interval_row stream_id start_sec end_sec n @ lit ''  '' @ role"

text \<open>The title is a \<open>OnceLock\<close>: the first value stays.\<close>

definition set_title :: "rstr \<Rightarrow> rstr option \<Rightarrow> rstr option" where
  "set_title title cell = (case cell of None \<Rightarrow> Some title | Some t \<Rightarrow> Some t)"

definition prefix_title :: "rstr option \<Rightarrow> rstr \<Rightarrow> rstr" where
  "prefix_title cell line = (case cell of Some t \<Rightarrow> t @ lit '':  '' @ line | None \<Rightarrow> line)"

section \<open>The JSON report\<close>

record json_connecting_to =
  jc_host :: rstr
  jc_port :: u16

record json_test_start =
  jt_protocol :: rstr
  jt_num_streams :: u32
  jt_blksize :: u32
  jt_duration :: u32
  jt_reverse :: u32
  jt_bidir :: u32

record json_start =
  js_connecting_to :: "json_connecting_to option"
  js_test_start :: json_test_start

record json_end =
  je_sum_sent :: json_sum
  je_sum_received :: json_sum

record json_output =
  jo_start :: json_start
  jo_end :: json_end

text \<open>The derived serialisers.\<close>

definition ser_connecting_to :: "json_connecting_to \<Rightarrow> json" where
  "ser_connecting_to c = JObj [(lit ''host'', JStr (jc_host c)), (lit ''port'', ser_uint (jc_port c))]"

definition ser_test_start :: "json_test_start \<Rightarrow> json" where
  "ser_test_start t = JObj
     [(lit ''protocol'', JStr (jt_protocol t)), (lit ''num_streams'', ser_uint (jt_num_streams t)),
      (lit ''blksize'', ser_uint (jt_blksize t)), (lit ''duration'', ser_uint (jt_duration t)),
      (lit ''reverse'', ser_uint (jt_reverse t)), (lit ''bidir'', ser_uint (jt_bidir t))]"

definition ser_start :: "json_start \<Rightarrow> json" where
  "ser_start s = JObj
     [(lit ''connecting_to'', case js_connecting_to s of None \<Rightarrow> JNull | Some c \<Rightarrow> ser_connecting_to c),
      (lit ''test_start'', ser_test_start (js_test_start s))]"

definition ser_sum :: "json_sum \<Rightarrow> json" where
  "ser_sum s = JObj [(lit ''bytes'', ser_uint (js_bytes s)), (lit ''seconds'', JNum (js_seconds s)),
     (lit ''bits_per_second'', JNum (js_bits_per_second s))]"

definition ser_end :: "json_end \<Rightarrow> json" where
  "ser_end e = JObj [(lit ''sum_sent'', ser_sum (je_sum_sent e)), (lit ''sum_received'', ser_sum (je_sum_received e))]"

definition ser_output :: "json_output \<Rightarrow> json" where
  "ser_output r = JObj [(lit ''start'', ser_start (jo_start r)), (lit ''end'', ser_end (jo_end r))]"

text \<open>\<open>pretty\<close> is \<open>serde_json::to_string_pretty\<close>.\<close>

definition render :: "(json \<Rightarrow> rstr option) \<Rightarrow> json_output \<Rightarrow> rstr" where
  "render pretty r = (case pretty (ser_output r) of None \<Rightarrow> lit ''{}'' | Some s \<Rightarrow> s)"

section \<open>Lines\<close>

datatype role = Sender | Receiver

fun role_text :: "role \<Rightarrow> rstr" where
  "role_text Sender = lit ''sender''"
| "role_text Receiver = lit ''receiver''"

datatype line =
    ConnectingTo rstr u16
  | IntervalHeader
  | IntervalRow interval_snapshot
  | SummarySeparator
  | SummaryRow f64 u64 role
  | RetransmitsLine u64
  | CpuLine cpu_usage
  | JsonReport json_output
  | DoneLine

fun line_text :: "(json \<Rightarrow> rstr option) \<Rightarrow> rstr option \<Rightarrow> line \<Rightarrow> rstr" where
  "line_text pretty title (ConnectingTo host port) =
     lit ''Connecting to host '' @ host @ lit '', port '' @ show_word port"
| "line_text pretty title IntervalHeader = INTERVAL_HEADER"
| "line_text pretty title (IntervalRow s) =
     prefix_title title (format_interval_row (is_stream_id s) (is_start_sec s) (is_end_sec s) (is_bytes s))"
| "line_text pretty title SummarySeparator = SUMMARY_SEPARATOR"
| "line_text pretty title (SummaryRow secs n r) =
     prefix_title title (format_interval_row 1 0 secs n) @ lit ''  '' @ role_text r"
| "line_text pretty title (RetransmitsLine n) = lit ''TCP retransmits: '' @ show_word n"
| "line_text pretty title (CpuLine u) =
     lit ''CPU: '' @ show_fixed2 (total_pct u) @ lit ''% total ('' @ show_fixed2 (user_pct u) @
     lit ''% user, '' @ show_fixed2 (system_pct u) @ lit ''% system)''"
| "line_text pretty title (JsonReport r) = render pretty r"
| "line_text pretty title DoneLine = lit ''rPerf3 Done.''"

end
