(* ===== verification/Server_Protocol.thy ===== *)
theory Server_Protocol
  imports Streams Sessions Auth Report_Text
begin

text \<open>
  The steps of a server session on its control connection: the operations of
  \<^verbatim>\<open>src/server.rs\<close> that talk to one socket, and the pure functions between them. The
  sessions built from them are in \<open>Server\<close>.

  The loops that wait for a message end because each message read shortens the script of the
  socket.
\<close>

section \<open>Limits on the options of a peer\<close>

definition MAX_PARALLEL_STREAMS :: u32 where
  "MAX_PARALLEL_STREAMS = 128"

definition MAX_PAYLOAD_LEN :: u32 where
  "MAX_PAYLOAD_LEN = 1 * 1024 * 1024"

definition MAX_TEST_DURATION_SECS :: u32 where
  "MAX_TEST_DURATION_SECS = 3600"

definition MAX_OMIT_SECS :: u32 where
  "MAX_OMIT_SECS = 300"

definition DEFAULT_HANDSHAKE_TIMEOUT :: duration where
  "DEFAULT_HANDSHAKE_TIMEOUT = from_secs 30"

definition validate_options :: "client_options \<Rightarrow> unit io_result" where
  "validate_options opts =
     (if co_parallel opts = 0 \<or> MAX_PARALLEL_STREAMS < co_parallel opts then Inl InvalidInput
      else if co_len opts = 0 \<or> MAX_PAYLOAD_LEN < co_len opts then Inl InvalidInput
      else if MAX_TEST_DURATION_SECS < co_time opts then Inl InvalidInput
      else if MAX_OMIT_SECS < co_omit opts then Inl InvalidInput
      else case checked_add (co_time opts) (co_omit opts) of
             None \<Rightarrow> Inl InvalidInput
           | Some _ \<Rightarrow> Inr ())"

section \<open>Waiting for control messages\<close>

lemma recv_control_byte_size:
  assumes "recv_control_byte tcp_recv s = (Inr m, s')"
  shows "rx_size (tcp_rx s') < rx_size (tcp_rx s)"
proof -
  from assms obtain b where r: "read_exact tcp_recv 1 s = (Inr b, s')"
    unfolding recv_control_byte_def
    by (elim io_bind_eq_InrE) (auto split: option.splits)
  obtain q s1 where q: "tcp_recv 1 s = (q, s1)" by fastforce
  with r obtain c where c: "q = Inr c" "c \<noteq> []"
    by (subst (asm) read_exact.simps) (auto split: sum.splits if_splits)
  then have "1 - length c = 0" by (cases c) simp_all
  with r q c have "s' = s1" by (subst (asm) read_exact.simps) simp
  with tcp_recv_data_size [of 1 s c s1] q c show ?thesis by simp
qed

text \<open>The loop both waits share: other messages are logged and skipped, an error ends it.\<close>

function await_message :: "(message \<Rightarrow> bool) \<Rightarrow> (tcp, unit) io" where
  "await_message want s =
     (case recv_control_byte tcp_recv s of
        (Inl k, s') \<Rightarrow> (Inl k, s')
      | (Inr m, s') \<Rightarrow> if want m then (Inr (), s') else await_message want s')"
  by pat_completeness auto
termination
  by (relation "measure (\<lambda>(_, s). rx_size (tcp_rx s))")
    (auto dest: recv_control_byte_size [OF sym])

declare await_message.simps [simp del]

definition wait_for_test_end :: "(tcp, unit) io" where
  "wait_for_test_end = await_message (\<lambda>m. m = TestEnd)"

definition finalize_test :: "(tcp, unit) io" where
  "finalize_test =
     io_then (send_control_byte tcp_send DisplayResults)
       (await_message (\<lambda>m. m = IperfDone \<or> m = ClientTerminate))"

definition send_test_start_running :: "(tcp, unit) io" where
  "send_test_start_running =
     io_then (send_control_byte tcp_send TestStart) (send_control_byte tcp_send TestRunning)"

section \<open>Negotiation\<close>

text \<open>
  \<open>dec_opts\<close> is \<open>serde_json::from_slice\<close> at the type of the options.
\<close>

definition negotiate_options :: "(bytes \<Rightarrow> client_options option) \<Rightarrow> (tcp, client_options) io" where
  "negotiate_options dec_opts =
     io_then (send_control_byte tcp_send ParamExchange) (recv_framed_json dec_opts tcp_recv)"

text \<open>
  \<open>AUTH_CONFIG\<close> is written once: later calls of \<open>set_auth_config\<close> are ignored.
\<close>

type_synonym auth_paths = "rstr option \<times> rstr option"

definition set_auth_config :: "rstr option \<Rightarrow> rstr option \<Rightarrow> auth_paths option \<Rightarrow> auth_paths option" where
  "set_auth_config priv_key authorized cfg =
     (case cfg of None \<Rightarrow> Some (priv_key, authorized) | Some c \<Rightarrow> Some c)"

text \<open>
  The state is the control connection and the replay cache. The sleep of \<open>smear_auth_timing\<close>
  precedes the answer in every case and is not part of the state.
\<close>

definition check_auth ::
  "'k auth_env \<Rightarrow> auth_paths option \<Rightarrow> u64 option \<Rightarrow> instant \<Rightarrow> client_options \<Rightarrow>
   (tcp \<times> nonce_cache, unit) io" where
  "check_auth env cfg wall now opts st =
     (case cfg of
        Some (Some pk_path, Some users_path) \<Rightarrow>
          (case check_auth_inner env pk_path users_path wall now opts (snd st) of
             (Inr _, cache) \<Rightarrow> (Inr (), fst st, cache)
           | (Inl _, cache) \<Rightarrow>
               (Inl PermissionDenied, snd (send_control_byte tcp_send AccessDenied (fst st)), cache))
      | _ \<Rightarrow> (Inr (), st))"

section \<open>Accepting connections\<close>

text \<open>A listener is the sequence of what its successive \<open>accept\<close> calls return.\<close>

type_synonym listener = "nat \<Rightarrow> tcp io_result"

definition listener_accept :: "(listener, tcp) io" where
  "listener_accept l = (l 0, \<lambda>i. l (Suc i))"

text \<open>Runs an operation on a socket held in a local variable and keeps the socket.\<close>

definition with_socket :: "'t \<Rightarrow> ('t, 'a) io \<Rightarrow> ('s, 'a \<times> 't) io" where
  "with_socket t m s = (case m t of (Inl k, _) \<Rightarrow> (Inl k, s) | (Inr x, t') \<Rightarrow> (Inr (x, t'), s))"

definition accept_control :: "duration option \<Rightarrow> (listener, tcp \<times> bytes) io" where
  "accept_control handshake_timeout =
     io_bind listener_accept (\<lambda>stream.
     io_bind (with_socket stream
       (io_then (tcp_set_read_timeout handshake_timeout)
       (io_then (tcp_set_write_timeout handshake_timeout) (recv_cookie tcp_recv))))
     (\<lambda>(cookie, control). io_return (control, cookie)))"

text \<open>One round of the loop of \<open>accept_streams_via_listener\<close>, and the loop.\<close>

definition accept_stream :: "bytes \<Rightarrow> duration option \<Rightarrow> (listener, tcp) io" where
  "accept_stream expected_cookie handshake_timeout =
     io_bind listener_accept (\<lambda>stream.
     io_bind (with_socket stream
       (io_then (tcp_set_read_timeout handshake_timeout)
       (io_bind (recv_cookie tcp_recv) (\<lambda>got.
          if got \<noteq> expected_cookie then io_fail InvalidData
          else tcp_set_read_timeout None))))
     (\<lambda>(_, data). io_return data))"

fun accept_streams :: "bytes \<Rightarrow> duration option \<Rightarrow> nat \<Rightarrow> (listener, tcp list) io" where
  "accept_streams cookie timeout 0 = io_return []"
| "accept_streams cookie timeout (Suc n) =
     io_bind (accept_stream cookie timeout) (\<lambda>s.
     io_bind (accept_streams cookie timeout n) (\<lambda>ss. io_return (s # ss)))"

section \<open>Results\<close>

definition is_peer_closed :: "io_kind \<Rightarrow> bool" where
  "is_peer_closed k \<longleftrightarrow> k = UnexpectedEof \<or> k = ConnectionReset \<or> k = BrokenPipe"

definition build_server_results :: "stream_receipt list \<Rightarrow> cpu_usage \<Rightarrow> results" where
  "build_server_results receipts cpu =
     \<lparr>re_cpu_util_total = total_pct cpu, re_cpu_util_user = user_pct cpu,
      re_cpu_util_system = system_pct cpu, re_sender_has_retransmits = 0,
      re_streams = map (\<lambda>(i, r). \<lparr>sr_id = of_nat (i + 1), sr_bytes = rc_bytes r, sr_retransmits = 0,
        sr_jitter = rc_jitter_ms r, sr_errors = rc_lost r, sr_packets = rc_packets r\<rparr>)
        (enumerate 0 receipts)\<rparr>"

definition exchange_results ::
  "(results \<Rightarrow> bytes option) \<Rightarrow> (bytes \<Rightarrow> results option) \<Rightarrow> stream_receipt list \<Rightarrow> cpu_usage \<Rightarrow>
   (tcp, unit) io" where
  "exchange_results enc dec' receipts cpu =
     io_then (send_control_byte tcp_send ExchangeResults)
     (io_then (io_ignore (send_framed_json enc tcp_send (build_server_results receipts cpu)))
     (io_bind (io_try (recv_framed_json dec' tcp_recv)) (\<lambda>read_result.
        case read_result of
          Inl k \<Rightarrow> if is_peer_closed k then io_return () else io_fail k
        | Inr _ \<Rightarrow> io_return ())))"

text \<open>\<open>if let Err(e) = op { if !is_peer_closed(&e) { return Err(e) } }\<close>\<close>

definition tolerate_closed :: "('s, unit) io \<Rightarrow> ('s, unit) io" where
  "tolerate_closed m =
     io_bind (io_try m) (\<lambda>r. case r of
        Inl k \<Rightarrow> if is_peer_closed k then io_return () else io_fail k
      | Inr _ \<Rightarrow> io_return ())"

section \<open>Durations\<close>

text \<open>\<open>iter().filter_map(f).min()\<close> and \<open>max()\<close>.\<close>

definition min_of :: "('r \<Rightarrow> instant option) \<Rightarrow> 'r list \<Rightarrow> instant option" where
  "min_of f rs = (case List.map_filter f rs of [] \<Rightarrow> None | t # ts \<Rightarrow> Some (fold min ts t))"

definition max_of :: "('r \<Rightarrow> instant option) \<Rightarrow> 'r list \<Rightarrow> instant option" where
  "max_of f rs = (case List.map_filter f rs of [] \<Rightarrow> None | t # ts \<Rightarrow> Some (fold max ts t))"

definition measured_duration :: "stream_receipt list \<Rightarrow> duration" where
  "measured_duration receipts = span (min_of rc_first_byte_at receipts) (max_of rc_last_byte_at receipts)"

definition measured_steady_state :: "stream_receipt list \<Rightarrow> duration" where
  "measured_steady_state receipts =
     span (min_of rc_first_measured_at receipts) (max_of rc_last_byte_at receipts)"

section \<open>Lemmas\<close>

subsection \<open>Validated options\<close>

lemma validate_options_iff:
  "validate_options opts = Inr () \<longleftrightarrow>
     0 < unat (co_parallel opts) \<and> unat (co_parallel opts) \<le> 128 \<and>
     0 < unat (co_len opts) \<and> unat (co_len opts) \<le> 1048576 \<and>
     unat (co_time opts) \<le> 3600 \<and> unat (co_omit opts) \<le> 300"
proof -
  have "checked_add (co_time opts) (co_omit opts) \<noteq> None"
    if "unat (co_time opts) \<le> 3600" "unat (co_omit opts) \<le> 300"
    using that by (simp add: checked_add_def)
  then show ?thesis
    by (auto simp: not_less validate_options_def MAX_PARALLEL_STREAMS_def MAX_PAYLOAD_LEN_def
        MAX_TEST_DURATION_SECS_def MAX_OMIT_SECS_def word_less_nat_alt unat_eq_zero [symmetric]
        split: option.splits simp del: unat_eq_zero)
qed

lemma validate_options_error: "validate_options opts = Inl k \<Longrightarrow> k = InvalidInput"
  by (auto simp: validate_options_def split: if_splits option.splits)

lemma validated_duration:
  assumes "validate_options opts = Inr ()"
  shows "stream_duration (co_time opts) (co_omit opts) =
    from_secs (unat (co_time opts) + unat (co_omit opts))"
proof -
  have "unat (co_time opts + co_omit opts) = unat (co_time opts) + unat (co_omit opts)"
    using assms by (subst unat_add_lem [THEN iffD1]) (auto simp: validate_options_iff)
  then show ?thesis by (simp add: stream_duration_def)
qed

subsection \<open>What the steps do on a healthy connection\<close>

lemma await_message_triple:
  assumes "\<And>m. m \<in> set ms \<Longrightarrow> \<not> want m" and "want m"
  shows "io_ok (tcp.chan (map message_code ms @ message_code m # inp) out) (await_message want)
    (\<lambda>_. tcp.chan inp out)"
  using assms(1)
proof (induction ms)
  case Nil
  show ?case
  proof (rule io_okI)
    fix s assume "tcp.chan (map message_code [] @ message_code m # inp) out s"
    then obtain s' where "recv_control_byte tcp_recv s = (Inr m, s')" "tcp.chan inp out s'"
      using tcp.recv_control_byte_triple [of m inp out] by (auto elim: io_okE)
    with assms(2) show "\<exists>x s'. await_message want s = (Inr x, s') \<and> tcp.chan inp out s'"
      by (subst await_message.simps) simp
  qed
next
  case (Cons a ms)
  show ?case
  proof (rule io_okI)
    fix s assume "tcp.chan (map message_code (a # ms) @ message_code m # inp) out s"
    then obtain s' where s': "recv_control_byte tcp_recv s = (Inr a, s')"
      "tcp.chan (map message_code ms @ message_code m # inp) out s'"
      using tcp.recv_control_byte_triple [of a "map message_code ms @ message_code m # inp" out]
      by (auto elim: io_okE)
    moreover have "\<not> want a" using Cons.prems by simp
    moreover have "io_ok (tcp.chan (map message_code ms @ message_code m # inp) out)
        (await_message want) (\<lambda>_. tcp.chan inp out)"
      using Cons by simp
    ultimately show "\<exists>x s'. await_message want s = (Inr x, s') \<and> tcp.chan inp out s'"
      by (subst await_message.simps) (auto elim: io_okE)
  qed
qed

lemma wait_for_test_end_triple:
  "TestEnd \<notin> set ms \<Longrightarrow>
   io_ok (tcp.chan (map message_code ms @ message_code TestEnd # inp) out) wait_for_test_end
     (\<lambda>_. tcp.chan inp out)"
  unfolding wait_for_test_end_def by (rule await_message_triple) auto

lemma finalize_test_triple:
  assumes "m = IperfDone \<or> m = ClientTerminate"
  shows "io_ok (tcp.chan (message_code m # inp) out) finalize_test
    (\<lambda>_. tcp.chan inp (out @ [message_code DisplayResults]))"
  unfolding finalize_test_def
  using await_message_triple [of "[]" "\<lambda>m. m = IperfDone \<or> m = ClientTerminate" m] assms
  by (intro io_ok_then [OF tcp.send_control_byte_triple]) simp

lemma send_test_start_running_triple:
  "io_ok (tcp.chan inp out) send_test_start_running
     (\<lambda>_. tcp.chan inp (out @ [message_code TestStart, message_code TestRunning]))"
  unfolding send_test_start_running_def
  by (rule io_ok_conseq [OF io_ok_then [OF tcp.send_control_byte_triple tcp.send_control_byte_triple]])
    simp_all

lemma negotiate_options_triple:
  assumes "dec_opts body = Some opts" and "length body \<le> MAX_JSON_FRAME_LEN"
  shows "io_ok (tcp.chan (frame body @ inp) out) (negotiate_options dec_opts)
    (\<lambda>x s. x = opts \<and> tcp.chan inp (out @ [message_code ParamExchange]) s)"
  unfolding negotiate_options_def
  by (rule io_ok_then [OF tcp.send_control_byte_triple tcp.recv_framed_triple])
    (use assms in simp_all)

lemma build_server_results_bytes [simp]:
  "map sr_bytes (re_streams (build_server_results rs cpu)) = map rc_bytes rs"
proof -
  have "map sr_bytes (re_streams (build_server_results rs cpu)) = map (rc_bytes \<circ> snd) (enumerate 0 rs)"
    by (simp add: build_server_results_def split_def comp_def)
  then show ?thesis by (simp flip: map_map)
qed

lemma exchange_results_triple:
  assumes "enc (build_server_results rs cpu) = Some body" and "length body < 2 ^ 32"
    and "dec' cbody = Some res" and "length cbody \<le> MAX_JSON_FRAME_LEN"
  shows "io_ok (tcp.chan (frame cbody @ inp) out) (exchange_results enc dec' rs cpu)
    (\<lambda>_. tcp.chan inp (out @ [message_code ExchangeResults] @ frame body))"
  unfolding exchange_results_def append_assoc [symmetric]
proof (rule io_ok_then [OF tcp.send_control_byte_triple])
  let ?out = "(out @ [message_code ExchangeResults]) @ frame body"
  have "io_ok (tcp.chan (frame cbody @ inp) ?out) (io_try (recv_framed_json dec' tcp_recv))
      (\<lambda>r s. r = Inr res \<and> tcp.chan inp ?out s)"
    by (rule io_ok_try, rule io_ok_conseq [OF tcp.recv_framed_triple [of dec', OF assms(3,4)]]) auto
  then have "io_ok (tcp.chan (frame cbody @ inp) ?out)
      (io_bind (io_try (recv_framed_json dec' tcp_recv)) (\<lambda>read_result.
        case read_result of
          Inl k \<Rightarrow> if is_peer_closed k then io_return () else io_fail k
        | Inr _ \<Rightarrow> io_return ())) (\<lambda>_. tcp.chan inp ?out)"
    by (rule io_ok_bind) (auto simp: io_ok_def)
  then show "io_ok (tcp.chan (frame cbody @ inp) (out @ [message_code ExchangeResults]))
      (io_then (io_ignore (send_framed_json enc tcp_send (build_server_results rs cpu)))
      (io_bind (io_try (recv_framed_json dec' tcp_recv)) (\<lambda>read_result.
        case read_result of
          Inl k \<Rightarrow> if is_peer_closed k then io_return () else io_fail k
        | Inr _ \<Rightarrow> io_return ()))) (\<lambda>_. tcp.chan inp ?out)"
    by (rule io_ok_then [OF io_ok_ignore [OF tcp.send_framed_triple [of enc, OF assms(1,2)]]])
qed

lemma set_read_timeout_triple:
  "t \<noteq> Some 0 \<Longrightarrow> io_ok (tcp.chan inp out) (tcp_set_read_timeout t) (\<lambda>_. tcp.chan inp out)"
  by (auto simp: io_ok_def tcp_set_read_timeout_def tcp.chan_def)

lemma set_write_timeout_triple:
  "t \<noteq> Some 0 \<Longrightarrow> io_ok (tcp.chan inp out) (tcp_set_write_timeout t) (\<lambda>_. tcp.chan inp out)"
  by (auto simp: io_ok_def tcp_set_write_timeout_def tcp.chan_def)

lemma tolerate_closed_triple: "io_ok P m (\<lambda>_. Q) \<Longrightarrow> io_ok P (tolerate_closed m) (\<lambda>_. Q)"
  unfolding tolerate_closed_def
  by (rule io_ok_bind [OF io_ok_try [of P m "\<lambda>r s. r = Inr () \<and> Q s"]]) (auto simp: io_ok_def)

subsection \<open>Accepting connections\<close>

lemma with_socket_ok:
  assumes "io_ok P m Q" and "P t"
  obtains x t' where "with_socket t m s = (Inr (x, t'), s)" and "Q x t'"
  using assms by (auto simp: with_socket_def io_ok_def)

lemma accept_control_ok:
  assumes "l 0 = Inr c" and "tcp.chan (cookie @ inp) out c" and "length cookie = COOKIE_LEN"
    and "timeout \<noteq> Some 0"
  obtains c' where "accept_control timeout l = (Inr (c', cookie), \<lambda>i. l (Suc i))" and "tcp.chan inp out c'"
proof -
  have "io_ok (tcp.chan (cookie @ inp) out)
      (io_then (tcp_set_read_timeout timeout) (io_then (tcp_set_write_timeout timeout) (recv_cookie tcp_recv)))
      (\<lambda>x s. x = cookie \<and> tcp.chan inp out s)"
    using assms(3,4)
    by (intro io_ok_then [OF set_read_timeout_triple] io_ok_then [OF set_write_timeout_triple]
        tcp.recv_cookie_triple)
  from with_socket_ok [OF this assms(2), where s = "\<lambda>i. l (Suc i)"] obtain x c' where
    "with_socket c (io_then (tcp_set_read_timeout timeout)
       (io_then (tcp_set_write_timeout timeout) (recv_cookie tcp_recv))) (\<lambda>i. l (Suc i)) =
     (Inr (x, c'), \<lambda>i. l (Suc i))" "x = cookie \<and> tcp.chan inp out c'" by blast
  with that [of c'] assms(1) show thesis
    by (simp add: accept_control_def io_bind_def listener_accept_def)
qed

lemma accept_stream_ok:
  assumes "l 0 = Inr d" and "tcp.chan (cookie @ inp) out d" and "length cookie = COOKIE_LEN"
    and "timeout \<noteq> Some 0"
  obtains d' where "accept_stream cookie timeout l = (Inr d', \<lambda>i. l (Suc i))" and "tcp.chan inp out d'"
proof -
  let ?m = "io_then (tcp_set_read_timeout timeout) (io_bind (recv_cookie tcp_recv) (\<lambda>got.
      if got \<noteq> cookie then io_fail InvalidData else tcp_set_read_timeout None))"
  have "io_ok (\<lambda>s. x = cookie \<and> tcp.chan inp out s)
      (if x \<noteq> cookie then io_fail InvalidData else tcp_set_read_timeout None)
      (\<lambda>_. tcp.chan inp out)" for x
    using set_read_timeout_triple [of None inp out] by (cases "x = cookie") (simp_all add: io_ok_def)
  then have "io_ok (tcp.chan (cookie @ inp) out) ?m (\<lambda>_. tcp.chan inp out)"
    using assms(3,4)
    by (intro io_ok_then [OF set_read_timeout_triple] io_ok_bind [OF tcp.recv_cookie_triple])
  from with_socket_ok [OF this assms(2), where s = "\<lambda>i. l (Suc i)"] obtain x d' where
    "with_socket d ?m (\<lambda>i. l (Suc i)) = (Inr (x, d'), \<lambda>i. l (Suc i))" "tcp.chan inp out d'" by blast
  with that [of d'] assms(1) show thesis
    by (simp add: accept_stream_def io_bind_def listener_accept_def)
qed

lemma accept_streams_ok:
  assumes "\<And>i. i < n \<Longrightarrow> \<exists>d. l i = Inr d \<and> tcp.chan (cookie @ pay i) [] d"
    and "length cookie = COOKIE_LEN" and "timeout \<noteq> Some 0"
  shows "\<exists>ss. accept_streams cookie timeout n l = (Inr ss, \<lambda>i. l (i + n)) \<and> length ss = n \<and>
    (\<forall>i<n. tcp.chan (pay i) [] (ss ! i))"
  using assms(1)
proof (induction n arbitrary: l pay)
  case (Suc n)
  from Suc.prems [of 0] obtain d where "l 0 = Inr d" "tcp.chan (cookie @ pay 0) [] d" by auto
  from accept_stream_ok [of l, OF this assms(2,3)] obtain d' where
    d: "accept_stream cookie timeout l = (Inr d', \<lambda>i. l (Suc i))" "tcp.chan (pay 0) [] d'" by blast
  have "\<exists>e. l (Suc i) = Inr e \<and> tcp.chan (cookie @ pay (Suc i)) [] e" if "i < n" for i
    using Suc.prems [of "Suc i"] that by simp
  from Suc.IH [of "\<lambda>i. l (Suc i)" "\<lambda>i. pay (Suc i)", OF this] obtain ss where
    ss: "accept_streams cookie timeout n (\<lambda>i. l (Suc i)) = (Inr ss, \<lambda>i. l (Suc (i + n)))"
      "length ss = n" "\<forall>i<n. tcp.chan (pay (Suc i)) [] (ss ! i)" by auto
  then have "\<forall>i<Suc n. tcp.chan (pay i) [] ((d' # ss) ! i)"
    using d(2) by (auto simp: less_Suc_eq_0_disj)
  with d(1) ss show ?case by (intro exI [of _ "d' # ss"]) (simp add: io_bind_def)
qed simp

lemma accept_stream_wrong_cookie:
  assumes "l 0 = Inr d" and "tcp.chan (other @ inp) out d" and "length other = COOKIE_LEN"
    and "other \<noteq> cookie" and "timeout \<noteq> Some 0"
  shows "fst (accept_stream cookie timeout l) = Inl InvalidData"
proof -
  obtain d1 where d1: "tcp_set_read_timeout timeout d = (Inr (), d1)" "tcp.chan (other @ inp) out d1"
    using io_okE [OF set_read_timeout_triple [OF assms(5)] assms(2)] by auto
  obtain d2 where "recv_cookie tcp_recv d1 = (Inr other, d2)"
    using io_okE [OF tcp.recv_cookie_triple [OF assms(3)] d1(2)] by blast
  with d1(1) assms(1,4) show ?thesis
    by (simp add: accept_stream_def io_bind_def listener_accept_def with_socket_def io_then_def)
qed

lemma accept_streams_wrong_cookie:
  assumes "\<And>i. i < k \<Longrightarrow> \<exists>d inp. l i = Inr d \<and> tcp.chan (cookie @ inp) [] d"
    and "l k = Inr d" and "tcp.chan (other @ inp) out d" and "length other = COOKIE_LEN"
    and "other \<noteq> cookie" and "length cookie = COOKIE_LEN" and "timeout \<noteq> Some 0" and "k < n"
  shows "fst (accept_streams cookie timeout n l) = Inl InvalidData"
  using assms(1,2,8)
proof (induction k arbitrary: l n)
  case 0
  from accept_stream_wrong_cookie [of l, OF 0(2) assms(3-5,7)] obtain l' where
    "accept_stream cookie timeout l = (Inl InvalidData, l')" by (metis prod.collapse)
  with 0(3) show ?case by (cases n) (simp_all add: io_bind_def)
next
  case (Suc k)
  from Suc.prems(1) [of 0] obtain d0 inp0 where "l 0 = Inr d0" "tcp.chan (cookie @ inp0) [] d0" by auto
  from accept_stream_ok [of l, OF this assms(6,7)] obtain d' where
    d': "accept_stream cookie timeout l = (Inr d', \<lambda>i. l (Suc i))" by blast
  obtain m where n: "n = Suc m" using Suc.prems(3) by (cases n) simp_all
  have "fst (accept_streams cookie timeout m (\<lambda>i. l (Suc i))) = Inl InvalidData"
    by (rule Suc.IH) (use Suc.prems n in auto)
  then obtain l' where "accept_streams cookie timeout m (\<lambda>i. l (Suc i)) = (Inl InvalidData, l')"
    by (metis prod.collapse)
  with d' n show ?case by (simp add: io_bind_def)
qed

end
