(* ===== verification/Addresses.thy ===== *)
theory Addresses
  imports Rust_Strings
begin

text \<open>
  \<open>host.parse::<IpAddr>()\<close> of the standard library, as far as \<open>is_loopback_bind\<close> of
  \<^verbatim>\<open>src/server.rs\<close> uses it: the recursive-descent parser for dotted and for colon notation, and the
  test for a loopback address.
\<close>

section \<open>The address parser\<close>

type_synonym 'a reader = "rstr \<Rightarrow> ('a \<times> rstr) option"

datatype ip = V4 nat nat nat nat | V6 "nat list"

definition radix_value :: "nat \<Rightarrow> rstr \<Rightarrow> nat" where
  "radix_value radix ds = foldl (\<lambda>a c. a * radix + the (to_digit radix c)) 0 ds"

text \<open>At most \<open>max_digits\<close> digits, at least one, the value at most \<open>mx\<close>; the reader stops at the first other character.\<close>

definition read_number :: "nat \<Rightarrow> nat \<Rightarrow> bool \<Rightarrow> nat \<Rightarrow> nat reader" where
  "read_number radix max_digits allow_zero_prefix mx s =
     (let ds = takeWhile (\<lambda>c. to_digit radix c \<noteq> None) s
      in if max_digits < length ds \<or> ds = [] then None
         else if \<not> allow_zero_prefix \<and> hd ds = 48 \<and> 1 < length ds then None
         else if mx < radix_value radix ds then None
         else Some (radix_value radix ds, drop (length ds) s))"

definition read_separator :: "nat \<Rightarrow> nat \<Rightarrow> 'a reader \<Rightarrow> 'a reader" where
  "read_separator sep index inner s =
     (if index = 0 then inner s
      else case s of [] \<Rightarrow> None | c # r \<Rightarrow> if c = sep then inner r else None)"

fun read_octets :: "nat \<Rightarrow> nat \<Rightarrow> nat list reader" where
  "read_octets 0 i s = Some ([], s)"
| "read_octets (Suc k) i s =
     (case read_separator 46 i (read_number 10 3 False 255) s of
        None \<Rightarrow> None
      | Some (n, r) \<Rightarrow> (case read_octets k (Suc i) r of None \<Rightarrow> None | Some (ns, r') \<Rightarrow> Some (n # ns, r')))"

definition read_ipv4_addr :: "nat list reader" where
  "read_ipv4_addr = read_octets 4 0"

text \<open>
  The groups of a colon address, at most \<open>k\<close> more; the flag says that an embedded dotted address was
  read, which takes two groups.
\<close>

fun read_groups :: "nat \<Rightarrow> nat \<Rightarrow> rstr \<Rightarrow> nat list \<times> bool \<times> rstr" where
  "read_groups 0 i s = ([], False, s)"
| "read_groups (Suc k) i s =
     (case (if 0 < k then read_separator 58 i read_ipv4_addr s else None) of
        Some (ns, r) \<Rightarrow> ([ns ! 0 * 256 + ns ! 1, ns ! 2 * 256 + ns ! 3], True, r)
      | None \<Rightarrow>
          (case read_separator 58 i (read_number 16 4 True 65535) s of
             Some (g, r) \<Rightarrow> (case read_groups k (Suc i) r of (gs, v4, r') \<Rightarrow> (g # gs, v4, r'))
           | None \<Rightarrow> ([], False, s)))"

definition read_ipv6_addr :: "nat list reader" where
  "read_ipv6_addr s =
     (case read_groups 8 0 s of (head, head_ipv4, r) \<Rightarrow>
        if length head = 8 then Some (head, r)
        else if head_ipv4 then None
        else case r of
          a # b # r1 \<Rightarrow>
            if a = 58 \<and> b = 58
            then case read_groups (8 - (length head + 1)) 0 r1 of (tail, _, r2) \<Rightarrow>
                   Some (head @ replicate (8 - length head - length tail) 0 @ tail, r2)
            else None
        | _ \<Rightarrow> None)"

text \<open>The whole text must be read; text after a dotted address is not tried as a colon address.\<close>

definition parse_ip_addr :: "rstr \<Rightarrow> ip option" where
  "parse_ip_addr s =
     (case read_ipv4_addr s of
        Some (ns, r) \<Rightarrow> if r = [] then Some (V4 (ns ! 0) (ns ! 1) (ns ! 2) (ns ! 3)) else None
      | None \<Rightarrow>
          (case read_ipv6_addr s of
             Some (gs, r) \<Rightarrow> if r = [] then Some (V6 gs) else None
           | None \<Rightarrow> None))"

fun is_loopback :: "ip \<Rightarrow> bool" where
  "is_loopback (V4 a b c d) \<longleftrightarrow> a = 127"
| "is_loopback (V6 gs) \<longleftrightarrow> gs = [0, 0, 0, 0, 0, 0, 0, 1]"

definition is_loopback_bind :: "rstr \<Rightarrow> bool" where
  "is_loopback_bind host =
     (case parse_ip_addr host of Some ip \<Rightarrow> is_loopback ip | None \<Rightarrow> host = lit ''localhost'')"

section \<open>Lemmas\<close>

text \<open>\<open>Ipv4Addr\<close> as it is printed.\<close>

definition show_ipv4 :: "nat \<Rightarrow> nat \<Rightarrow> nat \<Rightarrow> nat \<Rightarrow> rstr" where
  "show_ipv4 a b c d = dec a @ lit ''.'' @ dec b @ lit ''.'' @ dec c @ lit ''.'' @ dec d"

lemma to_digit_10: "to_digit 10 c = (if 48 \<le> c \<and> c \<le> 57 then Some (c - 48) else None)"
  by (auto simp: to_digit_def Let_def)

lemma radix_value_snoc: "radix_value radix (ds @ [c]) = radix_value radix ds * radix + the (to_digit radix c)"
  by (simp add: radix_value_def)

lemma radix_value_dec [simp]: "radix_value 10 (dec n) = n"
proof (induction n rule: dec.induct)
  case (1 n)
  show ?case
  proof (cases "n < 10")
    case True
    then show ?thesis by (simp add: dec.simps [of n] radix_value_def)
  next
    case False
    with 1 show ?thesis by (simp add: dec.simps [of n] radix_value_snoc)
  qed
qed

lemma dec_hd_zero: "hd (dec n) = 48 \<Longrightarrow> n = 0"
proof (induction n rule: dec.induct)
  case (1 n)
  show ?case
  proof (cases "n < 10")
    case True
    with "1.prems" show ?thesis by (simp add: dec.simps [of n])
  next
    case False
    with "1.prems" have "hd (dec (n div 10)) = 48" by (simp add: dec.simps [of n])
    with "1.IH" [OF False] False show ?thesis by simp
  qed
qed

text \<open>Digits without a leading zero are what \<open>dec\<close> prints for their value.\<close>

lemma dec_radix_value:
  assumes "ds \<noteq> []" and "\<forall>c\<in>set ds. to_digit 10 c \<noteq> None" and "hd ds = 48 \<longrightarrow> length ds = 1"
  shows "dec (radix_value 10 ds) = ds"
  using assms
proof (induction ds rule: rev_induct)
  case (snoc c ds)
  have c: "48 \<le> c" "c \<le> 57" using snoc.prems(2) by (auto simp: to_digit_10 split: if_splits)
  show ?case
  proof (cases "ds = []")
    case True
    with c show ?thesis by (simp add: radix_value_def to_digit_10 dec.simps)
  next
    case False
    with snoc.prems have hd: "hd ds \<noteq> 48" by simp
    with snoc False have IH: "dec (radix_value 10 ds) = ds" by simp
    have "radix_value 10 ds \<noteq> 0"
    proof
      assume "radix_value 10 ds = 0"
      with IH have "ds = dec 0" by simp
      with hd show False by (simp add: dec.simps)
    qed
    moreover from c have "c = 48 + (c - 48)" "c - 48 < 10" by simp_all
    then obtain d where "c = 48 + d" "d < 10" by blast
    ultimately show ?thesis using IH by (simp add: radix_value_snoc dec.simps [of "_ * 10 + _"])
  qed
qed simp

lemma length_dec_octet: "n \<le> 255 \<Longrightarrow> length (dec n) \<le> 3"
  by (simp add: dec.simps [of n] dec.simps [of "n div 10"] dec.simps [of "n div 10 div 10"])

definition ends_number :: "rstr \<Rightarrow> bool" where
  "ends_number r \<longleftrightarrow> (\<forall>c t. r = c # t \<longrightarrow> to_digit 10 c = None)"

lemma takeWhile_number:
  assumes "\<forall>c\<in>set ds. to_digit 10 c \<noteq> None" and "ends_number r"
  shows "takeWhile (\<lambda>c. to_digit 10 c \<noteq> None) (ds @ r) = ds"
  using assms by (cases r) (auto simp: ends_number_def takeWhile_append2)

lemma read_octet_dec:
  assumes "n \<le> 255" and "ends_number r"
  shows "read_number 10 3 False 255 (dec n @ r) = Some (n, r)"
proof -
  have "\<forall>c\<in>set (dec n). to_digit 10 c \<noteq> None" using dec_digits by (fastforce simp: to_digit_10)
  note t = takeWhile_number [OF this assms(2)]
  have "hd (dec n) = 48 \<Longrightarrow> length (dec n) = 1" using dec_hd_zero [of n] by (auto simp: dec.simps)
  then show ?thesis
    using assms(1) length_dec_octet [OF assms(1)] unfolding read_number_def t Let_def by auto
qed

lemma read_octetD:
  assumes "read_number 10 3 False 255 s = Some (n, r)"
  shows "s = dec n @ r \<and> n \<le> 255"
proof -
  let ?ds = "takeWhile (\<lambda>c. to_digit 10 c \<noteq> None) s"
  from assms have n: "n = radix_value 10 ?ds" "n \<le> 255" "r = drop (length ?ds) s" "?ds \<noteq> []"
    and z: "hd ?ds = 48 \<longrightarrow> length ?ds = 1"
    by (auto simp: read_number_def Let_def split: if_splits) (metis One_nat_def length_0_conv less_one linorder_neqE_nat)
  have "\<forall>c\<in>set ?ds. to_digit 10 c \<noteq> None" by (auto dest: set_takeWhileD)
  from dec_radix_value [OF n(4) this z] n(1) have "dec n = ?ds" by simp
  with n(2,3) show ?thesis by (metis takeWhile_eq_take append_take_drop_id)
qed

lemma ends_number_dot [simp]: "ends_number []" "ends_number (46 # s)"
  by (simp_all add: ends_number_def to_digit_10)

lemma read_ipv4_unfold: "read_ipv4_addr = read_octets (Suc (Suc (Suc (Suc 0)))) 0"
proof -
  have "(4 :: nat) = Suc (Suc (Suc (Suc 0)))" by simp
  then show ?thesis unfolding read_ipv4_addr_def by (simp only:)
qed

lemmas read_groups_numeral =
  read_groups.simps(2) [of "pred_numeral k" for k, unfolded numeral_eq_Suc [symmetric]]

lemma read_ipv4_show:
  assumes "a \<le> 255" "b \<le> 255" "c \<le> 255" "d \<le> 255"
  shows "read_ipv4_addr (show_ipv4 a b c d) = Some ([a, b, c, d], [])"
  using assms read_octet_dec [of d "[]"]
  by (simp add: read_ipv4_unfold show_ipv4_def read_separator_def lit_def read_octet_dec)

lemma read_ipv4D:
  assumes "read_ipv4_addr s = Some (ns, r)"
  shows "\<exists>a b c d. ns = [a, b, c, d] \<and> a \<le> 255 \<and> b \<le> 255 \<and> c \<le> 255 \<and> d \<le> 255 \<and> s = show_ipv4 a b c d @ r"
proof -
  from assms show ?thesis
    unfolding read_ipv4_unfold
    by (auto simp: read_separator_def show_ipv4_def lit_def split: option.splits list.splits if_splits
        dest!: read_octetD)
qed

lemma parse_ip_V4_iff:
  "parse_ip_addr s = Some (V4 a b c d) \<longleftrightarrow>
     s = show_ipv4 a b c d \<and> a \<le> 255 \<and> b \<le> 255 \<and> c \<le> 255 \<and> d \<le> 255"
proof
  assume "parse_ip_addr s = Some (V4 a b c d)"
  then obtain ns where "read_ipv4_addr s = Some (ns, [])" "a = ns ! 0" "b = ns ! 1" "c = ns ! 2" "d = ns ! 3"
    by (auto simp: parse_ip_addr_def split: option.splits if_splits)
  with read_ipv4D [of s ns "[]"] show "s = show_ipv4 a b c d \<and> a \<le> 255 \<and> b \<le> 255 \<and> c \<le> 255 \<and> d \<le> 255"
    by auto
qed (simp add: parse_ip_addr_def read_ipv4_show)

lemma localhost_no_address: "parse_ip_addr (lit ''localhost'') = None"
proof -
  have "read_number 10 3 False 255 (lit ''localhost'') = None" "read_number 16 4 True 65535 (lit ''localhost'') = None"
    by (simp_all add: read_number_def Let_def lit_def to_digit_def)
  then have "read_ipv4_addr (lit ''localhost'') = None" "read_groups 8 0 (lit ''localhost'') = ([], False, lit ''localhost'')"
    by (simp_all add: read_ipv4_unfold read_separator_def read_groups_numeral)
  then show ?thesis by (simp add: parse_ip_addr_def read_ipv6_addr_def) (simp add: lit_def)
qed

lemma is_loopback_bind_iff:
  "is_loopback_bind host \<longleftrightarrow> host = lit ''localhost'' \<or>
     (\<exists>b c d. host = show_ipv4 127 b c d \<and> b \<le> 255 \<and> c \<le> 255 \<and> d \<le> 255) \<or>
     parse_ip_addr host = Some (V6 [0, 0, 0, 0, 0, 0, 0, 1])"
proof -
  have v4: "(\<exists>b c d. host = show_ipv4 127 b c d \<and> b \<le> 255 \<and> c \<le> 255 \<and> d \<le> 255) \<longleftrightarrow>
      (\<exists>b c d. parse_ip_addr host = Some (V4 127 b c d))"
    by (simp add: parse_ip_V4_iff)
  show ?thesis
  proof (cases "parse_ip_addr host")
    case None
    then show ?thesis unfolding v4 by (simp add: is_loopback_bind_def)
  next
    case (Some ip)
    then have "host \<noteq> lit ''localhost''" using localhost_no_address by auto
    with Some show ?thesis unfolding v4 by (cases ip) (simp_all add: is_loopback_bind_def)
  qed
qed

lemma replicate_num: "replicate (numeral k) x = x # replicate (pred_numeral k) x"
  by (simp only: numeral_eq_Suc replicate_Suc)

text \<open>Some colon addresses: the usual spellings of the loopback address, and a mapped one.\<close>

lemma parse_ip_examples:
  "parse_ip_addr (lit ''::1'') = Some (V6 [0, 0, 0, 0, 0, 0, 0, 1])"
  "parse_ip_addr (lit ''0:0:0:0:0:0:0:1'') = Some (V6 [0, 0, 0, 0, 0, 0, 0, 1])"
  "parse_ip_addr (lit ''::ffff:127.0.0.1'') = Some (V6 [0, 0, 0, 0, 0, 65535, 32512, 1])"
  "parse_ip_addr (lit ''127.0.0.01'') = None"
  by (simp_all add: parse_ip_addr_def read_ipv6_addr_def read_ipv4_unfold read_separator_def lit_def
      read_number_def Let_def to_digit_def radix_value_def read_groups_numeral replicate_num)

end
