(* ===== verification/Server.thy ===== *)
theory Server
  imports Server_Protocol Addresses
begin

text \<open>
  Whole sessions of \<^verbatim>\<open>src/server.rs\<close>: the sequential path (\<open>serve_one_session\<close> with its TCP
  and UDP branches), the path of the concurrent accept loop (\<open>serve_session_from_channel\<close>), and the
  two outer functions \<open>run_server_loop\<close> and \<open>run_server\<close>.

  A session returns \<open>Err\<close> or a \<^typ>\<open>u64 run\<close>: \<open>Finished\<close> with the bytes it counted, \<open>Panicked\<close>, or
  \<open>Unfinished\<close> when it joins a thread that is still running at the end of its script. What the
  operating system and the clocks contribute to one session is its environment.
\<close>

section \<open>State and environment\<close>

text \<open>
  \<open>sv_control\<close> is the control connection last accepted, \<open>sv_data_rx\<close> the channel a concurrent
  session takes its streams from, \<open>sv_nonces\<close> the process-wide replay cache, \<open>sv_lines\<close> the
  lines the session itself has printed (the rows of its reader threads are in their meters).
\<close>

record server =
  sv_listener :: listener
  sv_data_rx :: "tcp list"
  sv_control :: tcp
  sv_nonces :: nonce_cache
  sv_lines :: "line list"

text \<open>
  JSON text is handled by \<open>serde_json\<close>: \<open>en_parse\<close> and \<open>en_print\<close> stand for it. The per-stream
  entries give the clock readings of each thread, \<open>en_tcp_clone\<close> and \<open>en_udp_clone\<close> what cloning a
  socket returns.
\<close>

record 'k session_env =
  en_parse :: "bytes \<Rightarrow> json option"
  en_print :: "json \<Rightarrow> bytes option"
  en_auth_config :: "auth_paths option"
  en_auth :: "'k auth_env"
  en_wall :: "u64 option"
  en_now :: instant
  en_sysconf :: i64
  en_cpu_start :: cpu_snapshot
  en_cpu_end :: cpu_snapshot
  en_reader_clock :: "nat \<Rightarrow> nat \<Rightarrow> instant"
  en_sender :: "nat \<Rightarrow> instant \<times> send_turn list"
  en_tcp_clone :: "nat \<Rightarrow> unit io_result"
  en_local_addr :: "unit io_result"
  en_udp_bind :: "udp_sock io_result"
  en_udp_port :: "u16 io_result"
  en_udp_split :: "unit io_result"
  en_udp_turns :: "udp_turn list"
  en_udp_clone :: "nat \<Rightarrow> udp_sock option"
  en_packets :: "nat \<Rightarrow> instant \<times> instant \<times> packet_turn list \<times> u64 \<times> u32"

definition dec_options :: "'k session_env \<Rightarrow> bytes \<Rightarrow> client_options option" where
  "dec_options env b = Option.bind (en_parse env b) client_options_of_json"

definition dec_results :: "'k session_env \<Rightarrow> bytes \<Rightarrow> results option" where
  "dec_results env b = Option.bind (en_parse env b) results_of_json"

definition enc_results :: "'k session_env \<Rightarrow> results \<Rightarrow> bytes option" where
  "enc_results env r = en_print env (JObj (results_fields r))"

definition on_control :: "(tcp, 'a) io \<Rightarrow> (server, 'a) io" where
  "on_control m s = (case m (sv_control s) of (r, c) \<Rightarrow> (r, s\<lparr>sv_control := c\<rparr>))"

definition on_listener :: "(listener, 'a) io \<Rightarrow> (server, 'a) io" where
  "on_listener m s = (case m (sv_listener s) of (r, l) \<Rightarrow> (r, s\<lparr>sv_listener := l\<rparr>))"

definition lift_result :: "'a io_result \<Rightarrow> ('s, 'a) io" where
  "lift_result r = (\<lambda>s. (r, s))"

definition server_print :: "line list \<Rightarrow> (server, unit) io" where
  "server_print ls s = (Inr (), s\<lparr>sv_lines := sv_lines s @ ls\<rparr>)"

text \<open>Continue with the value of a joined thread.\<close>

definition on_finished :: "'a run \<Rightarrow> ('a \<Rightarrow> ('s, 'b run) io) \<Rightarrow> ('s, 'b run) io" where
  "on_finished r f =
     (case r of Unfinished \<Rightarrow> io_return Unfinished | Panicked \<Rightarrow> io_return Panicked | Finished x \<Rightarrow> f x)"

definition run_timeout :: "duration option \<Rightarrow> client_options \<Rightarrow> duration option" where
  "run_timeout handshake_timeout opts =
     map_option (\<lambda>h. h + stream_duration (co_time opts) (co_omit opts)) handshake_timeout"

section \<open>Stream threads\<close>

definition spawn_stream_readers :: "'k session_env \<Rightarrow> duration \<Rightarrow> tcp list \<Rightarrow> stream_receipt meter list" where
  "spawn_stream_readers env omit streams =
     map (\<lambda>(i, s). recv_stream_bytes omit (en_reader_clock env i) s
            (Some (reporter_new (of_nat (i + 1)) (from_secs 1)))) (enumerate 0 streams)"

definition join_stream_totals :: "stream_receipt meter list \<Rightarrow> stream_receipt list" where
  "join_stream_totals handles = map mt_receipt handles"

definition join_all :: "'a option list \<Rightarrow> 'a list run" where
  "join_all hs = (case those hs of None \<Rightarrow> Unfinished | Some rs \<Rightarrow> Finished rs)"

definition run_tcp_send_streams ::
  "'k session_env \<Rightarrow> client_options \<Rightarrow> tcp list \<Rightarrow> stream_receipt list run" where
  "run_tcp_send_streams env opts streams =
     join_all (map (\<lambda>(i, s). join_receipt
         (tcp_send_stream opts (of_nat (i + 1)) (fst (en_sender env i)) (snd (en_sender env i)) s)
         stream_receipt_empty) (enumerate 0 streams))"

definition run_udp_send_streams ::
  "'k session_env \<Rightarrow> client_options \<Rightarrow> sock_addr list \<Rightarrow> stream_receipt list run" where
  "run_udp_send_streams env opts addrs =
     (case those (map (en_udp_clone env) [0..<length addrs]) of
        None \<Rightarrow> Panicked
      | Some socks \<Rightarrow>
          join_all (map (\<lambda>((i, peer), sock).
            case en_packets env i of (t0, t1, turns, fin) \<Rightarrow>
              join_receipt (udp_send_stream opts (of_nat (i + 1)) peer t0 t1 turns fin sock)
                stream_receipt_empty) (zip (enumerate 0 addrs) socks)))"

definition udp_receiver_thread ::
  "'k session_env \<Rightarrow> sock_addr list \<Rightarrow> duration \<Rightarrow> stream_receipt list run" where
  "udp_receiver_thread env addrs omit =
     (case run_udp_receiver addrs omit (en_udp_turns env) of
        None \<Rightarrow> Unfinished | Some rs \<Rightarrow> Finished rs)"

section \<open>The data phase of a TCP test\<close>

definition accept_streams_via_listener ::
  "bytes \<Rightarrow> u32 \<Rightarrow> duration option \<Rightarrow> (server, tcp list) io" where
  "accept_streams_via_listener cookie n handshake_timeout =
     io_then (on_control (send_control_byte tcp_send CreateStreams))
       (on_listener (accept_streams cookie handshake_timeout (unat n)))"

text \<open>Both directions at once: a clone of every socket sends while the socket itself is read.\<close>

definition tcp_bidirectional ::
  "'k session_env \<Rightarrow> client_options \<Rightarrow> duration \<Rightarrow> tcp list \<Rightarrow> (server, stream_receipt list run) io" where
  "tcp_bidirectional env opts omit_window streams =
     (case List.find (\<lambda>i. isl (en_tcp_clone env i)) [0..<length streams] of
        Some i \<Rightarrow> io_fail (projl (en_tcp_clone env i))
      | None \<Rightarrow>
          io_then (on_control wait_for_test_end)
            (on_finished (run_tcp_send_streams env opts streams) (\<lambda>sent.
               io_return (Finished
                 (join_stream_totals (spawn_stream_readers env omit_window streams) @ sent)))))"

definition tcp_reverse ::
  "'k session_env \<Rightarrow> client_options \<Rightarrow> tcp list \<Rightarrow> (server, stream_receipt list run) io" where
  "tcp_reverse env opts streams =
     on_finished (run_tcp_send_streams env opts streams) (\<lambda>r.
       io_then (io_ignore (on_control wait_for_test_end)) (io_return (Finished r)))"

definition tcp_forward ::
  "'k session_env \<Rightarrow> duration \<Rightarrow> tcp list \<Rightarrow> (server, stream_receipt list run) io" where
  "tcp_forward env omit_window streams =
     io_then (on_control wait_for_test_end)
       (io_return (Finished (join_stream_totals (spawn_stream_readers env omit_window streams))))"

definition start_test :: "client_options \<Rightarrow> duration option \<Rightarrow> (server, unit) io" where
  "start_test opts handshake_timeout =
     io_then (on_control send_test_start_running)
     (io_then (server_print [IntervalHeader])
       (on_control (tcp_set_read_timeout (run_timeout handshake_timeout opts))))"

definition tune_streams :: "client_options \<Rightarrow> tcp list \<Rightarrow> tcp list" where
  "tune_streams opts = map (\<lambda>s. snd (tcp_apply_tuning (tuning_of_options opts) s))"

text \<open>What follows the acceptance of the streams of a TCP test.\<close>

definition tcp_data_phase ::
  "'k session_env \<Rightarrow> client_options \<Rightarrow> duration option \<Rightarrow> tcp list \<Rightarrow> (server, stream_receipt list run) io" where
  "tcp_data_phase env opts handshake_timeout accepted =
     (let streams = tune_streams opts accepted; omit_window = from_secs (unat (co_omit opts))
      in io_then (start_test opts handshake_timeout)
          (if co_bidirectional opts then tcp_bidirectional env opts omit_window streams
           else if co_reverse opts then tcp_reverse env opts streams
           else tcp_forward env omit_window streams))"

definition run_tcp_branch ::
  "'k session_env \<Rightarrow> bytes \<Rightarrow> client_options \<Rightarrow> duration option \<Rightarrow> (server, stream_receipt list run) io" where
  "run_tcp_branch env cookie opts handshake_timeout =
     io_bind (accept_streams_via_listener cookie (co_parallel opts) handshake_timeout)
       (tcp_data_phase env opts handshake_timeout)"

definition udp_data_phase ::
  "'k session_env \<Rightarrow> client_options \<Rightarrow> bool \<Rightarrow> sock_addr list \<Rightarrow> (server, stream_receipt list run) io" where
  "udp_data_phase env opts wait_in_reverse addrs =
     (let omit_window = from_secs (unat (co_omit opts))
      in if co_bidirectional opts then
           io_then (lift_result (en_udp_split env))
             (on_finished (run_udp_send_streams env opts addrs) (\<lambda>sent.
                io_then (io_ignore (on_control wait_for_test_end))
                  (on_finished (udp_receiver_thread env addrs omit_window) (\<lambda>received.
                     io_return (Finished (sent @ received))))))
         else if co_reverse opts then
           on_finished (run_udp_send_streams env opts addrs) (\<lambda>sent.
             io_then (if wait_in_reverse then io_ignore (on_control wait_for_test_end) else io_return ())
               (io_return (Finished sent)))
         else
           io_then (on_control wait_for_test_end)
             (on_finished (udp_receiver_thread env addrs omit_window) (\<lambda>received.
                io_return (Finished received))))"

definition udp_data_tail ::
  "client_options \<Rightarrow> stream_receipt list run \<Rightarrow> (server, stream_receipt list run) io" where
  "udp_data_tail opts r =
     on_finished r (\<lambda>receipts.
       io_then (if co_reverse opts then io_ignore (on_control wait_for_test_end) else io_return ())
         (io_return (Finished receipts)))"

definition udp_admit ::
  "bytes \<Rightarrow> client_options \<Rightarrow> duration option \<Rightarrow> udp_sock \<Rightarrow> (server, sock_addr list) io" where
  "udp_admit cookie opts handshake_timeout udp =
     io_then (on_control (send_control_byte tcp_send CreateStreams))
     (io_bind (with_socket udp (accept_udp_streams cookie (co_parallel opts))) (\<lambda>(addrs, udp1).
      io_bind (with_socket udp1 (udp_set_read_timeout None)) (\<lambda>_.
      io_then (start_test opts handshake_timeout) (io_return addrs))))"

definition run_udp_branch ::
  "'k session_env \<Rightarrow> bytes \<Rightarrow> client_options \<Rightarrow> duration option \<Rightarrow> (server, stream_receipt list run) io" where
  "run_udp_branch env cookie opts handshake_timeout =
     io_then (lift_result (en_local_addr env))
     (io_bind (lift_result (bind_udp (en_udp_bind env) handshake_timeout)) (\<lambda>udp.
      io_bind (udp_admit cookie opts handshake_timeout udp) (\<lambda>addrs.
      io_bind (udp_data_phase env opts False addrs) (udp_data_tail opts))))"

section \<open>Sessions\<close>

text \<open>Options out of range are answered with \<open>AccessDenied\<close> before anything uses them.\<close>

definition reject_invalid :: "client_options \<Rightarrow> (server, unit) io" where
  "reject_invalid opts =
     (case validate_options opts of
        Inr _ \<Rightarrow> io_return ()
      | Inl k \<Rightarrow> io_then (io_ignore (on_control (send_control_byte tcp_send AccessDenied))) (io_fail k))"

definition authenticate :: "'k session_env \<Rightarrow> client_options \<Rightarrow> (server, unit) io" where
  "authenticate env opts s =
     (case check_auth (en_auth env) (en_auth_config env) (en_wall env) (en_now env) opts
             (sv_control s, sv_nonces s) of
        (r, c, n) \<Rightarrow> (r, s\<lparr>sv_control := c, sv_nonces := n\<rparr>))"

definition admit_options :: "'k session_env \<Rightarrow> (server, client_options) io" where
  "admit_options env =
     io_bind (on_control (negotiate_options (dec_options env))) (\<lambda>opts.
     io_then (reject_invalid opts) (io_then (authenticate env opts) (io_return opts)))"

definition summary_line :: "client_options \<Rightarrow> stream_receipt list \<Rightarrow> u64 \<times> duration" where
  "summary_line opts receipts =
     (let total_bytes = sum_list (map rc_bytes receipts);
          raw = measured_duration receipts; steady = measured_steady_state receipts
      in if 0 < co_omit opts \<and> steady \<noteq> 0 then (sum_list (map bytes_measured receipts), steady)
         else if raw \<noteq> 0 then (total_bytes, raw)
         else (total_bytes, from_secs (unat (co_time opts))))"

text \<open>The processor usage over the measured window.\<close>

definition session_cpu :: "'k session_env \<Rightarrow> stream_receipt list \<Rightarrow> cpu_usage" where
  "session_cpu env receipts =
     (let raw = measured_duration receipts; steady = measured_steady_state receipts;
          wall = (if steady \<noteq> 0 then steady else if raw \<noteq> 0 then raw else 0)
      in cpu_usage_between (en_sysconf env) (en_cpu_start env) (en_cpu_end env) wall)"

text \<open>
  The closing lines. The server calls itself the receiver in every direction; \<open>with_cpu\<close> is false on
  the one path that does not print the processor usage.
\<close>

definition closing_lines :: "bool \<Rightarrow> client_options \<Rightarrow> stream_receipt list \<Rightarrow> cpu_usage \<Rightarrow> line list" where
  "closing_lines with_cpu opts receipts cpu =
     (case summary_line opts receipts of (summary_bytes, summary_duration) \<Rightarrow>
        [SummarySeparator, IntervalHeader, SummaryRow (as_secs_f64 summary_duration) summary_bytes Receiver] @
        (if with_cpu \<and> 0 < total_pct cpu then [CpuLine cpu] else []) @ [DoneLine])"

definition finish_session ::
  "'k session_env \<Rightarrow> bool \<Rightarrow> client_options \<Rightarrow> duration option \<Rightarrow> stream_receipt list \<Rightarrow>
   (server, u64 run) io" where
  "finish_session env with_cpu opts handshake_timeout receipts =
     (let total_bytes = sum_list (map rc_bytes receipts); cpu = session_cpu env receipts
      in io_then (on_control (tcp_set_read_timeout handshake_timeout))
         (io_then (tolerate_closed (on_control
              (exchange_results (enc_results env) (dec_results env) receipts cpu)))
         (io_then (tolerate_closed (on_control finalize_test))
         (io_then (server_print (closing_lines with_cpu opts receipts cpu))
            (io_return (Finished total_bytes))))))"

text \<open>A session after its control connection has been accepted.\<close>

definition session_body :: "'k session_env \<Rightarrow> bytes \<Rightarrow> duration option \<Rightarrow> (server, u64 run) io" where
  "session_body env cookie handshake_timeout =
     io_bind (admit_options env) (\<lambda>opts.
     io_bind (if co_udp opts then run_udp_branch env cookie opts handshake_timeout
              else run_tcp_branch env cookie opts handshake_timeout) (\<lambda>receipts.
     on_finished receipts (finish_session env True opts handshake_timeout)))"

definition serve_one_session :: "'k session_env \<Rightarrow> duration option \<Rightarrow> (server, u64 run) io" where
  "serve_one_session env handshake_timeout =
     io_bind (on_listener (accept_control handshake_timeout)) (\<lambda>(control, cookie).
     io_then (\<lambda>s. (Inr (), s\<lparr>sv_control := control\<rparr>)) (session_body env cookie handshake_timeout))"

text \<open>
  The session thread of the concurrent server; its control connection is already in the state. The
  reverse test is tried before the bidirectional one, unlike in \<open>run_tcp_branch\<close>, and a UDP session
  does not print its processor usage.
\<close>

definition channel_udp_phase ::
  "'k session_env \<Rightarrow> bytes \<Rightarrow> client_options \<Rightarrow> duration option \<Rightarrow> (server, stream_receipt list run) io" where
  "channel_udp_phase env cookie opts handshake_timeout =
     io_bind (lift_result (bind_udp (en_udp_bind env) handshake_timeout)) (\<lambda>udp.
     io_bind (lift_result (en_udp_port env)) (\<lambda>data_port.
     io_then (on_control (send_control_byte tcp_send SetDataPort))
     (io_then (on_control (send_u16_be tcp_send data_port))
     (io_bind (udp_admit cookie opts handshake_timeout udp) (\<lambda>addrs.
      io_bind (udp_data_phase env opts True addrs) (udp_data_tail opts))))))"

definition channel_accept :: "u32 \<Rightarrow> duration option \<Rightarrow> (server, tcp list) io" where
  "channel_accept n handshake_timeout s =
     (case accept_streams_from_channel (unat n) handshake_timeout (sv_data_rx s) of
        (r, q) \<Rightarrow> (r, s\<lparr>sv_data_rx := q\<rparr>))"

definition channel_tcp_phase ::
  "'k session_env \<Rightarrow> client_options \<Rightarrow> duration option \<Rightarrow> (server, stream_receipt list run) io" where
  "channel_tcp_phase env opts handshake_timeout =
     io_then (on_control (send_control_byte tcp_send CreateStreams))
     (io_bind (channel_accept (co_parallel opts) handshake_timeout) (\<lambda>accepted.
      let streams = tune_streams opts accepted; omit_window = from_secs (unat (co_omit opts))
      in io_then (start_test opts handshake_timeout)
           (if co_reverse opts then tcp_reverse env opts streams
            else if co_bidirectional opts then tcp_bidirectional env opts omit_window streams
            else tcp_forward env omit_window streams)))"

text \<open>The end of a session is the same on both of its paths, but for the line with the processor usage.\<close>

definition channel_finish ::
  "'k session_env \<Rightarrow> client_options \<Rightarrow> duration option \<Rightarrow> stream_receipt list \<Rightarrow> (server, u64 run) io" where
  "channel_finish env opts handshake_timeout receipts =
     finish_session env (\<not> co_udp opts) opts handshake_timeout receipts"

definition serve_session_from_channel ::
  "'k session_env \<Rightarrow> bytes \<Rightarrow> duration option \<Rightarrow> (server, u64 run) io" where
  "serve_session_from_channel env cookie handshake_timeout =
     io_bind (admit_options env) (\<lambda>opts.
     io_bind (if co_udp opts then channel_udp_phase env cookie opts handshake_timeout
              else channel_tcp_phase env opts handshake_timeout) (\<lambda>receipts.
     on_finished receipts (channel_finish env opts handshake_timeout)))"

section \<open>The server loop\<close>

text \<open>
  The sequential loop, one environment per session: errors and panics of a session are logged and
  the loop goes on, unless one test was asked for.
\<close>

fun run_server_loop ::
  "bool \<Rightarrow> duration option \<Rightarrow> 'k session_env list \<Rightarrow> server \<Rightarrow> unit run \<times> server" where
  "run_server_loop one_off timeout [] s = (Unfinished, s)"
| "run_server_loop one_off timeout (e # es) s =
     (case serve_one_session e timeout s of
        (Inr Unfinished, s') \<Rightarrow> (Unfinished, s')
      | (_, s') \<Rightarrow> if one_off then (Finished (), s') else run_server_loop one_off timeout es s')"

text \<open>The entry points of the integration tests: one session on a bound listener.\<close>

definition run_server_on_timeout :: "'k session_env \<Rightarrow> duration option \<Rightarrow> (server, u64 run) io" where
  "run_server_on_timeout env handshake_timeout = serve_one_session env handshake_timeout"

definition run_server_on :: "'k session_env \<Rightarrow> (server, u64 run) io" where
  "run_server_on env = run_server_on_timeout env (Some DEFAULT_HANDSHAKE_TIMEOUT)"

text \<open>
  What \<open>run_server\<close> does with a configuration: the authentication paths it installs, whether it starts
  at all, and what it tells the operator; \<open>bound\<close> is the outcome of \<open>TcpListener::bind\<close>.
\<close>

datatype startup = RefusedNoAuth | BindFailed io_kind | Sequential listener | Concurrent listener u32

datatype notice = RefusingToStart | NoAuthWarning rstr | BindError rstr io_kind | Listening u16

definition run_server ::
  "config \<Rightarrow> listener io_result \<Rightarrow> auth_paths option \<Rightarrow> startup \<times> auth_paths option \<times> notice list" where
  "run_server c bound cfg =
     (let auth_configured = cf_rsa_private_key c \<noteq> None \<and> cf_authorized_users c \<noteq> None;
          cfg' = (if auth_configured
                  then set_auth_config (cf_rsa_private_key c) (cf_authorized_users c) cfg else cfg)
      in if cf_require_auth c \<and> \<not> auth_configured then (RefusedNoAuth, cfg', [RefusingToStart])
         else
           let warned = (if \<not> auth_configured \<and> \<not> is_loopback_bind (cf_host c)
                         then [NoAuthWarning (cf_host c)] else [])
           in case bound of
                Inl k \<Rightarrow> (BindFailed k, cfg', warned @ [BindError (host_port c) k])
              | Inr l \<Rightarrow> (if 1 < cf_max_concurrent c then Concurrent l (cf_max_concurrent c)
                          else Sequential l, cfg', warned @ [Listening (cf_port c)]))"

section \<open>Lemmas\<close>

subsection \<open>Sessions on a healthy connection\<close>

text \<open>The state of a session: its control connection, and everything else by value.\<close>

definition sv_rest :: "server \<Rightarrow> listener \<times> tcp list \<times> nonce_cache \<times> line list" where
  "sv_rest s = (sv_listener s, sv_data_rx s, sv_nonces s, sv_lines s)"

definition srv ::
  "listener \<times> tcp list \<times> nonce_cache \<times> line list \<Rightarrow> bytes \<Rightarrow> bytes \<Rightarrow> server \<Rightarrow> bool" where
  "srv rest inp out s \<longleftrightarrow> tcp.chan inp out (sv_control s) \<and> sv_rest s = rest"

lemma sv_rest_control [simp]: "sv_rest (s\<lparr>sv_control := c\<rparr>) = sv_rest s"
  by (simp add: sv_rest_def)

lemma on_control_triple:
  assumes "io_ok (tcp.chan inp out) m (\<lambda>x c. P x \<and> tcp.chan inp' out' c)"
  shows "io_ok (srv rest inp out) (on_control m) (\<lambda>x s. P x \<and> srv rest inp' out' s)"
proof (rule io_okI)
  fix s assume s: "srv rest inp out s"
  then obtain x c where "m (sv_control s) = (Inr x, c)" "P x" "tcp.chan inp' out' c"
    using io_okE [OF assms, of "sv_control s"] unfolding srv_def by blast
  with s show "\<exists>x s'. on_control m s = (Inr x, s') \<and> P x \<and> srv rest inp' out' s'"
    by (simp add: on_control_def srv_def)
qed

lemma on_control_unit:
  assumes "io_ok (tcp.chan inp out) m (\<lambda>_. tcp.chan inp' out')"
  shows "io_ok (srv rest inp out) (on_control m) (\<lambda>_. srv rest inp' out')"
  using on_control_triple [of inp out m "\<lambda>_. True" inp' out' rest] assms by simp

lemma tolerate_on_control:
  assumes "io_ok (tcp.chan inp out) m (\<lambda>_. tcp.chan inp' out')"
  shows "io_ok (srv rest inp out) (tolerate_closed (on_control m)) (\<lambda>_. srv rest inp' out')"
  by (rule tolerate_closed_triple [OF on_control_unit [OF assms]])

lemma server_print_triple:
  "io_ok (srv (l, q, n, z) inp out) (server_print ls) (\<lambda>_. srv (l, q, n, z @ ls) inp out)"
  by (simp add: io_ok_def server_print_def srv_def sv_rest_def)

lemma start_test_triple:
  assumes "timeout \<noteq> Some 0"
  shows "io_ok (srv (l, q, n, z) inp out) (start_test opts timeout)
    (\<lambda>_. srv (l, q, n, z @ [IntervalHeader]) inp (out @ [message_code TestStart, message_code TestRunning]))"
  unfolding start_test_def
  by (rule io_ok_then [OF on_control_unit [OF send_test_start_running_triple]
        io_ok_then [OF server_print_triple on_control_unit [OF set_read_timeout_triple]]])
    (use assms in \<open>auto simp: run_timeout_def\<close>)

lemma finish_session_triple:
  assumes enc: "enc_results env (build_server_results rs (session_cpu env rs)) = Some body"
      "length body < 2 ^ 32"
    and dec: "dec_results env cbody = Some res" "length cbody \<le> MAX_JSON_FRAME_LEN"
    and "timeout \<noteq> Some 0" and "m = IperfDone \<or> m = ClientTerminate"
  shows "io_ok (srv (l, q, n, z) (frame cbody @ message_code m # inp) out) (finish_session env cpu opts timeout rs)
      (\<lambda>x s. x = Finished (sum_list (map rc_bytes rs)) \<and>
        srv (l, q, n, z @ closing_lines cpu opts rs (session_cpu env rs)) inp
          ((out @ [message_code ExchangeResults] @ frame body) @ [message_code DisplayResults]) s)"
proof -
  have last: "io_ok (srv rest inp o') (io_return x) (\<lambda>y s. y = x \<and> srv rest inp o' s)" for rest o' and x :: "u64 run"
    by (rule io_ok_return) simp
  show ?thesis
    unfolding finish_session_def Let_def
    by (rule io_ok_then [OF on_control_unit [OF set_read_timeout_triple [OF assms(5)]]
          io_ok_then [OF tolerate_on_control
              [OF exchange_results_triple [of "enc_results env" _ _ body "dec_results env", OF enc dec]]
            io_ok_then [OF tolerate_on_control [OF finalize_test_triple [OF assms(6)]]
              io_ok_then [OF server_print_triple last]]]])
qed

lemma readers_total:
  assumes "\<And>i. i < length ss \<Longrightarrow> tcp.chan (pay i) (out i) (ss ! i)"
  shows "map rc_bytes (join_stream_totals (spawn_stream_readers env omit (tune_streams opts ss))) =
    map (\<lambda>i. of_nat (length (pay i))) [0..<length ss]"
proof (rule nth_equalityI)
  fix i assume "i < length (map rc_bytes (join_stream_totals (spawn_stream_readers env omit (tune_streams opts ss))))"
  then have i: "i < length ss" by (simp add: join_stream_totals_def spawn_stream_readers_def tune_streams_def)
  from assms [OF i] have "rx_ok (tcp_rx (ss ! i))" "rx_bytes (tcp_rx (ss ! i)) = pay i"
    by (simp_all add: tcp.chan_def)
  moreover have "tcp_rx (snd (tcp_apply_tuning (tuning_of_options opts) (ss ! i))) = tcp_rx (ss ! i)"
    by (simp add: tcp_apply_tuning_def)
  ultimately have "rc_bytes (mt_receipt (recv_stream_bytes omit (en_reader_clock env i)
      (snd (tcp_apply_tuning (tuning_of_options opts) (ss ! i)))
      (Some (reporter_new (of_nat (i + 1)) (from_secs 1))))) = of_nat (length (pay i))"
    by (simp add: recv_stream_bytes_def recv_stream_loop_bytes stream_receipt_empty_def)
  with i show "map rc_bytes (join_stream_totals (spawn_stream_readers env omit (tune_streams opts ss))) ! i =
      map (\<lambda>i. of_nat (length (pay i))) [0..<length ss] ! i"
    by (simp add: join_stream_totals_def spawn_stream_readers_def tune_streams_def nth_enumerate_eq)
qed (simp add: join_stream_totals_def spawn_stream_readers_def tune_streams_def)

lemma run_tcp_branch_accepts:
  assumes streams: "\<And>i. i < unat (co_parallel opts) \<Longrightarrow> \<exists>d. l i = Inr d \<and> tcp.chan (cookie @ pay i) [] d"
    and cookie: "length cookie = COOKIE_LEN" and timeout: "timeout \<noteq> Some 0"
    and s: "srv (l, q, n, z) inp out s"
  obtains ss s' where "run_tcp_branch env cookie opts timeout s = tcp_data_phase env opts timeout ss s'"
    and "accept_streams cookie timeout (unat (co_parallel opts)) l = (Inr ss, \<lambda>i. l (i + unat (co_parallel opts)))"
    and "length ss = unat (co_parallel opts)" and "\<And>i. i < length ss \<Longrightarrow> tcp.chan (pay i) [] (ss ! i)"
    and "srv (\<lambda>i. l (i + unat (co_parallel opts)), q, n, z) inp (out @ [message_code CreateStreams]) s'"
proof -
  let ?n = "unat (co_parallel opts)"
  obtain s1 where s1: "on_control (send_control_byte tcp_send CreateStreams) s = (Inr (), s1)"
    "srv (l, q, n, z) inp (out @ [message_code CreateStreams]) s1"
    using io_okE [OF on_control_unit [OF tcp.send_control_byte_triple] s] by (metis (full_types) old.unit.exhaust)
  obtain ss where ss: "accept_streams cookie timeout ?n l = (Inr ss, \<lambda>i. l (i + ?n))" "length ss = ?n"
    "\<forall>i<?n. tcp.chan (pay i) [] (ss ! i)"
    using accept_streams_ok [of ?n l cookie pay, OF streams cookie timeout] by blast
  define s2 where "s2 = s1\<lparr>sv_listener := \<lambda>i. l (i + ?n)\<rparr>"
  have "accept_streams_via_listener cookie (co_parallel opts) timeout s = (Inr ss, s2)"
    using s1 ss(1) by (simp add: accept_streams_via_listener_def io_then_Inr on_listener_def srv_def sv_rest_def s2_def)
  then have "run_tcp_branch env cookie opts timeout s = tcp_data_phase env opts timeout ss s2"
    by (simp add: run_tcp_branch_def io_bind_Inr)
  moreover have "srv (\<lambda>i. l (i + ?n), q, n, z) inp (out @ [message_code CreateStreams]) s2"
    using s1(2) by (simp add: srv_def sv_rest_def s2_def)
  ultimately show thesis using that [of ss s2] ss by simp
qed

lemma tcp_forward_phase:
  assumes dir: "\<not> co_reverse opts" "\<not> co_bidirectional opts" and "timeout \<noteq> Some 0" and ms: "TestEnd \<notin> set ms"
  shows "io_ok (srv (l, q, n, z) (map message_code ms @ message_code TestEnd # inp) out)
    (tcp_data_phase env opts timeout ss)
    (\<lambda>x s. x = Finished (join_stream_totals (spawn_stream_readers env (from_secs (unat (co_omit opts))) (tune_streams opts ss))) \<and>
      srv (l, q, n, z @ [IntervalHeader]) inp (out @ [message_code TestStart, message_code TestRunning]) s)"
  unfolding tcp_data_phase_def Let_def tcp_forward_def
  by (simp only: dir if_False, rule io_ok_then [OF start_test_triple [OF assms(3)]
        io_ok_then [OF on_control_unit [OF wait_for_test_end_triple [OF ms]] io_ok_return]]) simp

lemma tcp_reverse_phase:
  assumes dir: "co_reverse opts" "\<not> co_bidirectional opts" and "timeout \<noteq> Some 0" and ms: "TestEnd \<notin> set ms"
    and "run_tcp_send_streams env opts (tune_streams opts ss) = Finished rs"
  shows "io_ok (srv (l, q, n, z) (map message_code ms @ message_code TestEnd # inp) out)
    (tcp_data_phase env opts timeout ss)
    (\<lambda>x s. x = Finished rs \<and>
      srv (l, q, n, z @ [IntervalHeader]) inp (out @ [message_code TestStart, message_code TestRunning]) s)"
  unfolding tcp_data_phase_def Let_def tcp_reverse_def assms(5) on_finished_def run.simps
  by (simp only: dir if_True if_False, rule io_ok_then [OF start_test_triple [OF assms(3)]
        io_ok_then [OF io_ok_ignore [OF on_control_unit [OF wait_for_test_end_triple [OF ms]]] io_ok_return]]) simp

subsection \<open>Admission\<close>

lemma serve_one_session_open:
  assumes "sv_listener s 0 = Inr c" and "rx_ok (tcp_rx c)" and "tx_ok (tcp_tx c)" and "tcp_out c = []"
    and "rx_bytes (tcp_rx c) = cookie @ inp" and "length cookie = COOKIE_LEN" and "timeout \<noteq> Some 0"
  obtains c' where "serve_one_session env timeout s =
      session_body env cookie timeout (s\<lparr>sv_listener := \<lambda>i. sv_listener s (Suc i), sv_control := c'\<rparr>)"
    and "tcp.chan inp [] c'"
proof -
  from assms(2-5) have "tcp.chan (cookie @ inp) [] c" by (simp add: tcp.chan_def)
  from accept_control_ok [of "sv_listener s", OF assms(1) this assms(6,7)] obtain c' where
    "accept_control timeout (sv_listener s) = (Inr (c', cookie), \<lambda>i. sv_listener s (Suc i))"
    "tcp.chan inp [] c'" by blast
  then show thesis
    by (intro that [of c']) (simp_all add: serve_one_session_def io_bind_def io_then_def on_listener_def)
qed

lemma reject_invalid_InrD: "reject_invalid opts s = (Inr (), s') \<Longrightarrow> validate_options opts = Inr () \<and> s' = s"
  by (cases "validate_options opts") (simp_all add: reject_invalid_def io_then_def io_bind_def io_ignore_def)

lemma authenticate_InrD:
  assumes "authenticate env opts s = (Inr (), s')" and "en_auth_config env = Some (Some pk, Some up)"
  shows "\<exists>n. check_auth_inner (en_auth env) pk up (en_wall env) (en_now env) opts (sv_nonces s) = (Inr (), n)"
  using assms by (auto simp: authenticate_def check_auth_def split: prod.splits sum.splits)

lemma admit_options_InrE:
  assumes "admit_options env s = (Inr opts, s')"
  obtains c where "negotiate_options (dec_options env) (sv_control s) = (Inr opts, c)"
    and "validate_options opts = Inr ()" and "authenticate env opts (s\<lparr>sv_control := c\<rparr>) = (Inr (), s')"
proof -
  from assms obtain o' s1 where n: "on_control (negotiate_options (dec_options env)) s = (Inr o', s1)"
    and "io_then (reject_invalid o') (io_then (authenticate env o') (io_return o')) s1 = (Inr opts, s')"
    unfolding admit_options_def by (elim io_bind_eq_InrE)
  from this(2) obtain s2 s3 where "reject_invalid o' s1 = (Inr (), s2)" "authenticate env o' s2 = (Inr (), s3)"
    "io_return o' s3 = (Inr opts, s')" by (elim io_then_eq_InrE)
  moreover from n obtain c where "negotiate_options (dec_options env) (sv_control s) = (Inr o', c)"
    "s1 = s\<lparr>sv_control := c\<rparr>" by (auto simp: on_control_def split: prod.splits)
  ultimately show thesis using that [of c] reject_invalid_InrD [of o' s1 s2] by simp
qed

lemma admit_options_negotiated:
  assumes "srv rest (frame body @ inp) [] s" and "dec_options env body = Some opts"
    and "length body \<le> MAX_JSON_FRAME_LEN"
  obtains s1 where "srv rest inp [message_code ParamExchange] s1"
    and "admit_options env s = io_then (reject_invalid opts) (io_then (authenticate env opts) (io_return opts)) s1"
proof -
  obtain s1 where "on_control (negotiate_options (dec_options env)) s = (Inr opts, s1)"
    "srv rest inp [message_code ParamExchange] s1"
    using io_okE [OF on_control_triple [OF negotiate_options_triple [of "dec_options env", OF assms(2,3)]] assms(1)]
    by auto
  then show thesis by (intro that [of s1]) (simp_all add: admit_options_def io_bind_Inr)
qed

lemma send_on_control:
  assumes "srv rest inp out s"
  obtains s' where "on_control (send_control_byte tcp_send m) s = (Inr (), s')"
    and "srv rest inp (out @ [message_code m]) s'"
  using io_okE [OF on_control_unit [OF tcp.send_control_byte_triple] assms] by (metis (full_types) old.unit.exhaust)

lemma reject_invalid_denies:
  assumes "validate_options opts = Inl k" and "srv rest inp out s"
  shows "\<exists>s'. reject_invalid opts s = (Inl k, s') \<and> srv rest inp (out @ [message_code AccessDenied]) s'"
proof -
  obtain s' where s': "on_control (send_control_byte tcp_send AccessDenied) s = (Inr (), s')"
    "srv rest inp (out @ [message_code AccessDenied]) s'" by (rule send_on_control [OF assms(2)])
  then have "reject_invalid opts s = (Inl k, s')"
    using assms(1) by (simp add: reject_invalid_def io_then_def io_bind_def io_ignore_def)
  with s'(2) show ?thesis by blast
qed

lemma authenticate_denies:
  assumes "en_auth_config env = Some (Some pk, Some up)" and "srv (l, q, n, z) inp out s"
    and "fst (check_auth_inner (en_auth env) pk up (en_wall env) (en_now env) opts n) = Inl e"
  shows "\<exists>n' s'. authenticate env opts s = (Inl PermissionDenied, s') \<and>
    srv (l, q, n', z) inp (out @ [message_code AccessDenied]) s'"
proof -
  have "sv_nonces s = n" using assms(2) by (simp add: srv_def sv_rest_def)
  then obtain n' where n': "check_auth_inner (en_auth env) pk up (en_wall env) (en_now env) opts (sv_nonces s) = (Inl e, n')"
    using assms(3) by (cases "check_auth_inner (en_auth env) pk up (en_wall env) (en_now env) opts n") simp
  have "tcp.chan inp out (sv_control s)" using assms(2) by (simp add: srv_def)
  from io_okE [OF tcp.send_control_byte_triple this, of AccessDenied] obtain u c where
    c: "send_control_byte tcp_send AccessDenied (sv_control s) = (Inr u, c)"
      "tcp.chan inp (out @ [message_code AccessDenied]) c" by blast
  have "authenticate env opts s = (Inl PermissionDenied, s\<lparr>sv_control := c, sv_nonces := n'\<rparr>)"
    using assms(1) n' c(1) by (simp add: authenticate_def check_auth_def)
  moreover have "srv (l, q, n', z) inp (out @ [message_code AccessDenied]) (s\<lparr>sv_control := c, sv_nonces := n'\<rparr>)"
    using c(2) assms(2) by (simp add: srv_def sv_rest_def)
  ultimately show ?thesis by blast
qed

text \<open>Authentication is off, or the token of these options passes.\<close>

definition auth_passes :: "'k session_env \<Rightarrow> client_options \<Rightarrow> nonce_cache \<Rightarrow> bool" where
  "auth_passes env opts n \<longleftrightarrow> (\<forall>pk up. en_auth_config env = Some (Some pk, Some up) \<longrightarrow>
     fst (check_auth_inner (en_auth env) pk up (en_wall env) (en_now env) opts n) = Inr ())"

lemma authenticate_passes:
  assumes "auth_passes env opts n" and "srv (l, q, n, z) inp out s"
  shows "\<exists>n' s'. authenticate env opts s = (Inr (), s') \<and> srv (l, q, n', z) inp out s'"
proof (cases "\<exists>pk up. en_auth_config env = Some (Some pk, Some up)")
  case True
  then obtain pk up where cfg: "en_auth_config env = Some (Some pk, Some up)" by blast
  obtain n' where "check_auth_inner (en_auth env) pk up (en_wall env) (en_now env) opts n = (Inr (), n')"
    using assms(1) cfg unfolding auth_passes_def by (metis prod.collapse)
  with assms(2) cfg show ?thesis
    by (intro exI [of _ n'] exI [of _ "s\<lparr>sv_nonces := n'\<rparr>"])
      (simp add: authenticate_def check_auth_def srv_def sv_rest_def)
next
  case False
  then have "check_auth (en_auth env) (en_auth_config env) w t opts st = (Inr (), st)" for w t st
    by (auto simp: check_auth_def split: option.splits)
  with assms(2) show ?thesis by (intro exI [of _ n] exI [of _ s]) (simp add: authenticate_def)
qed

lemma admit_options_passes:
  assumes "srv (l, q, n, z) (frame body @ inp) [] s" and "dec_options env body = Some opts"
    and "length body \<le> MAX_JSON_FRAME_LEN" and "validate_options opts = Inr ()" and "auth_passes env opts n"
  obtains n' s' where "admit_options env s = (Inr opts, s')"
    and "srv (l, q, n', z) inp [message_code ParamExchange] s'"
proof -
  obtain s1 where s1: "srv (l, q, n, z) inp [message_code ParamExchange] s1"
    "admit_options env s = io_then (reject_invalid opts) (io_then (authenticate env opts) (io_return opts)) s1"
    by (rule admit_options_negotiated [of _ body inp s env, OF assms(1-3)])
  from authenticate_passes [OF assms(5) s1(1)] obtain n' s' where
    "authenticate env opts s1 = (Inr (), s')" "srv (l, q, n', z) inp [message_code ParamExchange] s'" by blast
  with s1(2) assms(4) that [of s' n'] show thesis
    by (simp add: io_then_def io_bind_def reject_invalid_def)
qed

text \<open>
  A TCP test from the first byte to the last; \<open>P\<close> is what the data phase establishes about the receipts.
\<close>

lemma tcp_session_runs:
  assumes control: "sv_listener s 0 = Inr c" "rx_ok (tcp_rx c)" "tx_ok (tcp_tx c)" "tcp_out c = []"
      "rx_bytes (tcp_rx c) = cookie @ frame obody @ map message_code ms @ [message_code TestEnd] @
        frame cbody @ [message_code IperfDone]"
    and streams: "\<And>i. i < unat (co_parallel opts) \<Longrightarrow> \<exists>d. sv_listener s (Suc i) = Inr d \<and>
        tcp.chan (cookie @ pay i) [] d"
    and json: "dec_options env obody = Some opts" "dec_results env cbody = Some res"
    and sizes: "length cookie = COOKIE_LEN" "length obody \<le> MAX_JSON_FRAME_LEN"
        "length cbody \<le> MAX_JSON_FRAME_LEN" "timeout \<noteq> Some 0"
    and opts: "validate_options opts = Inr ()" "\<not> co_udp opts" "auth_passes env opts (sv_nonces s)"
    and phase: "\<And>ss l' l q n z inp out.
        accept_streams cookie timeout (unat (co_parallel opts)) (\<lambda>i. sv_listener s (Suc i)) = (Inr ss, l') \<Longrightarrow> length ss = unat (co_parallel opts) \<Longrightarrow>
        (\<And>i. i < length ss \<Longrightarrow> tcp.chan (pay i) [] (ss ! i)) \<Longrightarrow>
        \<exists>rs. P rs \<and> io_ok (srv (l, q, n, z) (map message_code ms @ message_code TestEnd # inp) out)
          (tcp_data_phase env opts timeout ss) (\<lambda>x s. x = Finished rs \<and>
            srv (l, q, n, z @ [IntervalHeader]) inp (out @ [message_code TestStart, message_code TestRunning]) s)"
    and results: "\<And>rs. P rs \<Longrightarrow>
        \<exists>b. enc_results env (build_server_results rs (session_cpu env rs)) = Some b \<and> length b < 2 ^ 32"
  shows "\<exists>rs body s'. P rs \<and> serve_one_session env timeout s = (Inr (Finished (sum_list (map rc_bytes rs))), s') \<and>
    enc_results env (build_server_results rs (session_cpu env rs)) = Some body \<and>
    tcp_out (sv_control s') = map message_code [ParamExchange, CreateStreams, TestStart, TestRunning,
      ExchangeResults] @ frame body @ [message_code DisplayResults] \<and>
    sv_listener s' = (\<lambda>i. sv_listener s (i + unat (co_parallel opts) + 1)) \<and>
    sv_lines s' = sv_lines s @ IntervalHeader # closing_lines True opts rs (session_cpu env rs)"
proof -
  let ?n = "unat (co_parallel opts)" and ?l = "\<lambda>i. sv_listener s (Suc i)"
  let ?tail = "frame cbody @ [message_code IperfDone]"
  obtain c' where c': "serve_one_session env timeout s =
      session_body env cookie timeout (s\<lparr>sv_listener := ?l, sv_control := c'\<rparr>)"
    "tcp.chan (frame obody @ map message_code ms @ [message_code TestEnd] @ ?tail) [] c'"
    by (rule serve_one_session_open [of s, OF control sizes(1,4)])
  define s1 where "s1 = s\<lparr>sv_listener := ?l, sv_control := c'\<rparr>"
  have s1: "srv (?l, sv_data_rx s, sv_nonces s, sv_lines s)
      (frame obody @ map message_code ms @ message_code TestEnd # ?tail) [] s1"
    using c'(2) by (simp add: srv_def sv_rest_def s1_def)
  obtain n s2 where s2: "admit_options env s1 = (Inr opts, s2)"
    "srv (?l, sv_data_rx s, n, sv_lines s)
      (map message_code ms @ message_code TestEnd # ?tail) [message_code ParamExchange] s2"
    by (rule admit_options_passes [of _ _ _ _ obody _ s1 env, OF s1 json(1) sizes(2) opts(1,3)])
  obtain ss s3 where s3: "run_tcp_branch env cookie opts timeout s2 = tcp_data_phase env opts timeout ss s3"
    "accept_streams cookie timeout ?n ?l = (Inr ss, \<lambda>i. ?l (i + ?n))" "length ss = ?n" "\<And>i. i < length ss \<Longrightarrow> tcp.chan (pay i) [] (ss ! i)"
    "srv (\<lambda>i. ?l (i + ?n), sv_data_rx s, n, sv_lines s) (map message_code ms @ message_code TestEnd # ?tail)
      ([message_code ParamExchange] @ [message_code CreateStreams]) s3"
    using run_tcp_branch_accepts [of opts ?l cookie pay, OF streams sizes(1,4) s2(2), of env] by blast
  from phase [OF s3(2,3,4)] obtain rs where rs: "P rs"
    "\<exists>x s'. tcp_data_phase env opts timeout ss s3 = (Inr x, s') \<and> x = Finished rs \<and>
      srv (\<lambda>i. ?l (i + ?n), sv_data_rx s, n, sv_lines s @ [IntervalHeader]) ?tail
        (([message_code ParamExchange] @ [message_code CreateStreams]) @ [message_code TestStart, message_code TestRunning]) s'"
    using s3(5) unfolding io_ok_def by blast
  then obtain s4 where s4: "tcp_data_phase env opts timeout ss s3 = (Inr (Finished rs), s4)"
    "srv (\<lambda>i. ?l (i + ?n), sv_data_rx s, n, sv_lines s @ [IntervalHeader]) ?tail
      (([message_code ParamExchange] @ [message_code CreateStreams]) @ [message_code TestStart, message_code TestRunning]) s4"
    by blast
  obtain body where body: "enc_results env (build_server_results rs (session_cpu env rs)) = Some body"
    "length body < 2 ^ 32" using results [OF rs(1)] by blast
  obtain s5 where s5: "finish_session env True opts timeout rs s4 = (Inr (Finished (sum_list (map rc_bytes rs))), s5)"
    "srv (\<lambda>i. ?l (i + ?n), sv_data_rx s, n, (sv_lines s @ [IntervalHeader]) @ closing_lines True opts rs (session_cpu env rs)) []
      (map message_code [ParamExchange, CreateStreams, TestStart, TestRunning, ExchangeResults] @
        frame body @ [message_code DisplayResults]) s5"
    using io_okE [OF finish_session_triple [of env, OF body json(2) sizes(3,4)] s4(2)] by auto
  have "serve_one_session env timeout s = (Inr (Finished (sum_list (map rc_bytes rs))), s5)"
    using c'(1) s2(1) s3(1) s4(1) s5(1) opts(2)
    by (simp add: session_body_def io_bind_def s1_def [symmetric] on_finished_def)
  then show ?thesis
    using s5(2) rs(1) body(1) by - (rule exI [of _ rs], rule exI [of _ body], rule exI [of _ s5],
      simp add: srv_def sv_rest_def tcp.chan_def)
qed

lemma tcp_session_complete:
  assumes control: "sv_listener s 0 = Inr c" "rx_ok (tcp_rx c)" "tx_ok (tcp_tx c)" "tcp_out c = []"
      "rx_bytes (tcp_rx c) = cookie @ frame obody @ map message_code ms @ [message_code TestEnd] @
        frame cbody @ [message_code IperfDone]"
    and streams: "\<And>i. i < unat (co_parallel opts) \<Longrightarrow> \<exists>d. sv_listener s (Suc i) = Inr d \<and>
        rx_ok (tcp_rx d) \<and> rx_closed (tcp_rx d) \<and> tx_ok (tcp_tx d) \<and> tcp_out d = [] \<and>
        rx_bytes (tcp_rx d) = cookie @ pay i"
    and json: "dec_options env obody = Some opts" "dec_results env cbody = Some res"
        "\<And>r. map sr_bytes (re_streams r) = map (\<lambda>i. of_nat (length (pay i))) [0..<unat (co_parallel opts)] \<Longrightarrow>
          \<exists>b. enc_results env r = Some b \<and> length b < 2 ^ 32"
    and sizes: "length cookie = COOKIE_LEN" "length obody \<le> MAX_JSON_FRAME_LEN"
        "length cbody \<le> MAX_JSON_FRAME_LEN" "timeout \<noteq> Some 0" "TestEnd \<notin> set ms"
    and opts: "validate_options opts = Inr ()" "\<not> co_udp opts" "\<not> co_reverse opts"
        "\<not> co_bidirectional opts" "auth_passes env opts (sv_nonces s)"
  shows "\<exists>rs body s'. serve_one_session env timeout s =
      (Inr (Finished (of_nat (\<Sum>i<unat (co_parallel opts). length (pay i)))), s') \<and>
    enc_results env (build_server_results rs (session_cpu env rs)) = Some body \<and>
    map rc_bytes rs = map (\<lambda>i. of_nat (length (pay i))) [0..<unat (co_parallel opts)] \<and>
    tcp_out (sv_control s') = map message_code [ParamExchange, CreateStreams, TestStart, TestRunning,
      ExchangeResults] @ frame body @ [message_code DisplayResults] \<and>
    sv_listener s' = (\<lambda>i. sv_listener s (i + unat (co_parallel opts) + 1)) \<and>
    sv_lines s' = sv_lines s @ IntervalHeader # closing_lines True opts rs (session_cpu env rs)"
proof -
  let ?n = "unat (co_parallel opts)"
  let ?P = "\<lambda>rs. map rc_bytes rs = map (\<lambda>i. of_nat (length (pay i)) :: u64) [0..<?n]"
  have "\<exists>d. sv_listener s (Suc i) = Inr d \<and> tcp.chan (cookie @ pay i) [] d" if "i < ?n" for i
    using streams [OF that] by (auto simp: tcp.chan_def)
  moreover have "\<exists>rs. ?P rs \<and> io_ok (srv (l, q, n, z) (map message_code ms @ message_code TestEnd # inp) out)
      (tcp_data_phase env opts timeout ss) (\<lambda>x s. x = Finished rs \<and>
        srv (l, q, n, z @ [IntervalHeader]) inp (out @ [message_code TestStart, message_code TestRunning]) s)"
    if "length ss = ?n" "\<And>i. i < length ss \<Longrightarrow> tcp.chan (pay i) [] (ss ! i)" for ss l q n z inp out
  proof (rule exI, rule conjI)
    show "?P (join_stream_totals (spawn_stream_readers env (from_secs (unat (co_omit opts))) (tune_streams opts ss)))"
      using readers_total [of ss pay "\<lambda>_. []", OF that(2)] that(1) by simp
  qed (rule tcp_forward_phase [OF opts(3,4) sizes(4,5)])
  moreover have "\<exists>b. enc_results env (build_server_results rs (session_cpu env rs)) = Some b \<and> length b < 2 ^ 32"
    if "?P rs" for rs
    using json(3) [of "build_server_results rs (session_cpu env rs)"] that by auto
  ultimately obtain rs body s' where r: "?P rs" "serve_one_session env timeout s = (Inr (Finished (sum_list (map rc_bytes rs))), s')"
    "enc_results env (build_server_results rs (session_cpu env rs)) = Some body \<and>
     tcp_out (sv_control s') = map message_code [ParamExchange, CreateStreams, TestStart, TestRunning,
      ExchangeResults] @ frame body @ [message_code DisplayResults] \<and>
     sv_listener s' = (\<lambda>i. sv_listener s (i + ?n + 1)) \<and>
     sv_lines s' = sv_lines s @ IntervalHeader # closing_lines True opts rs (session_cpu env rs)"
    using tcp_session_runs [of s c cookie obody ms cbody opts pay env res timeout ?P,
        OF control _ json(1,2) sizes(1-4) opts(1,2,5)] by auto
  moreover have "sum_list (map rc_bytes rs) = of_nat (\<Sum>i<?n. length (pay i))"
    by (simp add: r(1) interv_sum_list_conv_sum_set_nat atLeast0LessThan)
  ultimately show ?thesis by - (rule exI [of _ rs], rule exI [of _ body], rule exI [of _ s'], simp)
qed

end
