(* ===== verification/Server_Properties.thy ===== *)
theory Server_Properties
  imports Server
begin

text \<open>
  What the sessions of \<open>Server\<close> guarantee: the transcript of a complete test in either direction, the
  refusals, what validated options rule out, and the warning of a server without authentication.
\<close>

section \<open>A concrete session\<close>

text \<open>The session of the witnesses: one stream of three bytes, a keep-alive message before the end.\<close>

definition sample_opts :: client_options where
  "sample_opts = tcp_defaults 10 1 4096"

definition sample_session_env :: "client_options \<Rightarrow> unit session_env" where
  "sample_session_env opts =
     \<lparr>en_parse = (\<lambda>b. if b = [1] then Some (JObj (client_options_fields opts))
                     else if b = [2] then Some (JObj (results_fields results_empty)) else None),
      en_print = (\<lambda>_. Some [3]), en_auth_config = None, en_auth = sample_env, en_wall = Some 1000,
      en_now = 0, en_sysconf = 100,
      en_cpu_start = \<lparr>cpu_user_ticks = 0, cpu_system_ticks = 0\<rparr>,
      en_cpu_end = \<lparr>cpu_user_ticks = 5, cpu_system_ticks = 1\<rparr>,
      en_reader_clock = (\<lambda>_ i. i), en_sender = (\<lambda>_. (0, [])), en_tcp_clone = (\<lambda>_. Inr ()),
      en_local_addr = Inr (), en_udp_bind = Inl OtherKind, en_udp_port = Inl OtherKind,
      en_udp_split = Inr (), en_udp_turns = [], en_udp_clone = (\<lambda>_. None),
      en_packets = (\<lambda>_. (0, 0, [], 0, 0))\<rparr>"

definition sample_listener :: "bytes \<Rightarrow> listener" where
  "sample_listener inp i =
     (if i = 0 then Inr (sample_tcp [RxData (sample_cookie @ inp)])
      else Inr (sample_tcp [RxData (sample_cookie @ [7, 7]), RxData [7], RxData []]))"

definition sample_server :: "bytes \<Rightarrow> server" where
  "sample_server inp = \<lparr>sv_listener = sample_listener inp, sv_data_rx = [], sv_control = sample_tcp [],
     sv_nonces = nonce_cache_new, sv_lines = []\<rparr>"

lemma sample_decodes:
  "dec_options (sample_session_env opts) [1] = Some opts"
  "dec_results (sample_session_env opts) [2] = Some results_empty"
  "enc_results (sample_session_env opts) r = Some [3]"
  using client_options_build_fields [of "[]" opts] results_json_parse [of results_empty]
  by (simp_all add: dec_options_def dec_results_def enc_results_def sample_session_env_def
      unknown_keys_def)

section \<open>Properties\<close>

text \<open>
  (C5) A forward TCP test from the first byte to the last. Whatever the chunking of the control and
  data connections, the server answers with exactly the messages of the protocol in order, accepts
  exactly the announced number of streams, returns the number of payload bytes the client sent,
  reports the bytes of each stream and prints the header and one summary. Control messages that arrive before \<open>TestEnd\<close> are skipped.
\<close>

theorem tcp_session_transcript:
  assumes control: "sv_listener s 0 = Inr c" "rx_ok (tcp_rx c)" "tx_ok (tcp_tx c)" "tcp_out c = []"
      "rx_bytes (tcp_rx c) = cookie @ frame obody @ map message_code ms @ [message_code TestEnd] @
        frame cbody @ [message_code IperfDone]"
    and streams: "\<And>i. i < unat (co_parallel opts) \<Longrightarrow> \<exists>d. sv_listener s (Suc i) = Inr d \<and>
        rx_ok (tcp_rx d) \<and> rx_closed (tcp_rx d) \<and> tx_ok (tcp_tx d) \<and> tcp_out d = [] \<and>
        rx_bytes (tcp_rx d) = cookie @ pay i"
    and json: "dec_options env obody = Some opts" "dec_results env cbody = Some res"
        "\<And>r. map sr_bytes (re_streams r) = map (\<lambda>i. of_nat (length (pay i))) [0..<unat (co_parallel opts)] \<Longrightarrow>
          \<exists>b. enc_results env r = Some b \<and> length b < 2 ^ 32"
    and sizes: "length cookie = COOKIE_LEN" "length obody \<le> MAX_JSON_FRAME_LEN"
        "length cbody \<le> MAX_JSON_FRAME_LEN" "timeout \<noteq> Some 0" "TestEnd \<notin> set ms"
    and opts: "validate_options opts = Inr ()" "\<not> co_udp opts" "\<not> co_reverse opts"
        "\<not> co_bidirectional opts" "auth_passes env opts (sv_nonces s)"
  shows "\<exists>rs body s'. serve_one_session env timeout s =
      (Inr (Finished (of_nat (\<Sum>i<unat (co_parallel opts). length (pay i)))), s') \<and>
    enc_results env (build_server_results rs (session_cpu env rs)) = Some body \<and>
    map rc_bytes rs = map (\<lambda>i. of_nat (length (pay i))) [0..<unat (co_parallel opts)] \<and>
    tcp_out (sv_control s') = map message_code [ParamExchange, CreateStreams, TestStart, TestRunning,
      ExchangeResults] @ frame body @ [message_code DisplayResults] \<and>
    sv_listener s' = (\<lambda>i. sv_listener s (i + unat (co_parallel opts) + 1)) \<and>
    sv_lines s' = sv_lines s @ IntervalHeader # closing_lines True opts rs (session_cpu env rs)"
  using assms by (rule tcp_session_complete)

theorem tcp_session_transcript_witness:
  "\<exists>s'. serve_one_session (sample_session_env sample_opts) (Some 5)
      (sample_server (frame [1] @ [message_code ResultRequest, message_code TestEnd] @ frame [2] @ [message_code IperfDone])) =
    (Inr (Finished 3), s')"
proof -
  let ?inp = "frame [1] @ map message_code [ResultRequest] @ [message_code TestEnd] @ frame [2] @ [message_code IperfDone]"
  let ?c = "sample_tcp [RxData (sample_cookie @ ?inp)]"
  have n: "unat (co_parallel sample_opts) = 1" by (simp add: sample_opts_def tcp_defaults_def)
  have "\<exists>rs body s'. serve_one_session (sample_session_env sample_opts) (Some 5) (sample_server ?inp) =
      (Inr (Finished (of_nat (\<Sum>i<unat (co_parallel sample_opts). length [7 :: u8, 7, 7]))), s') \<and>
    enc_results (sample_session_env sample_opts) (build_server_results rs (session_cpu (sample_session_env sample_opts) rs)) = Some body \<and>
    map rc_bytes rs = map (\<lambda>i. of_nat (length [7 :: u8, 7, 7])) [0..<unat (co_parallel sample_opts)] \<and>
    tcp_out (sv_control s') = map message_code [ParamExchange, CreateStreams, TestStart, TestRunning,
      ExchangeResults] @ frame body @ [message_code DisplayResults] \<and>
    sv_listener s' = (\<lambda>i. sv_listener (sample_server ?inp) (i + unat (co_parallel sample_opts) + 1)) \<and>
    sv_lines s' = sv_lines (sample_server ?inp) @ IntervalHeader #
      closing_lines True sample_opts rs (session_cpu (sample_session_env sample_opts) rs)"
    by (rule tcp_session_transcript [of "sample_server ?inp" ?c sample_cookie "[1]" "[ResultRequest]" "[2]"
          sample_opts "\<lambda>_. [7, 7, 7]" _ results_empty])
      (simp_all add: sample_server_def sample_listener_def sample_tcp_def sample_decodes sample_cookie_def
        COOKIE_LEN_def MAX_JSON_FRAME_LEN_def validate_options_iff rx_closed_def,
       simp_all add: sample_opts_def tcp_defaults_def sample_session_env_def auth_passes_def)
  then show ?thesis by (auto simp: n)
qed

text \<open>A thread of the reverse test that sees the end of the test in some round.\<close>

definition sender_due :: "client_options \<Rightarrow> instant \<times> send_turn list \<Rightarrow> bool" where
  "sender_due opts p \<longleftrightarrow>
     (\<exists>t\<in>set (snd p). stream_duration (co_time opts) (co_omit opts) \<le> st_head t - fst p)"

lemma sender_thread_ends:
  assumes "sender_due opts p" and "0 < unat (co_len opts)" and "tcp_out s = []"
  obtains m s' where "tcp_send_stream opts sid (fst p) (snd p) s = Finished (m, s')"
    and "tcp_out s' = replicate (length (tcp_out s')) 1"
    and "rc_bytes (mt_receipt m) = of_nat (length (tcp_out s'))"
proof -
  from assms(1) obtain pre t post where t: "snd p = pre @ t # post"
    "stream_duration (co_time opts) (co_omit opts) \<le> st_head t - fst p"
    by (auto simp: sender_due_def dest: split_list)
  let ?s = "snd (tcp_apply_tuning (tuning_of_options opts) (snd (tcp_set_nonblocking False s)))"
  have "should_stop (timer_new (fst p)) (st_head t) (stream_duration (co_time opts) (co_omit opts))"
    using t(2) by (simp add: should_stop_def timer_is_elapsed_def timer_elapsed_def timer_new_def duration_since_def)
  from server_meter.send_loop_ends [OF this assms(2)] obtain m s' where
    r: "tcp_send_stream opts sid (fst p) (snd p) s = Finished (m, s')"
    unfolding tcp_send_stream_def Let_def t(1) by blast
  then obtain k where "tcp_out s' = tcp_out ?s @ replicate k 1" "rc_bytes (mt_receipt m) = of_nat k"
    using server_meter.send_loop_counts unfolding tcp_send_stream_def Let_def
    by (fastforce simp: stream_receipt_empty_def)
  moreover have "tcp_out ?s = []" using assms(3) by (simp add: tcp_apply_tuning_def tcp_set_nonblocking_def)
  ultimately show thesis using that [OF r] by simp
qed

text \<open>What the threads wrote, stream by stream.\<close>

definition sent_on ::
  "'k session_env \<Rightarrow> client_options \<Rightarrow> nat \<Rightarrow> tcp \<Rightarrow> stream_receipt \<Rightarrow> nat \<Rightarrow> bool" where
  "sent_on env opts i d r k \<longleftrightarrow>
     (\<exists>m d'. tcp_send_stream opts (of_nat (i + 1)) (fst (en_sender env i)) (snd (en_sender env i)) d = Finished (m, d') \<and>
        tcp_out d' = replicate k 1 \<and> r = mt_receipt m \<and> rc_bytes r = of_nat k)"

lemma run_tcp_send_streams_ends:
  assumes "\<And>i. i < length ss \<Longrightarrow> sender_due opts (en_sender env i) \<and> tcp_out (ss ! i) = []" and "0 < unat (co_len opts)"
  shows "\<exists>rs ks. run_tcp_send_streams env opts ss = Finished rs \<and> length rs = length ss \<and> length ks = length ss \<and>
    (\<forall>i<length ss. sent_on env opts i (ss ! i) (rs ! i) (ks ! i))"
proof -
  let ?run = "\<lambda>i. tcp_send_stream opts (of_nat (i + 1)) (fst (en_sender env i)) (snd (en_sender env i)) (ss ! i)"
  have "\<exists>r k. join_receipt (?run i) stream_receipt_empty = Some r \<and> sent_on env opts i (ss ! i) r k" if i: "i < length ss" for i
  proof -
    obtain m d' where "?run i = Finished (m, d')" "tcp_out d' = replicate (length (tcp_out d')) 1"
      "rc_bytes (mt_receipt m) = of_nat (length (tcp_out d'))"
      using sender_thread_ends [OF conjunct1 [OF assms(1) [OF i]] assms(2) conjunct2 [OF assms(1) [OF i]]] by blast
    then show ?thesis unfolding sent_on_def join_receipt_def by auto
  qed
  then obtain R K where rk: "\<And>i. i < length ss \<Longrightarrow> join_receipt (?run i) stream_receipt_empty = Some (R i)"
    "\<And>i. i < length ss \<Longrightarrow> sent_on env opts i (ss ! i) (R i) (K i)" by metis
  have "enumerate 0 ss = map (\<lambda>i. (i, ss ! i)) [0..<length ss]"
    by (rule nth_equalityI) (simp_all add: nth_enumerate_eq)
  then have "run_tcp_send_streams env opts ss =
      join_all (map (\<lambda>i. join_receipt (?run i) stream_receipt_empty) [0..<length ss])"
    by (simp add: run_tcp_send_streams_def comp_def)
  also have "\<dots> = Finished (map R [0..<length ss])"
    using those_map_Some [of "[0..<length ss]" _ R, OF rk(1)] by (simp add: join_all_def)
  finally show ?thesis using rk(2) by (intro exI [of _ "map R [0..<length ss]"] exI [of _ "map K [0..<length ss]"]) simp
qed

text \<open>
  (C8) A reverse TCP test from the first byte to the last: when every sending thread sees the end of the
  test, the session ends with the messages of the protocol in order; on each of the connections the session
  accepted its thread has written payload bytes only, the results report for that stream exactly the number
  of bytes the kernel took, and the session returns their sum.
\<close>

theorem tcp_reverse_transcript:
  assumes control: "sv_listener s 0 = Inr c" "rx_ok (tcp_rx c)" "tx_ok (tcp_tx c)" "tcp_out c = []"
      "rx_bytes (tcp_rx c) = cookie @ frame obody @ map message_code ms @ [message_code TestEnd] @
        frame cbody @ [message_code IperfDone]"
    and streams: "\<And>i. i < unat (co_parallel opts) \<Longrightarrow> sender_due opts (en_sender env i) \<and>
        (\<exists>d. sv_listener s (Suc i) = Inr d \<and> tcp.chan cookie [] d)"
    and json: "dec_options env obody = Some opts" "dec_results env cbody = Some res"
        "\<And>r. length (re_streams r) = unat (co_parallel opts) \<Longrightarrow> \<exists>b. enc_results env r = Some b \<and> length b < 2 ^ 32"
    and sizes: "length cookie = COOKIE_LEN" "length obody \<le> MAX_JSON_FRAME_LEN"
        "length cbody \<le> MAX_JSON_FRAME_LEN" "timeout \<noteq> Some 0" "TestEnd \<notin> set ms"
    and opts: "validate_options opts = Inr ()" "\<not> co_udp opts" "co_reverse opts"
        "\<not> co_bidirectional opts" "auth_passes env opts (sv_nonces s)"
  shows "\<exists>ss l' rs ks body s'.
    accept_streams cookie timeout (unat (co_parallel opts)) (\<lambda>i. sv_listener s (Suc i)) = (Inr ss, l') \<and>
    length ks = unat (co_parallel opts) \<and> map rc_bytes rs = map of_nat ks \<and>
    (\<forall>i<length ks. tcp_out (ss ! i) = [] \<and> sent_on env opts i (tune_streams opts ss ! i) (rs ! i) (ks ! i)) \<and>
    serve_one_session env timeout s = (Inr (Finished (of_nat (sum_list ks))), s') \<and>
    enc_results env (build_server_results rs (session_cpu env rs)) = Some body \<and>
    tcp_out (sv_control s') = map message_code [ParamExchange, CreateStreams, TestStart, TestRunning,
      ExchangeResults] @ frame body @ [message_code DisplayResults]"
proof -
  let ?n = "unat (co_parallel opts)"
  let ?acc = "\<lambda>ss l'. accept_streams cookie timeout ?n (\<lambda>i. sv_listener s (Suc i)) = (Inr ss, l')"
  let ?on = "\<lambda>ss rs ks. length ks = ?n \<and>
    (\<forall>i<?n. tcp_out (ss ! i) = [] \<and> sent_on env opts i (tune_streams opts ss ! i) (rs ! i) (ks ! i))"
  define P where "P rs \<longleftrightarrow> length rs = ?n \<and> (\<exists>ss l' ks. ?acc ss l' \<and> ?on ss rs ks)" for rs
  have len: "0 < unat (co_len opts)" using opts(1) by (simp add: validate_options_iff unat_gt_0)
  have "\<exists>rs. P rs \<and> io_ok (srv (l, q, n, z) (map message_code ms @ message_code TestEnd # inp) out)
      (tcp_data_phase env opts timeout ss) (\<lambda>x s. x = Finished rs \<and>
        srv (l, q, n, z @ [IntervalHeader]) inp (out @ [message_code TestStart, message_code TestRunning]) s)"
    if acc: "?acc ss l'" and ss: "length ss = ?n" "\<And>i. i < length ss \<Longrightarrow> tcp.chan [] [] (ss ! i)"
    for ss l' l q n z inp out
  proof -
    have t: "tcp_out (tune_streams opts ss ! i) = [] \<and> tcp_out (ss ! i) = []" if "i < length ss" for i
      using ss(2) [OF that] that by (simp add: tune_streams_def tcp_apply_tuning_def tcp.chan_def)
    have l: "length (tune_streams opts ss) = ?n" using ss(1) by (simp add: tune_streams_def)
    from run_tcp_send_streams_ends [of "tune_streams opts ss" opts env] obtain rs ks where
      r: "run_tcp_send_streams env opts (tune_streams opts ss) = Finished rs" "length rs = ?n" "length ks = ?n"
      "\<forall>i<?n. sent_on env opts i (tune_streams opts ss ! i) (rs ! i) (ks ! i)"
      using t l ss(1) streams len by auto
    have "?on ss rs ks" using r(3,4) t ss(1) by auto
    with acc r(2) have "P rs" unfolding P_def by blast
    moreover note tcp_reverse_phase [OF opts(3,4) sizes(4,5) r(1)]
    ultimately show ?thesis by blast
  qed
  moreover have "\<exists>b. enc_results env (build_server_results rs (session_cpu env rs)) = Some b \<and> length b < 2 ^ 32"
    if "P rs" for rs
    by (rule json(3)) (use that in \<open>simp add: build_server_results_def P_def\<close>)
  moreover have "\<exists>d. sv_listener s (Suc i) = Inr d \<and> tcp.chan (cookie @ []) [] d" if "i < ?n" for i
    using streams [OF that] by simp
  ultimately obtain rs body s' where r: "P rs"
    "serve_one_session env timeout s = (Inr (Finished (sum_list (map rc_bytes rs))), s')"
    "enc_results env (build_server_results rs (session_cpu env rs)) = Some body"
    "tcp_out (sv_control s') = map message_code [ParamExchange, CreateStreams, TestStart, TestRunning,
      ExchangeResults] @ frame body @ [message_code DisplayResults]"
    using tcp_session_runs [of s c cookie obody ms cbody opts "\<lambda>_. []" env res timeout P,
        OF control _ json(1,2) sizes(1-4) opts(1,2,5)] by auto
  then obtain ss l' ks where acc: "?acc ss l'" and ks: "length ks = ?n"
      "\<forall>i<?n. tcp_out (ss ! i) = [] \<and> sent_on env opts i (tune_streams opts ss ! i) (rs ! i) (ks ! i)" unfolding P_def by blast
  then have "map rc_bytes rs = map of_nat ks" using r(1) by (intro nth_equalityI) (auto simp: sent_on_def P_def)
  moreover from this have "sum_list (map rc_bytes rs) = of_nat (sum_list ks)" by (induction ks arbitrary: rs) auto
  ultimately show ?thesis using r(2-4) ks acc
    by - (rule exI [of _ ss], rule exI [of _ l'], rule exI [of _ rs], rule exI [of _ ks], rule exI [of _ body],
      rule exI [of _ s'], simp)
qed

definition sample_reverse_opts :: client_options where
  "sample_reverse_opts = (tcp_defaults 1 1 4)\<lparr>co_reverse := True\<rparr>"

definition sample_reverse_env :: "unit session_env" where
  "sample_reverse_env = (sample_session_env sample_reverse_opts)
     \<lparr>en_sender := \<lambda>_. (0, map sample_turn [3, from_secs 1])\<rparr>"

definition sample_reverse_server :: server where
  "sample_reverse_server = (sample_server [])\<lparr>sv_listener := \<lambda>i.
     if i = 0 then Inr (sample_tcp [RxData (sample_cookie @ frame [1] @ [message_code TestEnd] @ frame [2] @ [message_code IperfDone])])
     else Inr (sample_tcp [RxData sample_cookie])\<rparr>"

lemma sample_reverse_decodes:
  "dec_options sample_reverse_env [1] = Some sample_reverse_opts"
  "dec_results sample_reverse_env [2] = Some results_empty"
  "enc_results sample_reverse_env r = Some [3]"
  using sample_decodes [of sample_reverse_opts]
  by (simp_all add: sample_reverse_env_def dec_options_def dec_results_def enc_results_def)

theorem tcp_reverse_transcript_witness:
  "\<exists>ss l' rs k s'. accept_streams sample_cookie (Some 5) 1 (\<lambda>i. sv_listener sample_reverse_server (Suc i)) = (Inr ss, l') \<and>
    sent_on sample_reverse_env sample_reverse_opts 0 (tune_streams sample_reverse_opts ss ! 0) (rs ! 0) k \<and>
    serve_one_session sample_reverse_env (Some 5) sample_reverse_server = (Inr (Finished (of_nat k)), s')"
proof -
  let ?c = "sample_tcp [RxData (sample_cookie @ frame [1] @ map message_code [] @ [message_code TestEnd] @ frame [2] @ [message_code IperfDone])]"
  have n: "unat (co_parallel sample_reverse_opts) = 1" by (simp add: sample_reverse_opts_def tcp_defaults_def)
  have "\<exists>ss l' rs ks body s'. accept_streams sample_cookie (Some 5) (unat (co_parallel sample_reverse_opts))
      (\<lambda>i. sv_listener sample_reverse_server (Suc i)) = (Inr ss, l') \<and>
    length ks = unat (co_parallel sample_reverse_opts) \<and> map rc_bytes rs = map of_nat ks \<and>
    (\<forall>i<length ks. tcp_out (ss ! i) = [] \<and>
      sent_on sample_reverse_env sample_reverse_opts i (tune_streams sample_reverse_opts ss ! i) (rs ! i) (ks ! i)) \<and>
    serve_one_session sample_reverse_env (Some 5) sample_reverse_server = (Inr (Finished (of_nat (sum_list ks))), s') \<and>
    enc_results sample_reverse_env (build_server_results rs (session_cpu sample_reverse_env rs)) = Some body \<and>
    tcp_out (sv_control s') = map message_code [ParamExchange, CreateStreams, TestStart, TestRunning,
      ExchangeResults] @ frame body @ [message_code DisplayResults]"
    by (rule tcp_reverse_transcript [of sample_reverse_server ?c sample_cookie "[1]" "[]" "[2]" sample_reverse_opts
          sample_reverse_env results_empty])
      (simp_all add: sample_reverse_server_def sample_tcp_def sample_reverse_decodes sample_cookie_def tcp.chan_def
        COOKIE_LEN_def MAX_JSON_FRAME_LEN_def validate_options_iff sender_due_def,
       simp_all add: sample_reverse_opts_def tcp_defaults_def sample_reverse_env_def sample_session_env_def auth_passes_def
        sample_turn_def stream_duration_def)
  then obtain ss l' rs ks s' where r: "accept_streams sample_cookie (Some 5) 1 (\<lambda>i. sv_listener sample_reverse_server (Suc i)) = (Inr ss, l')"
    "length ks = 1" "sent_on sample_reverse_env sample_reverse_opts 0 (tune_streams sample_reverse_opts ss ! 0) (rs ! 0) (ks ! 0)"
    "serve_one_session sample_reverse_env (Some 5) sample_reverse_server = (Inr (Finished (of_nat (sum_list ks))), s')"
    unfolding n by auto
  moreover from r(2) have "sum_list ks = ks ! 0" by (cases ks) simp_all
  ultimately show ?thesis by metis
qed

text \<open>
  (C15) A refused peer gets nothing: when the options are out of range, or authentication is configured
  and the token does not pass, the session ends with an error after exactly the request for the
  options and \<open>AccessDenied\<close>; no stream is accepted and no test is recorded.
\<close>

theorem session_refused:
  assumes control: "sv_listener s 0 = Inr c" "rx_ok (tcp_rx c)" "tx_ok (tcp_tx c)" "tcp_out c = []"
      "rx_bytes (tcp_rx c) = cookie @ frame obody @ rest"
    and sizes: "length cookie = COOKIE_LEN" "timeout \<noteq> Some 0" "length obody \<le> MAX_JSON_FRAME_LEN"
    and opts: "dec_options env obody = Some opts"
    and bad: "validate_options opts \<noteq> Inr () \<or> (\<exists>pk up e. en_auth_config env = Some (Some pk, Some up) \<and>
        fst (check_auth_inner (en_auth env) pk up (en_wall env) (en_now env) opts (sv_nonces s)) = Inl e)"
  shows "\<exists>k s'. serve_one_session env timeout s = (Inl k, s') \<and> (k = InvalidInput \<or> k = PermissionDenied) \<and>
    tcp_out (sv_control s') = map message_code [ParamExchange, AccessDenied] \<and>
    sv_listener s' = (\<lambda>i. sv_listener s (Suc i)) \<and> sv_lines s' = sv_lines s"
proof -
  let ?r = "\<lambda>n. (\<lambda>i. sv_listener s (Suc i), sv_data_rx s, n, sv_lines s)"
  obtain c' where c': "serve_one_session env timeout s = session_body env cookie timeout
      (s\<lparr>sv_listener := \<lambda>i. sv_listener s (Suc i), sv_control := c'\<rparr>)" "tcp.chan (frame obody @ rest) [] c'"
    by (rule serve_one_session_open [of s, OF control sizes(1,2)])
  define s1 where "s1 = s\<lparr>sv_listener := \<lambda>i. sv_listener s (Suc i), sv_control := c'\<rparr>"
  have "srv (?r (sv_nonces s)) (frame obody @ rest) [] s1"
    using c'(2) by (simp add: srv_def sv_rest_def s1_def)
  then obtain s2 where s2: "srv (?r (sv_nonces s)) rest [message_code ParamExchange] s2"
    "admit_options env s1 = io_then (reject_invalid opts) (io_then (authenticate env opts) (io_return opts)) s2"
    using admit_options_negotiated [of _ obody rest s1 env, OF _ opts sizes(3)] by blast
  have "\<exists>k n s'. admit_options env s1 = (Inl k, s') \<and> (k = InvalidInput \<or> k = PermissionDenied) \<and>
      srv (?r n) rest ([message_code ParamExchange] @ [message_code AccessDenied]) s'"
  proof (cases "validate_options opts")
    case (Inl k)
    with reject_invalid_denies [OF Inl s2(1)] validate_options_error [OF Inl] s2(2) show ?thesis
      by (auto simp: io_then_Inl)
  next
    case (Inr u)
    then have "reject_invalid opts s2 = (Inr (), s2)" by (simp add: reject_invalid_def)
    moreover from bad Inr obtain pk up e where "en_auth_config env = Some (Some pk, Some up)"
      "fst (check_auth_inner (en_auth env) pk up (en_wall env) (en_now env) opts (sv_nonces s)) = Inl e" by auto
    from authenticate_denies [OF this(1) s2(1) this(2)] obtain n s' where
      "authenticate env opts s2 = (Inl PermissionDenied, s')"
      "srv (?r n) rest ([message_code ParamExchange] @ [message_code AccessDenied]) s'" by blast
    ultimately show ?thesis using s2(2) by (auto simp: io_then_Inl io_then_Inr)
  qed
  then show ?thesis
    using c'(1) by (auto simp: session_body_def s1_def [symmetric] io_bind_Inl srv_def sv_rest_def tcp.chan_def)
qed

theorem session_refused_witness:
  "\<exists>k s'. serve_one_session ((sample_session_env sample_opts)\<lparr>en_auth_config := Some (Some (lit ''k''), Some (lit ''u''))\<rparr>)
      (Some 5) (sample_server (frame [1])) = (Inl k, s') \<and>
    tcp_out (sv_control s') = map message_code [ParamExchange, AccessDenied]"
proof -
  let ?env = "(sample_session_env sample_opts)\<lparr>en_auth_config := Some (Some (lit ''k''), Some (lit ''u''))\<rparr>"
  have dec: "dec_options ?env [1] = Some sample_opts"
    using sample_decodes(1) by (simp add: dec_options_def)
  have "co_authtoken sample_opts = None" by (simp add: sample_opts_def tcp_defaults_def)
  then have "\<exists>e. fst (check_auth_inner sample_env pk up w t sample_opts n) = Inl e" for pk up w t n
    by (auto simp: check_auth_inner_def split: sum.splits)
  then show ?thesis
    using session_refused [of "sample_server (frame [1])" "sample_tcp [RxData (sample_cookie @ frame [1])]"
        sample_cookie "[1]" "[]" "Some 5" ?env sample_opts, OF _ _ _ _ _ _ _ _ dec]
    by (simp add: sample_server_def sample_listener_def sample_tcp_def sample_cookie_def COOKIE_LEN_def
        MAX_JSON_FRAME_LEN_def) (auto simp: sample_session_env_def)
qed

text \<open>
  (C16) No stranger joins a test: if any of the connections the server takes as data streams presents
  another cookie, the session ends with \<open>InvalidData\<close> and the test is never started.
\<close>

theorem foreign_stream_refused:
  assumes control: "sv_listener s 0 = Inr c" "rx_ok (tcp_rx c)" "tx_ok (tcp_tx c)" "tcp_out c = []"
      "rx_bytes (tcp_rx c) = cookie @ frame obody @ rest"
    and sizes: "length cookie = COOKIE_LEN" "timeout \<noteq> Some 0" "length obody \<le> MAX_JSON_FRAME_LEN"
    and opts: "dec_options env obody = Some opts" "validate_options opts = Inr ()" "\<not> co_udp opts"
        "auth_passes env opts (sv_nonces s)"
    and good: "\<And>i. i < k \<Longrightarrow> \<exists>d pay. sv_listener s (Suc i) = Inr d \<and> rx_ok (tcp_rx d) \<and>
        tx_ok (tcp_tx d) \<and> tcp_out d = [] \<and> rx_bytes (tcp_rx d) = cookie @ pay"
    and foreign: "sv_listener s (Suc k) = Inr d" "rx_ok (tcp_rx d)" "tx_ok (tcp_tx d)"
        "rx_bytes (tcp_rx d) = other @ tail" "length other = COOKIE_LEN" "other \<noteq> cookie"
        "k < unat (co_parallel opts)"
  shows "\<exists>s'. serve_one_session env timeout s = (Inl InvalidData, s') \<and>
    tcp_out (sv_control s') = map message_code [ParamExchange, CreateStreams] \<and>
    sv_lines s' = sv_lines s"
proof -
  let ?l = "\<lambda>i. sv_listener s (Suc i)"
  let ?r = "\<lambda>n. (?l, sv_data_rx s, n, sv_lines s)"
  obtain c' where c': "serve_one_session env timeout s = session_body env cookie timeout
      (s\<lparr>sv_listener := ?l, sv_control := c'\<rparr>)" "tcp.chan (frame obody @ rest) [] c'"
    by (rule serve_one_session_open [of s, OF control sizes(1,2)])
  define s1 where "s1 = s\<lparr>sv_listener := ?l, sv_control := c'\<rparr>"
  have "srv (?r (sv_nonces s)) (frame obody @ rest) [] s1" using c'(2) by (simp add: srv_def sv_rest_def s1_def)
  then obtain n s2 where s2: "admit_options env s1 = (Inr opts, s2)" "srv (?r n) rest [message_code ParamExchange] s2"
    by (rule admit_options_passes [of _ _ _ _ obody _ s1 env, OF _ opts(1) sizes(3) opts(2,4)])
  obtain s3 where s3: "on_control (send_control_byte tcp_send CreateStreams) s2 = (Inr (), s3)"
    "srv (?r n) rest ([message_code ParamExchange] @ [message_code CreateStreams]) s3"
    by (rule send_on_control [OF s2(2)])
  have "\<exists>d inp. ?l i = Inr d \<and> tcp.chan (cookie @ inp) [] d" if "i < k" for i
    using good [OF that] by (auto simp: tcp.chan_def)
  then have "fst (accept_streams cookie timeout (unat (co_parallel opts)) ?l) = Inl InvalidData"
    by (rule accept_streams_wrong_cookie [of k ?l cookie d other tail "tcp_out d"])
      (use foreign sizes in \<open>simp_all add: tcp.chan_def\<close>)
  then obtain l' where "accept_streams cookie timeout (unat (co_parallel opts)) ?l = (Inl InvalidData, l')"
    by (metis prod.collapse)
  with s3 have "accept_streams_via_listener cookie (co_parallel opts) timeout s2 =
      (Inl InvalidData, s3\<lparr>sv_listener := l'\<rparr>)"
    by (simp add: accept_streams_via_listener_def io_then_Inr on_listener_def srv_def sv_rest_def)
  then have "serve_one_session env timeout s = (Inl InvalidData, s3\<lparr>sv_listener := l'\<rparr>)"
    using c'(1) s2(1) opts(3) by (simp add: session_body_def s1_def [symmetric] io_bind_def run_tcp_branch_def)
  with s3(2) show ?thesis by (simp add: srv_def sv_rest_def tcp.chan_def)
qed

theorem foreign_stream_refused_witness:
  "\<exists>s'. serve_one_session (sample_session_env sample_opts) (Some 5)
      ((sample_server (frame [1]))\<lparr>sv_listener := (sample_listener (frame [1]))(1 := Inr (sample_tcp [RxData (replicate 37 66)]))\<rparr>) =
    (Inl InvalidData, s') \<and>
    tcp_out (sv_control s') = map message_code [ParamExchange, CreateStreams]"
proof -
  let ?s = "(sample_server (frame [1]))\<lparr>sv_listener := (sample_listener (frame [1]))(1 := Inr (sample_tcp [RxData (replicate 37 66)]))\<rparr>"
  have "\<exists>s'. serve_one_session (sample_session_env sample_opts) (Some 5) ?s = (Inl InvalidData, s') \<and>
      tcp_out (sv_control s') = map message_code [ParamExchange, CreateStreams] \<and>
      sv_lines s' = sv_lines ?s"
    by (rule foreign_stream_refused [of ?s "sample_tcp [RxData (sample_cookie @ frame [1])]" sample_cookie "[1]" "[]" _
          _ sample_opts 0 "sample_tcp [RxData (replicate 37 66)]" "replicate 37 66" "[]"])
      (simp_all add: sample_server_def sample_listener_def sample_tcp_def sample_cookie_def COOKIE_LEN_def
        MAX_JSON_FRAME_LEN_def sample_decodes validate_options_iff,
       simp_all add: sample_opts_def tcp_defaults_def sample_session_env_def auth_passes_def)
  then show ?thesis by blast
qed

text \<open>A server that requires authentication, and a client with a token it accepts.\<close>

definition auth_sample_env :: "unit session_env" where
  "auth_sample_env = (sample_session_env (sample_token 1003))
     \<lparr>en_auth_config := Some (Some (lit ''k''), Some (lit ''u''))\<rparr>"

definition auth_sample_config :: config where
  "auth_sample_config = (with_host (lit ''h''))\<lparr>cf_rsa_private_key := Some (lit ''k''),
     cf_authorized_users := Some (lit ''u''), cf_require_auth := True\<rparr>"

lemma auth_sample_passes: "auth_passes auth_sample_env (sample_token 1003) nonce_cache_new"
proof -
  have "fst (check_and_record (\<lambda>b. b) 0 (as_bytes (token_payload 1003 (lit ''bob'') DUMMY_HASH)) nonce_cache_new) = Inr ()"
    by (simp add: check_and_record_ok_iff nonce_cache_new_def with_ttl_def)
  from sample_check [OF _ this, of 1000] show ?thesis
    by (simp add: auth_passes_def auth_sample_env_def sample_session_env_def abs_diff_def)
qed

lemma auth_sample_run:
  "\<exists>s'. serve_one_session auth_sample_env (Some 5)
     (sample_server (frame [1] @ [message_code TestEnd] @ frame [2] @ [message_code IperfDone])) = (Inr (Finished 3), s')"
proof -
  let ?inp = "frame [1] @ map message_code [] @ [message_code TestEnd] @ frame [2] @ [message_code IperfDone]"
  have n: "unat (co_parallel (sample_token 1003)) = 1" by (simp add: sample_token_def tcp_defaults_def)
  have d: "dec_options auth_sample_env [1] = Some (sample_token 1003)"
    "dec_results auth_sample_env [2] = Some results_empty" "enc_results auth_sample_env r = Some [3]" for r
    using sample_decodes [of "sample_token 1003"]
    by (simp_all add: auth_sample_env_def dec_options_def dec_results_def enc_results_def)
  have "\<exists>rs body s'. serve_one_session auth_sample_env (Some 5) (sample_server ?inp) =
      (Inr (Finished (of_nat (\<Sum>i<unat (co_parallel (sample_token 1003)). length [7 :: u8, 7, 7]))), s') \<and>
    enc_results auth_sample_env (build_server_results rs (session_cpu auth_sample_env rs)) = Some body \<and>
    map rc_bytes rs = map (\<lambda>i. of_nat (length [7 :: u8, 7, 7])) [0..<unat (co_parallel (sample_token 1003))] \<and>
    tcp_out (sv_control s') = map message_code [ParamExchange, CreateStreams, TestStart, TestRunning,
      ExchangeResults] @ frame body @ [message_code DisplayResults] \<and>
    sv_listener s' = (\<lambda>i. sv_listener (sample_server ?inp) (i + unat (co_parallel (sample_token 1003)) + 1)) \<and>
    sv_lines s' = sv_lines (sample_server ?inp) @ IntervalHeader #
      closing_lines True (sample_token 1003) rs (session_cpu auth_sample_env rs)"
    by (rule tcp_session_complete [of "sample_server ?inp" "sample_tcp [RxData (sample_cookie @ ?inp)]" sample_cookie
          "[1]" "[]" "[2]" "sample_token 1003" "\<lambda>_. [7, 7, 7]" auth_sample_env results_empty])
      (simp_all add: sample_server_def sample_listener_def sample_tcp_def d sample_cookie_def auth_sample_passes
        COOKIE_LEN_def MAX_JSON_FRAME_LEN_def validate_options_iff rx_closed_def,
       simp_all add: sample_token_def tcp_defaults_def)
  then show ?thesis by (auto simp: n)
qed

lemma tcp_send_loop_no_panic:
  "len \<noteq> 0 \<Longrightarrow> tcp_send_loop tot tick tm dur omit len mb bl ts s m \<noteq> Panicked"
  by (induction tot tick tm dur omit len mb bl ts s m rule: tcp_send_loop.induct)
    (auto split: prod.splits sum.splits)

lemma udp_send_loop_no_panic:
  "udp_send_loop tot tick tm dur omit len mb None peer ts u \<noteq> Panicked"
  by (induction ts arbitrary: u) (auto simp: Let_def split: prod.splits sum.splits)

text \<open>
  (C17) What validation buys: options that pass are within the documented limits, each of them, the
  length of the test is the exact sum of its two parts although it is computed on 32-bit integers, and no
  sending thread panics, on TCP or on UDP, whatever the limits on bytes and blocks.
\<close>

theorem validated_options_safe:
  assumes "validate_options opts = Inr ()"
  shows "1 \<le> unat (co_parallel opts) \<and> unat (co_parallel opts) \<le> 128 \<and>
    1 \<le> unat (co_len opts) \<and> unat (co_len opts) \<le> 1024 * 1024 \<and>
    unat (co_time opts) \<le> 3600 \<and> unat (co_omit opts) \<le> 300 \<and>
    stream_duration (co_time opts) (co_omit opts) = from_secs (unat (co_time opts) + unat (co_omit opts)) \<and>
    unat (co_time opts) + unat (co_omit opts) \<le> 3900 \<and>
    tcp_send_stream opts sid t0 turns sock \<noteq> Panicked \<and>
    udp_send_stream opts sid peer t0 t1 packets fin usock \<noteq> Panicked"
proof -
  have "udp_send_stream opts sid peer t0 t1 packets fin usock \<noteq> Panicked"
    by (simp add: udp_send_stream_def Let_def udp_send_loop_no_panic split: run.split)
  moreover have "1 \<le> unat (co_len opts)" using assms by (simp add: validate_options_iff unat_gt_0 Suc_le_eq)
  moreover have "unat (co_time opts) \<le> 3600" "unat (co_omit opts) \<le> 300"
    using assms by (auto simp: validate_options_iff word_le_nat_alt)
  moreover have "tcp_send_stream opts sid t0 turns sock \<noteq> Panicked"
    using assms by (simp add: validate_options_iff tcp_send_stream_def Let_def tcp_send_loop_no_panic)
  ultimately show ?thesis using assms validated_duration [OF assms] by (auto simp: validate_options_iff)
qed

theorem validated_options_safe_witness:
  "stream_duration (co_time sample_opts) (co_omit sample_opts) = from_secs 10 \<and>
   tcp_send_stream sample_opts 1 0 [] (sample_tcp []) \<noteq> Panicked \<and>
   udp_send_stream sample_opts 1 (7, 9) 0 0 [] (0, 0) sample_udp_sock \<noteq> Panicked"
  using validated_options_safe [of sample_opts 1 0 "[]" "sample_tcp []" "(7, 9)" 0 "[]" "(0, 0)" sample_udp_sock]
  by (simp add: validate_options_iff sample_opts_def tcp_defaults_def)

text \<open>
  (C25) Nobody is left unprotected unknowingly: a server that starts without authentication either was
  bound to a loopback address (\<open>localhost\<close>, an address \<^verbatim>\<open>127.b.c.d\<close> or a spelling of \<^verbatim>\<open>::1\<close>) or has
  warned the operator, and one that was asked to require authentication does not start.
\<close>

theorem no_auth_warning:
  assumes "run_server c bound cfg = (st, cfg', notices)"
    and "cf_rsa_private_key c = None \<or> cf_authorized_users c = None"
  shows "(cf_require_auth c \<longrightarrow> st = RefusedNoAuth) \<and> (\<not> cf_require_auth c \<longrightarrow> cfg' = cfg \<and>
    (NoAuthWarning (cf_host c) \<notin> set notices \<longleftrightarrow> cf_host c = lit ''localhost'' \<or>
      (\<exists>b d e. cf_host c = show_ipv4 127 b d e \<and> b \<le> 255 \<and> d \<le> 255 \<and> e \<le> 255) \<or>
      parse_ip_addr (cf_host c) = Some (V6 [0, 0, 0, 0, 0, 0, 0, 1])))"
proof (cases "cf_require_auth c")
  case True
  with assms show ?thesis by (auto simp: run_server_def)
next
  case False
  have "cfg' = cfg \<and> (NoAuthWarning (cf_host c) \<notin> set notices \<longleftrightarrow> is_loopback_bind (cf_host c))"
    using assms False by (cases bound; cases "is_loopback_bind (cf_host c)") (auto simp: run_server_def)
  with False show ?thesis by (simp only: is_loopback_bind_iff simp_thms)
qed

theorem no_auth_warning_witness:
  "NoAuthWarning (lit ''0.0.0.0'') \<in> set (snd (snd (run_server (with_host (lit ''0.0.0.0'')) (Inr (sample_listener [])) None)))"
proof -
  let ?c = "with_host (lit ''0.0.0.0'')"
  obtain st cfg' ns where r: "run_server ?c (Inr (sample_listener [])) None = (st, cfg', ns)" by (rule prod_cases3)
  have c: "cf_rsa_private_key ?c = None" "\<not> cf_require_auth ?c" "cf_host ?c = lit ''0.0.0.0''"
    by (simp_all add: with_host_def)
  have z: "lit ''0.0.0.0'' = show_ipv4 0 0 0 0" by (simp add: show_ipv4_def dec.simps lit_def)
  then have "parse_ip_addr (lit ''0.0.0.0'') = Some (V4 0 0 0 0)" by (simp add: parse_ip_V4_iff)
  moreover from this have "lit ''0.0.0.0'' \<noteq> show_ipv4 127 b d e" if "b \<le> 255" "d \<le> 255" "e \<le> 255" for b d e
    using that parse_ip_V4_iff [of "lit ''0.0.0.0''" 127 b d e] by auto
  moreover have "lit ''0.0.0.0'' \<noteq> lit ''localhost''" by (simp add: lit_def)
  ultimately have "NoAuthWarning (lit ''0.0.0.0'') \<in> set ns"
    using no_auth_warning [OF r disjI1 [OF c(1)]] c(2,3) by auto
  with r show ?thesis by simp
qed

section \<open>What does not depend on where the streams come from\<close>

text \<open>Operations that neither read nor change where the data streams come from.\<close>

definition streamless :: "(server, 'a) io \<Rightarrow> bool" where
  "streamless m \<longleftrightarrow> (\<forall>s l q. m (s\<lparr>sv_listener := l, sv_data_rx := q\<rparr>) =
     (fst (m s), (snd (m s))\<lparr>sv_listener := l, sv_data_rx := q\<rparr>))"

lemma streamlessD:
  "streamless m \<Longrightarrow> m (s\<lparr>sv_listener := l, sv_data_rx := q\<rparr>) = (fst (m s), (snd (m s))\<lparr>sv_listener := l, sv_data_rx := q\<rparr>)"
  by (simp add: streamless_def)

named_theorems streamless_intros \<open>closure of the operations that leave the data streams alone\<close>

lemma streamless_return [streamless_intros]: "streamless (io_return x)" "streamless (io_fail k)"
  by (simp_all add: streamless_def)

lemma streamless_bind [streamless_intros]:
  assumes "streamless m" and "\<And>x. streamless (f x)"
  shows "streamless (io_bind m f)"
  unfolding streamless_def
proof (intro allI)
  fix s l q
  show "io_bind m f (s\<lparr>sv_listener := l, sv_data_rx := q\<rparr>) =
      (fst (io_bind m f s), (snd (io_bind m f s))\<lparr>sv_listener := l, sv_data_rx := q\<rparr>)"
    using assms by (cases "m s"; cases "fst (m s)") (simp_all add: io_bind_def streamlessD)
qed

lemma streamless_then [streamless_intros]: "streamless m \<Longrightarrow> streamless n \<Longrightarrow> streamless (io_then m n)"
  unfolding io_then_def by (intro streamless_intros)

lemma streamless_ignore [streamless_intros]: "streamless m \<Longrightarrow> streamless (io_ignore m)"
  by (simp add: streamless_def io_ignore_def)

lemma streamless_try [streamless_intros]: "streamless m \<Longrightarrow> streamless (io_try m)"
  by (simp add: streamless_def io_try_def)

lemma streamless_on_control [streamless_intros]: "streamless (on_control m)"
  by (simp add: streamless_def on_control_def split: prod.splits)

lemma streamless_if [streamless_intros]:
  "streamless m \<Longrightarrow> streamless n \<Longrightarrow> streamless (if b then m else n)"
  by simp

lemma streamless_on_finished [streamless_intros]:
  "(\<And>x. streamless (f x)) \<Longrightarrow> streamless (on_finished r f)"
  by (cases r) (simp_all add: on_finished_def streamless_intros)

lemma streamless_tolerate [streamless_intros]: "streamless m \<Longrightarrow> streamless (tolerate_closed m)"
  unfolding tolerate_closed_def
  by (intro streamless_intros) (auto split: sum.splits intro: streamless_intros)

lemma streamless_phases [streamless_intros]:
  "streamless (tcp_forward env omit ss)"
  "streamless (tcp_reverse env opts ss)" "streamless (tcp_bidirectional env opts omit ss)"
  unfolding tcp_forward_def tcp_reverse_def tcp_bidirectional_def
  by (auto split: option.splits intro!: streamless_intros)

lemma streamless_print [streamless_intros]: "streamless (server_print ls)"
  by (simp add: streamless_def server_print_def)

lemma streamless_start [streamless_intros]: "streamless (start_test opts timeout)"
  unfolding start_test_def by (intro streamless_intros)

lemma streamless_finish [streamless_intros]: "streamless (finish_session env cpu opts timeout rs)"
  unfolding finish_session_def Let_def by (intro streamless_intros)

lemma streamless_admit: "streamless (admit_options env)"
proof -
  have "streamless (reject_invalid opts)" for opts
    unfolding reject_invalid_def by (auto split: sum.splits intro!: streamless_intros)
  moreover have "streamless (authenticate env opts)" for opts
    by (simp add: streamless_def authenticate_def split: prod.splits)
  ultimately show ?thesis unfolding admit_options_def by (intro streamless_intros)
qed

lemma streamless_frame:
  assumes "streamless m" and "m s = (r, s')"
  shows "sv_listener s' = sv_listener s" "sv_data_rx s' = sv_data_rx s"
proof -
  have "(r, s') = (r, s'\<lparr>sv_listener := sv_listener s, sv_data_rx := sv_data_rx s\<rparr>)"
    using streamlessD [OF assms(1), where s = s and l = "sv_listener s" and q = "sv_data_rx s"] assms(2) by simp
  then have "s' = s'\<lparr>sv_listener := sv_listener s, sv_data_rx := sv_data_rx s\<rparr>" by (simp only: prod.inject)
  then have "sv_listener s' = sv_listener (s'\<lparr>sv_listener := sv_listener s, sv_data_rx := sv_data_rx s\<rparr>)"
    and "sv_data_rx s' = sv_data_rx (s'\<lparr>sv_listener := sv_listener s, sv_data_rx := sv_data_rx s\<rparr>)"
    by (rule arg_cong)+
  then show "sv_listener s' = sv_listener s" "sv_data_rx s' = sv_data_rx s" by simp_all
qed

lemma accept_streams_length: "accept_streams cookie timeout n l = (Inr ss, l') \<Longrightarrow> length ss = n"
proof (induction n arbitrary: l ss)
  case (Suc n)
  then show ?case by (auto elim!: io_bind_eq_InrE)
qed simp

text \<open>Everything of a session that follows the acceptance of its TCP streams.\<close>

definition tcp_rest ::
  "'k session_env \<Rightarrow> client_options \<Rightarrow> duration option \<Rightarrow> tcp list \<Rightarrow> (server, u64 run) io" where
  "tcp_rest env opts timeout accepted =
     io_bind (tcp_data_phase env opts timeout accepted)
       (\<lambda>receipts. on_finished receipts (finish_session env True opts timeout))"

lemma streamless_tcp_rest: "streamless (tcp_rest env opts timeout ss)"
  unfolding tcp_rest_def tcp_data_phase_def Let_def by (intro streamless_intros)

lemma session_body_tcp:
  assumes "admit_options env s = (Inr opts, s1)" and "\<not> co_udp opts"
  shows "session_body env cookie timeout s =
    io_then (on_control (send_control_byte tcp_send CreateStreams))
      (io_bind (on_listener (accept_streams cookie timeout (unat (co_parallel opts)))) (tcp_rest env opts timeout)) s1"
  using assms
  by (simp add: session_body_def io_bind_Inr run_tcp_branch_def accept_streams_via_listener_def io_then_def
      io_bind_assoc tcp_rest_def [abs_def])

lemma channel_session_tcp:
  assumes "admit_options env s = (Inr opts, s1)" and "\<not> co_udp opts"
    and "\<not> (co_reverse opts \<and> co_bidirectional opts)"
  shows "serve_session_from_channel env cookie timeout s =
    io_then (on_control (send_control_byte tcp_send CreateStreams))
      (io_bind (channel_accept (co_parallel opts) timeout) (tcp_rest env opts timeout)) s1"
proof -
  have "(if co_reverse opts then a else if co_bidirectional opts then b else c) =
      (if co_bidirectional opts then b else if co_reverse opts then a else c)" for a b c :: "(server, stream_receipt list run) io"
    using assms(3) by auto
  with assms(1,2) show ?thesis
    by (simp add: serve_session_from_channel_def io_bind_Inr channel_tcp_phase_def channel_finish_def [abs_def] io_then_def
        io_bind_assoc tcp_rest_def [abs_def] tcp_data_phase_def [abs_def] Let_def)
qed

end
