(* ===== verification/Server_Trace.thy ===== *)
theory Server_Trace
  imports Server_Properties "HOL-Library.Sublist"
begin

text \<open>
  What a server session may write on its control connection, whatever the client, the network and the
  clocks do. The operations of \<open>Server_Protocol\<close> and \<open>Server\<close> are classified by the bytes they emit:
  \<open>says out w d m\<close> holds when \<open>m\<close> appends exactly \<open>w\<close> to \<open>out\<close> if it succeeds and a prefix of \<open>w @ d\<close> if
  it fails, \<open>emits out w m\<close> when a failure adds nothing of its own, and \<open>writes_in out L m\<close> when every
  run appends a member of \<open>L\<close>. The composition rules follow the sequencing operators.
\<close>

section \<open>Operations and the bytes they emit\<close>

definition says :: "('s \<Rightarrow> bytes) \<Rightarrow> bytes \<Rightarrow> bytes \<Rightarrow> ('s, 'a) io \<Rightarrow> bool" where
  "says out w d m \<longleftrightarrow>
     (\<forall>s r s'. m s = (r, s') \<longrightarrow> (\<exists>p. out s' = out s @ p \<and> prefix p (w @ d) \<and> (\<not> isl r \<longrightarrow> p = w)))"

abbreviation emits :: "('s \<Rightarrow> bytes) \<Rightarrow> bytes \<Rightarrow> ('s, 'a) io \<Rightarrow> bool" where
  "emits out w m \<equiv> says out w [] m"

text \<open>Every run appends a member of the language.\<close>

definition writes_in :: "('s \<Rightarrow> bytes) \<Rightarrow> bytes set \<Rightarrow> ('s, 'a) io \<Rightarrow> bool" where
  "writes_in out L m \<longleftrightarrow> (\<forall>s r s'. m s = (r, s') \<longrightarrow> (\<exists>p\<in>L. out s' = out s @ p))"

lemma writes_in_iff: "writes_in out L m \<longleftrightarrow> (\<forall>s. \<exists>p\<in>L. out (snd (m s)) = out s @ p)"
proof
  assume "writes_in out L m"
  then show "\<forall>s. \<exists>p\<in>L. out (snd (m s)) = out s @ p"
    unfolding writes_in_def using prod.collapse [of "m s" for s, symmetric] by blast
next
  assume "\<forall>s. \<exists>p\<in>L. out (snd (m s)) = out s @ p"
  then show "writes_in out L m" unfolding writes_in_def by (metis snd_conv)
qed

named_theorems emits_intros

lemma saysI:
  "(\<And>s r s'. m s = (r, s') \<Longrightarrow> \<exists>p. out s' = out s @ p \<and> prefix p (w @ d) \<and> (\<not> isl r \<longrightarrow> p = w)) \<Longrightarrow> says out w d m"
  by (simp add: says_def)

lemma saysE:
  assumes "says out w d m" and "m s = (r, s')"
  obtains p where "out s' = out s @ p" and "prefix p (w @ d)" and "\<not> isl r \<longrightarrow> p = w"
  using assms unfolding says_def by blast

lemma says_snd:
  assumes "says out w d m"
  obtains p where "out (snd (m s)) = out s @ p" and "prefix p (w @ d)"
  using assms prod.collapse [of "m s", symmetric] by (rule saysE)

lemma says_fail [emits_intros]: "says out w d (io_fail k)"
  by (auto simp: says_def io_fail_def)

lemma says_return [emits_intros]: "says out [] d (io_return x)"
  by (simp add: says_def io_return_def)

lemma says_bind:
  assumes "emits out v m" and "\<And>x. says out w d (f x)"
  shows "says out (v @ w) d (io_bind m f)"
proof (rule saysI)
  fix s r s'
  assume run: "io_bind m f s = (r, s')"
  obtain q s1 where q: "m s = (q, s1)" by fastforce
  from assms(1) q obtain p where p: "out s1 = out s @ p" "prefix p (v @ [])" "\<not> isl q \<longrightarrow> p = v" by (rule saysE)
  show "\<exists>p. out s' = out s @ p \<and> prefix p ((v @ w) @ d) \<and> (\<not> isl r \<longrightarrow> p = v @ w)"
  proof (cases q)
    case (Inl k)
    with run q p(1,2) show ?thesis by (auto simp: io_bind_def)
  next
    case (Inr x)
    with run q have "f x s1 = (r, s')" by (simp add: io_bind_def)
    from assms(2) this obtain p' where "out s' = out s1 @ p'" "prefix p' (w @ d)" "\<not> isl r \<longrightarrow> p' = w" by (rule saysE)
    with p Inr show ?thesis by simp
  qed
qed

lemma says_then: "emits out v m \<Longrightarrow> says out w d m' \<Longrightarrow> says out (v @ w) d (io_then m m')"
  unfolding io_then_def by (rule says_bind)

text \<open>Checks in sequence: each is silent, or fails with a prefix of the denial.\<close>

lemma says_guards:
  assumes "says out [] d m" and "says out [] d m'"
  shows "says out [] d (io_then m m')"
proof (rule saysI)
  fix s r s'
  assume run: "io_then m m' s = (r, s')"
  obtain q s1 where q: "m s = (q, s1)" by fastforce
  from assms(1) q obtain p where p: "out s1 = out s @ p" "prefix p ([] @ d)" "\<not> isl q \<longrightarrow> p = []" by (rule saysE)
  show "\<exists>p. out s' = out s @ p \<and> prefix p ([] @ d) \<and> (\<not> isl r \<longrightarrow> p = [])"
  proof (cases q)
    case (Inl k)
    with run q p(1,2) show ?thesis by (auto simp: io_then_def io_bind_def)
  next
    case (Inr x)
    with run q have "m' s1 = (r, s')" by (simp add: io_then_def io_bind_def)
    from assms(2) this obtain p' where "out s' = out s1 @ p'" "prefix p' ([] @ d)" "\<not> isl r \<longrightarrow> p' = []" by (rule saysE)
    with p Inr show ?thesis by simp
  qed
qed

text \<open>The forms in which one of the two parts is silent.\<close>

lemma says_bind_silent [emits_intros]:
  "emits out [] m \<Longrightarrow> (\<And>x. says out w d (f x)) \<Longrightarrow> says out w d (io_bind m f)"
  using says_bind [of out "[]" m w d f] by simp

lemma says_then_silent [emits_intros]: "emits out [] m \<Longrightarrow> says out w d m' \<Longrightarrow> says out w d (io_then m m')"
  using says_then [of out "[]" m w d m'] by simp

lemma silentI: "(\<And>s r s'. m s = (r, s') \<Longrightarrow> out s' = out s) \<Longrightarrow> emits out [] m"
  by (fastforce simp: says_def)

lemma silentD: "emits out [] m \<Longrightarrow> m s = (r, s') \<Longrightarrow> out s' = out s"
  by (auto simp: says_def)

lemma silent_ignore [emits_intros]: "emits out [] m \<Longrightarrow> emits out [] (io_ignore m)"
  by (rule silentI) (auto simp: io_ignore_def silentD [OF _ prod.collapse [symmetric]])

lemma silent_try [emits_intros]: "emits out [] m \<Longrightarrow> emits out [] (io_try m)"
  by (rule silentI) (auto simp: io_try_def silentD [OF _ prod.collapse [symmetric]])

lemma silent_lift [emits_intros]: "emits out [] (lift_result r)"
  by (auto simp: says_def lift_result_def)

lemma silent_with_socket [emits_intros]: "emits out [] (with_socket t m)"
  by (auto simp: says_def with_socket_def split: prod.splits sum.splits)

lemma silent_on_finished [emits_intros]:
  "(\<And>x. emits out [] (f x)) \<Longrightarrow> emits out [] (on_finished r f)"
  by (cases r) (auto simp: on_finished_def intro: emits_intros)

lemma writes_in_mono: "writes_in out L m \<Longrightarrow> L \<subseteq> L' \<Longrightarrow> writes_in out L' m"
  by (fastforce simp: writes_in_def)

lemma writes_in_bind:
  assumes "says out v d m" and "\<And>x. writes_in out L (f x)"
  shows "writes_in out ({p. prefix p (v @ d)} \<union> (@) v ` L) (io_bind m f)"
  unfolding writes_in_def
proof (intro allI impI)
  fix s r s'
  assume run: "io_bind m f s = (r, s')"
  obtain q s1 where q: "m s = (q, s1)" by fastforce
  from assms(1) q obtain p where p: "out s1 = out s @ p" "prefix p (v @ d)" "\<not> isl q \<longrightarrow> p = v" by (rule saysE)
  show "\<exists>p\<in>{p. prefix p (v @ d)} \<union> (@) v ` L. out s' = out s @ p"
  proof (cases q)
    case (Inl k)
    with run q p show ?thesis by (auto simp: io_bind_def)
  next
    case (Inr x)
    with run q have "f x s1 = (r, s')" by (simp add: io_bind_def)
    with assms(2) [of x] obtain p' where "p' \<in> L" "out s' = out s1 @ p'" unfolding writes_in_def by blast
    with p Inr show ?thesis by auto
  qed
qed

text \<open>Sequences of operations that may write something or nothing.\<close>

definition conc :: "bytes set \<Rightarrow> bytes set \<Rightarrow> bytes set" where
  "conc L K = {a @ b | a b. a \<in> L \<and> b \<in> K}"

lemma writes_in_bind_conc:
  assumes "writes_in out L m" and "\<And>x. writes_in out K (f x)" and "[] \<in> K"
  shows "writes_in out (conc L K) (io_bind m f)"
  unfolding writes_in_def
proof (intro allI impI)
  fix s r s'
  assume run: "io_bind m f s = (r, s')"
  obtain q s1 where q: "m s = (q, s1)" by fastforce
  with assms(1) obtain p where p: "p \<in> L" "out s1 = out s @ p" unfolding writes_in_def by blast
  show "\<exists>p\<in>conc L K. out s' = out s @ p"
  proof (cases q)
    case (Inl k)
    with run q have "s' = s1" by (simp add: io_bind_def)
    moreover have "p \<in> conc L K" using p(1) assms(3) by (force simp: conc_def)
    ultimately show ?thesis using p(2) by auto
  next
    case (Inr x)
    with run q have "f x s1 = (r, s')" by (simp add: io_bind_def)
    with assms(2) [of x] obtain p' where p': "p' \<in> K" "out s' = out s1 @ p'" unfolding writes_in_def by blast
    then have "p @ p' \<in> conc L K" using p(1) by (auto simp: conc_def)
    with p(2) p'(2) show ?thesis by auto
  qed
qed

lemma silent_writes_in: "emits out [] m \<Longrightarrow> writes_in out {[]} m"
  by (auto simp: says_def writes_in_def)

lemma emits_writes_in: "emits out v m \<Longrightarrow> writes_in out {p. prefix p v} m"
  unfolding writes_in_iff by (metis append_Nil2 mem_Collect_eq says_snd)

lemma writes_in_silent:
  "writes_in out L m \<Longrightarrow> (\<And>x. emits out [] (f x)) \<Longrightarrow> writes_in out L (io_bind m f)"
  using writes_in_bind_conc [of out L m "{[]}" f, OF _ silent_writes_in] by (simp add: conc_def)

lemma writes_in_ignore: "says out v d m \<Longrightarrow> writes_in out {p. prefix p (v @ d)} (io_ignore m)"
  unfolding writes_in_iff io_ignore_def snd_conv by (blast elim: says_snd)

lemma writes_in_tolerate: "writes_in out L m \<Longrightarrow> writes_in out L (tolerate_closed m)"
  by (auto simp: writes_in_iff tolerate_closed_def io_bind_def io_try_def io_return_def io_fail_def
      split: prod.splits sum.splits if_splits)

section \<open>One socket\<close>

lemma emits_write_all: "emits tcp_out buf (write_all tcp_send buf)"
  by (rule saysI) (fastforce dest: tcp_write_all_part)

lemma emits_control_byte: "emits tcp_out [message_code m] (send_control_byte tcp_send m)"
  unfolding send_control_byte_def by (rule emits_write_all)

lemma emits_u16: "emits tcp_out (u16_to_be_bytes v) (send_u16_be tcp_send v)"
  unfolding send_u16_be_def by (rule emits_write_all)

text \<open>The bytes of a frame, none when the value cannot be encoded.\<close>

definition frame_of :: "('a \<Rightarrow> bytes option) \<Rightarrow> 'a \<Rightarrow> bytes" where
  "frame_of enc v = (case enc v of None \<Rightarrow> [] | Some body \<Rightarrow> frame body)"

lemma emits_framed: "emits tcp_out (frame_of enc v) (send_framed_json enc tcp_send v)"
  by (auto simp: send_framed_json_def frame_of_def frame_def intro: says_fail says_then emits_write_all split: option.splits)

lemma silent_read_exact [emits_intros]: "emits tcp_out [] (read_exact tcp_recv n)"
  by (rule silentI) (use tcp.read_exact_frame in blast)

lemma silent_recv_framed [emits_intros]: "emits tcp_out [] (recv_framed_json dec' tcp_recv)"
  by (rule silentI) (use tcp.recv_framed_frame in blast)

lemma silent_recv_control_byte [emits_intros]: "emits tcp_out [] (recv_control_byte tcp_recv)"
  unfolding recv_control_byte_def by (auto intro!: emits_intros split: option.splits)

lemma silent_await [emits_intros]: "emits tcp_out [] (await_message want)"
proof (rule silentI)
  fix s r s'
  show "await_message want s = (r, s') \<Longrightarrow> tcp_out s' = tcp_out s"
  proof (induction want s arbitrary: r s' rule: await_message.induct)
    case (1 want s)
    obtain q s1 where q: "recv_control_byte tcp_recv s = (q, s1)" by fastforce
    with silent_recv_control_byte have "tcp_out s1 = tcp_out s" by (auto simp: says_def)
    with "1.prems" "1.IH" q show ?case
      by (auto simp: await_message.simps [of want s] split: sum.splits if_splits)
  qed
qed

lemma silent_read_timeout [emits_intros]: "emits tcp_out [] (tcp_set_read_timeout t)"
  by (rule silentI) (auto simp: tcp_set_read_timeout_def split: if_splits)

lemma silent_wait [emits_intros]: "emits tcp_out [] wait_for_test_end"
  unfolding wait_for_test_end_def by (rule emits_intros)

section \<open>A session\<close>

definition control_out :: "server \<Rightarrow> bytes" where
  "control_out s = tcp_out (sv_control s)"

lemma says_on_control: "says tcp_out w d m \<Longrightarrow> says control_out w d (on_control m)"
  by (fastforce simp: says_def on_control_def control_out_def split: prod.splits)

lemmas silent_on_control [emits_intros] = says_on_control [of "[]" "[]"]

lemma silent_print [emits_intros]: "emits control_out [] (server_print ls)"
  by (rule silentI) (auto simp: server_print_def control_out_def)

lemma silent_on_listener [emits_intros]: "emits control_out [] (on_listener m)"
  by (rule silentI) (auto simp: on_listener_def control_out_def split: prod.splits)

lemma silent_channel_accept [emits_intros]: "emits control_out [] (channel_accept n t)"
  by (rule silentI) (auto simp: channel_accept_def control_out_def split: prod.splits)

lemma emits_on_control_byte: "emits control_out [message_code m] (on_control (send_control_byte tcp_send m))"
  by (rule says_on_control [OF emits_control_byte])

lemma says_deny: "says control_out [] [message_code AccessDenied]
    (io_then (io_ignore (on_control (send_control_byte tcp_send AccessDenied))) (io_fail k))"
proof (rule saysI)
  fix s r s'
  assume run: "io_then (io_ignore (on_control (send_control_byte tcp_send AccessDenied))) (io_fail k) s = (r, s')"
  obtain p where "control_out (snd (on_control (send_control_byte tcp_send AccessDenied) s)) = control_out s @ p"
    "prefix p ([message_code AccessDenied] @ [])" by (rule says_snd [OF emits_on_control_byte])
  with run show "\<exists>p. control_out s' = control_out s @ p \<and> prefix p ([] @ [message_code AccessDenied]) \<and> (\<not> isl r \<longrightarrow> p = [])"
    by (auto simp: io_then_def io_bind_def io_ignore_def io_fail_def)
qed

lemma says_reject_invalid: "says control_out [] [message_code AccessDenied] (reject_invalid opts)"
  using says_deny by (auto simp: reject_invalid_def intro: says_return split: sum.splits)

lemma says_authenticate: "says control_out [] [message_code AccessDenied] (authenticate env opts)"
proof (rule saysI)
  fix s r s'
  assume a: "authenticate env opts s = (r, s')"
  let ?c = "send_control_byte tcp_send AccessDenied (sv_control s)"
  obtain p where "tcp_out (snd ?c) = tcp_out (sv_control s) @ p" "prefix p ([message_code AccessDenied] @ [])"
    by (rule says_snd [OF emits_control_byte])
  then show "\<exists>p. control_out s' = control_out s @ p \<and> prefix p ([] @ [message_code AccessDenied]) \<and> (\<not> isl r \<longrightarrow> p = [])"
    using a by (fastforce simp: authenticate_def check_auth_def control_out_def split: prod.splits option.splits sum.splits)
qed

lemma says_admit_options:
  "says control_out [message_code ParamExchange] [message_code AccessDenied] (admit_options env)"
proof -
  have n: "emits control_out [message_code ParamExchange] (on_control (negotiate_options (dec_options env)))"
    using says_then [OF emits_control_byte silent_recv_framed] unfolding negotiate_options_def append_Nil2
    by (rule says_on_control)
  have g: "says control_out [] [message_code AccessDenied]
      (io_then (reject_invalid opts) (io_then (authenticate env opts) (io_return opts)))" for opts
    by (intro says_guards says_reject_invalid says_authenticate says_return)
  from says_bind [OF n g] show ?thesis unfolding admit_options_def by simp
qed

lemma emits_start_test: "emits control_out (map message_code [TestStart, TestRunning]) (start_test opts t)"
proof -
  have "emits tcp_out (map message_code [TestStart, TestRunning]) send_test_start_running"
    using says_then [OF emits_control_byte emits_control_byte]
    unfolding send_test_start_running_def list.map append_Cons append_Nil by blast
  from says_then [OF says_on_control [OF this]
      says_then_silent [OF silent_print silent_on_control [OF silent_read_timeout]]] show ?thesis
    unfolding start_test_def append_Nil2 .
qed

lemma silent_phases [emits_intros]:
  "emits control_out [] (tcp_bidirectional env opts omit ss)"
  "emits control_out [] (tcp_reverse env opts ss)"
  "emits control_out [] (tcp_forward env omit ss)"
  "emits control_out [] (udp_data_phase env opts w addrs)"
  "emits control_out [] (udp_data_tail opts r)"
  unfolding tcp_bidirectional_def tcp_reverse_def tcp_forward_def udp_data_phase_def udp_data_tail_def Let_def
  by (auto intro!: emits_intros split: option.splits)

text \<open>The messages from the creation of the streams to the running test.\<close>

abbreviation start_words :: bytes where
  "start_words \<equiv> map message_code [CreateStreams, TestStart, TestRunning]"

lemma emits_opening:
  assumes "emits control_out [] m" and "\<And>x. emits control_out (map message_code [TestStart, TestRunning]) (f x)"
  shows "emits control_out start_words (io_then (on_control (send_control_byte tcp_send CreateStreams)) (io_bind m f))"
  using says_then [OF emits_on_control_byte [of CreateStreams] says_bind_silent [of control_out, OF assms(1), of _ _ f, OF assms(2)]]
  unfolding list.map append_Cons append_Nil by blast

lemma emits_udp_admit: "emits control_out start_words (udp_admit cookie opts t udp)"
proof -
  have "emits control_out (map message_code [TestStart, TestRunning])
      (case x of (addrs, udp1) \<Rightarrow> io_bind (with_socket udp1 (udp_set_read_timeout None)) (\<lambda>_.
        io_then (start_test opts t) (io_return addrs)))" for x
    using says_then [OF emits_start_test says_return, unfolded append_Nil2]
    by (cases x) (auto intro!: says_bind_silent silent_with_socket simp del: list.map)
  from emits_opening [OF silent_with_socket this] show ?thesis unfolding udp_admit_def .
qed

lemma emits_tcp_phase:
  assumes "emits control_out [] accept" and "\<And>x. emits control_out [] (g x)"
  shows "emits control_out start_words (io_then (on_control (send_control_byte tcp_send CreateStreams))
    (io_bind accept (\<lambda>x. io_then (start_test opts t) (g x))))"
  by (rule emits_opening [OF assms(1)]) (use says_then [OF emits_start_test assms(2)] in simp)

lemma emits_run_tcp_branch: "emits control_out start_words (run_tcp_branch env cookie opts t)"
  unfolding run_tcp_branch_def accept_streams_via_listener_def io_then_def io_bind_assoc
  unfolding io_then_def [symmetric] tcp_data_phase_def Let_def
  by (rule emits_tcp_phase) (auto intro: emits_intros)

lemma emits_channel_tcp_phase: "emits control_out start_words (channel_tcp_phase env opts t)"
  unfolding channel_tcp_phase_def Let_def by (rule emits_tcp_phase) (auto intro: emits_intros)

lemma emits_after: "emits out w m \<Longrightarrow> (\<And>x. emits out [] (f x)) \<Longrightarrow> emits out w (io_bind m f)"
  using says_bind [of out w m "[]" "[]" f] by simp

lemma emits_run_udp_branch: "emits control_out start_words (run_udp_branch env cookie opts t)"
  unfolding run_udp_branch_def
  by (intro says_then_silent says_bind_silent silent_lift emits_after emits_udp_admit) (rule emits_intros)+

text \<open>The announcement of a data port, on the one path that makes it.\<close>

definition announcement :: "'k session_env \<Rightarrow> bytes" where
  "announcement env =
     (case en_udp_port env of Inl _ \<Rightarrow> [] | Inr port \<Rightarrow> message_code SetDataPort # u16_to_be_bytes port)"

lemma emits_channel_udp_phase:
  "emits control_out (announcement env @ start_words) (channel_udp_phase env cookie opts t)"
proof (cases "en_udp_port env")
  case (Inl k)
  have f: "emits control_out w (io_bind (lift_result (Inl k :: u16 io_result)) f)" for w and f :: "u16 \<Rightarrow> (server, 'z) io"
    by (auto simp: says_def io_bind_def lift_result_def)
  show ?thesis unfolding channel_udp_phase_def Inl by (rule says_bind_silent [OF silent_lift]) (rule f)
next
  case (Inr port)
  have l: "io_bind (lift_result (Inr port)) f = f port" for f :: "u16 \<Rightarrow> (server, 'z) io"
    by (auto simp: io_bind_def lift_result_def)
  have "emits control_out start_words (io_bind (udp_admit cookie opts t udp) (\<lambda>addrs.
      io_bind (udp_data_phase env opts True addrs) (udp_data_tail opts)))" for udp
    by (intro emits_after emits_udp_admit) (rule emits_intros)+
  from says_then [OF emits_on_control_byte [of SetDataPort] says_then [OF says_on_control [OF emits_u16 [of port]] this]]
  have "emits control_out (announcement env @ start_words)
      (io_then (on_control (send_control_byte tcp_send SetDataPort))
       (io_then (on_control (send_u16_be tcp_send port))
        (io_bind (udp_admit cookie opts t udp) (\<lambda>addrs.
          io_bind (udp_data_phase env opts True addrs) (udp_data_tail opts)))))" for udp
    unfolding announcement_def Inr sum.case append_Cons append_Nil .
  then show ?thesis unfolding channel_udp_phase_def Inr l by (intro says_bind_silent silent_lift)
qed

section \<open>The closing messages\<close>

text \<open>
  After the test comes \<open>ExchangeResults\<close> with the frame of the results and then \<open>DisplayResults\<close>. A
  client that is gone is tolerated, so each part may be missing, and a frame that could not be sent
  whole is not noticed.
\<close>

definition closing_words :: "(results \<Rightarrow> bytes option) \<Rightarrow> bytes set" where
  "closing_words enc =
     conc ({[]} \<union> {message_code ExchangeResults # p | v p. prefix p (frame_of enc v)})
       {[], [message_code DisplayResults]}"

lemma writes_in_on_control: "writes_in tcp_out L m \<Longrightarrow> writes_in control_out L (on_control m)"
  by (simp add: writes_in_iff on_control_def control_out_def split_beta)

lemma writes_in_exchange_results:
  "writes_in tcp_out ({[]} \<union> {message_code ExchangeResults # p | v p. prefix p (frame_of enc v)})
     (exchange_results enc dec' receipts cpu)"
proof -
  let ?v = "build_server_results receipts cpu"
  have t: "emits tcp_out [] (io_bind (io_try (recv_framed_json dec' tcp_recv)) (\<lambda>read_result.
        case read_result of
          Inl k \<Rightarrow> if is_peer_closed k then io_return () else io_fail k
        | Inr _ \<Rightarrow> io_return ()))"
    by (auto intro!: emits_intros split: sum.splits)
  from writes_in_silent [OF writes_in_ignore [OF emits_framed [of enc ?v]] t]
  have "writes_in tcp_out {p. prefix p (frame_of enc ?v @ [])} (io_then
      (io_ignore (send_framed_json enc tcp_send ?v)) (io_bind (io_try (recv_framed_json dec' tcp_recv))
        (\<lambda>read_result. case read_result of
          Inl k \<Rightarrow> if is_peer_closed k then io_return () else io_fail k
        | Inr _ \<Rightarrow> io_return ())))" unfolding io_then_def .
  from writes_in_bind [OF emits_control_byte [of ExchangeResults] this] show ?thesis
    unfolding exchange_results_def io_then_def
    by (rule writes_in_mono) (auto simp: prefix_Cons simp del: message_code.simps)
qed

lemma writes_in_finalize: "writes_in tcp_out {[], [message_code DisplayResults]} finalize_test"
  using emits_writes_in [OF emits_after [OF emits_control_byte [of DisplayResults] silent_await]]
  unfolding finalize_test_def io_then_def
  by (rule writes_in_mono) (auto simp: prefix_Cons simp del: message_code.simps)

lemma writes_in_after_silent:
  "emits out [] m \<Longrightarrow> writes_in out L m' \<Longrightarrow> [] \<in> L \<Longrightarrow> writes_in out L (io_then m m')"
  using writes_in_bind_conc [OF silent_writes_in, of out m L "\<lambda>_. m'"] by (simp add: io_then_def conc_def)

lemma writes_in_finish_session:
  "writes_in control_out (closing_words (enc_results env)) (finish_session env with_cpu opts t receipts)"
proof -
  have f: "writes_in control_out {[], [message_code DisplayResults]}
      (io_then (tolerate_closed (on_control finalize_test)) (io_then (server_print ls) (io_return x)))" for ls and x :: "'y"
    unfolding io_then_def
    by (intro writes_in_silent writes_in_tolerate writes_in_on_control writes_in_finalize emits_intros)
  show ?thesis
    unfolding finish_session_def Let_def closing_words_def
    by (rule writes_in_after_silent [OF silent_on_control [OF silent_read_timeout]],
      unfold io_then_def [of "tolerate_closed (on_control (exchange_results a b c d))" for a b c d],
      rule writes_in_bind_conc [OF writes_in_tolerate [OF writes_in_on_control [OF writes_in_exchange_results]] f])
      (auto simp: conc_def)
qed

text \<open>
  The language of a session. \<open>announce\<close> is what the server says about its data port.
\<close>

definition session_words :: "(results \<Rightarrow> bytes option) \<Rightarrow> bytes \<Rightarrow> bytes set" where
  "session_words enc announce =
     (let start = message_code ParamExchange # announce @ start_words
      in {p. prefix p [message_code ParamExchange, message_code AccessDenied]} \<union> {p. prefix p start} \<union>
         (@) start ` closing_words enc)"

lemma Nil_closing_words: "[] \<in> closing_words enc"
  by (simp add: closing_words_def conc_def)

lemma writes_in_session:
  assumes "\<And>opts. emits control_out (announce opts @ start_words) (phase opts)"
    and "\<And>opts receipts. writes_in control_out (closing_words enc) (finish opts receipts)"
  shows "writes_in control_out (\<Union>opts. session_words enc (announce opts))
    (io_bind (admit_options env) (\<lambda>opts. io_bind (phase opts) (\<lambda>receipts. on_finished receipts (finish opts))))"
proof -
  have fin: "writes_in control_out (closing_words enc) (on_finished receipts (finish opts))" for opts receipts
    using assms(2) Nil_closing_words [of enc] by (cases receipts) (auto simp: on_finished_def writes_in_iff)
  let ?L = "\<Union>opts. {p. prefix p (announce opts @ start_words)} \<union> (@) (announce opts @ start_words) ` closing_words enc"
  have "writes_in control_out ?L (io_bind (phase opts) (\<lambda>receipts. on_finished receipts (finish opts)))" for opts
    by (rule writes_in_mono [OF writes_in_bind [OF assms(1) fin]]) (auto simp del: message_code.simps)
  from writes_in_bind [OF says_admit_options [of env] this] show ?thesis
    by (rule writes_in_mono) (auto simp: session_words_def Let_def prefix_Cons simp del: message_code.simps)
qed

section \<open>Properties\<close>

text \<open>
  (C6) The server speaks the protocol whatever happens: for every client, every failure of the network
  and every outcome of the test, what a session writes on its control connection is a prefix of
  \<open>ParamExchange, AccessDenied\<close> or of \<open>ParamExchange, CreateStreams, TestStart, TestRunning\<close>, or that
  opening in full followed by \<open>ExchangeResults\<close> with a prefix of one result frame and
  \<open>DisplayResults\<close>, each of which may be missing. Only a session of the concurrent server inserts the
  port of its data socket, before \<open>CreateStreams\<close>.
\<close>

theorem server_speaks_protocol:
  "(\<exists>w\<in>session_words (enc_results env) [].
      tcp_out (sv_control (snd (session_body env cookie t s))) = tcp_out (sv_control s) @ w) \<and>
   (\<exists>w\<in>session_words (enc_results env) [] \<union> session_words (enc_results env) (announcement env).
      tcp_out (sv_control (snd (serve_session_from_channel env cookie t s))) = tcp_out (sv_control s) @ w)"
proof
  have "emits control_out ([] @ start_words) (if co_udp opts then run_udp_branch env cookie opts t
      else run_tcp_branch env cookie opts t)" for opts
    by (cases "co_udp opts") (simp_all only: append_Nil if_True if_False emits_run_udp_branch emits_run_tcp_branch)
  from writes_in_session [of "\<lambda>_. []" _ "enc_results env" "\<lambda>opts. finish_session env True opts t" env,
      OF this writes_in_finish_session]
  show "\<exists>w\<in>session_words (enc_results env) [].
      tcp_out (sv_control (snd (session_body env cookie t s))) = tcp_out (sv_control s) @ w"
    unfolding session_body_def writes_in_iff control_out_def by simp
next
  let ?a = "\<lambda>opts. if co_udp opts then announcement env else []"
  have "emits control_out (?a opts @ start_words) (if co_udp opts then channel_udp_phase env cookie opts t
      else channel_tcp_phase env opts t)" for opts
    by (cases "co_udp opts") (simp_all only: append_Nil if_True if_False emits_channel_udp_phase emits_channel_tcp_phase)
  from writes_in_session [of ?a _ "enc_results env" "\<lambda>opts. finish_session env (\<not> co_udp opts) opts t" env,
      OF this writes_in_finish_session]
  have "writes_in control_out (session_words (enc_results env) [] \<union> session_words (enc_results env) (announcement env))
      (serve_session_from_channel env cookie t)"
    unfolding serve_session_from_channel_def channel_finish_def [abs_def] by (rule writes_in_mono) (auto split: if_splits)
  then show "\<exists>w\<in>session_words (enc_results env) [] \<union> session_words (enc_results env) (announcement env).
      tcp_out (sv_control (snd (serve_session_from_channel env cookie t s))) = tcp_out (sv_control s) @ w"
    unfolding writes_in_iff control_out_def by blast
qed

text \<open>The exchange of results on a connection that breaks inside the frame and then recovers.\<close>

lemma exchange_results_partial:
  assumes enc: "enc (build_server_results rs cpu) = Some body" "length body < 2 ^ 32" "body \<noteq> []"
    and tx: "tcp_tx c = TxAccept 1 # TxAccept 4 # TxErr k # tx" "tx_ok tx"
    and rx: "rx_ok (tcp_rx c)" "rx_bytes (tcp_rx c) = frame cbody @ inp"
    and dec: "dec' cbody = Some res" "length cbody \<le> MAX_JSON_FRAME_LEN"
  shows "\<exists>c'. exchange_results enc dec' rs cpu c = (Inr (), c') \<and>
    tcp.chan inp (tcp_out c @ message_code ExchangeResults # u32_to_be_bytes (of_nat (length body))) c'"
proof -
  let ?len = "u32_to_be_bytes (of_nat (length body))"
  let ?out = "tcp_out c @ message_code ExchangeResults # ?len"
  have l: "length ?len = 4" by simp
  then have ne: "?len \<noteq> []" by (metis list.size(3) zero_neq_numeral)
  define c1 where "c1 = c\<lparr>tcp_tx := TxAccept 4 # TxErr k # tx, tcp_out := tcp_out c @ [message_code ExchangeResults]\<rparr>"
  define c2 where "c2 = c1\<lparr>tcp_tx := tx, tcp_out := ?out\<rparr>"
  have "send_control_byte tcp_send ExchangeResults c = (Inr (), c1)"
    by (simp add: send_control_byte_def write_all.simps tcp_send_def tx c1_def)
  moreover have "write_all tcp_send ?len c1 = (Inr (), c1\<lparr>tcp_tx := TxErr k # tx, tcp_out := ?out\<rparr>)"
    by (subst write_all.simps) (simp add: ne l tcp_send_def c1_def)
  then have "send_framed_json enc tcp_send (build_server_results rs cpu) c1 = (Inl k, c2)"
    using enc by (simp add: send_framed_json_def io_then_def io_bind_def write_all.simps [of _ body] tcp_send_def c1_def c2_def)
  moreover have "tcp.chan (frame cbody @ inp) ?out c2"
    using tx rx by (simp add: tcp.chan_def c1_def c2_def)
  then obtain c' where "recv_framed_json dec' tcp_recv c2 = (Inr res, c')" "tcp.chan inp ?out c'"
    using io_okE [OF tcp.recv_framed_triple [of dec', OF dec]] by metis
  ultimately show ?thesis
    by (simp add: exchange_results_def io_then_def io_bind_def io_ignore_def io_try_def io_return_def)
qed

text \<open>
  (C30) A result frame that could not be sent is not noticed. When the connection stalls after the length
  of the frame and takes bytes again later, the session goes on with the client's results, sends
  \<open>DisplayResults\<close> where the client expects the body of the frame, and reports success.
\<close>

theorem partial_frame_unnoticed:
  assumes "enc_results env (build_server_results rs (session_cpu env rs)) = Some body" "length body < 2 ^ 32" "body \<noteq> []"
    and "tcp_tx (sv_control s) = TxAccept 1 # TxAccept 4 # TxErr k # tx" "tx_ok tx"
    and "rx_ok (tcp_rx (sv_control s))" "rx_bytes (tcp_rx (sv_control s)) = frame cbody @ [message_code IperfDone]"
    and "dec_results env cbody = Some res" "length cbody \<le> MAX_JSON_FRAME_LEN" "t \<noteq> Some 0"
  shows "\<exists>s'. finish_session env with_cpu opts t rs s = (Inr (Finished (sum_list (map rc_bytes rs))), s') \<and>
    tcp_out (sv_control s') = tcp_out (sv_control s) @ message_code ExchangeResults #
      u32_to_be_bytes (of_nat (length body)) @ [message_code DisplayResults]"
proof -
  define c where "c = (sv_control s)\<lparr>tcp_read_timeout := t\<rparr>"
  let ?out = "tcp_out c @ message_code ExchangeResults # u32_to_be_bytes (of_nat (length body))"
  have r: "tcp_set_read_timeout t (sv_control s) = (Inr (), c)" using assms(10) by (simp add: tcp_set_read_timeout_def c_def)
  obtain c1 where c1: "exchange_results (enc_results env) (dec_results env) rs (session_cpu env rs) c = (Inr (), c1)"
    "tcp.chan [message_code IperfDone] ?out c1"
    using exchange_results_partial [of "enc_results env", OF assms(1-3), of c k tx cbody "[message_code IperfDone]" "dec_results env" res] assms(4-9)
    by (auto simp: c_def)
  from c1(2) obtain c2 where c2: "finalize_test c1 = (Inr (), c2)" "tcp.chan [] (?out @ [message_code DisplayResults]) c2"
    using finalize_test_triple [of IperfDone "[]" ?out] by (auto elim: io_okE)
  have "\<exists>s'. finish_session env with_cpu opts t rs s = (Inr (Finished (sum_list (map rc_bytes rs))), s') \<and> sv_control s' = c2"
    by (simp add: finish_session_def Let_def io_then_def io_bind_def on_control_def tolerate_closed_def io_try_def
        io_return_def server_print_def r c1(1) c2(1))
  with c2(2) show ?thesis by (auto simp: tcp.chan_def c_def)
qed

theorem partial_frame_unnoticed_witness:
  "\<exists>s'. finish_session (sample_session_env sample_opts) True sample_opts (Some 5) []
      ((sample_server [])\<lparr>sv_control := (sample_tcp [RxData (frame [2] @ [message_code IperfDone])])
         \<lparr>tcp_tx := [TxAccept 1, TxAccept 4, TxErr WouldBlock]\<rparr>\<rparr>) = (Inr (Finished 0), s') \<and>
    tcp_out (sv_control s') = [13, 0, 0, 0, 1, 14]"
  using partial_frame_unnoticed [of "sample_session_env sample_opts" "[]" "[3]"
      "(sample_server [])\<lparr>sv_control := (sample_tcp [RxData (frame [2] @ [message_code IperfDone])])
         \<lparr>tcp_tx := [TxAccept 1, TxAccept 4, TxErr WouldBlock]\<rparr>\<rparr>" WouldBlock "[]" "[2]" results_empty "Some 5" True sample_opts]
  by (simp add: sample_decodes sample_tcp_def frame_def u32_to_be_bytes_def nat_be_numeral MAX_JSON_FRAME_LEN_def)

section \<open>Admission\<close>

text \<open>
  A control connection whose peer passed: its own options are within the limits, and their token passes the
  check against the files of the configuration.
\<close>

definition passed :: "config \<Rightarrow> 'k session_env \<Rightarrow> nonce_cache \<Rightarrow> tcp \<Rightarrow> bool" where
  "passed cfg env nonces c \<longleftrightarrow>
     (\<exists>opts c' pk up n. negotiate_options (dec_options env) c = (Inr opts, c') \<and> validate_options opts = Inr () \<and>
        cf_rsa_private_key cfg = Some pk \<and> cf_authorized_users cfg = Some up \<and>
        check_auth_inner (en_auth env) pk up (en_wall env) (en_now env) opts nonces = (Inr (), n))"

text \<open>
  A session that ended with an error before anything but the request for the options and the refusal
  was said, with the listener at \<open>l\<close>, no stream taken and nothing printed.
\<close>

definition turned_away :: "tcp \<Rightarrow> listener \<Rightarrow> server \<Rightarrow> 'a io_result \<Rightarrow> server \<Rightarrow> bool" where
  "turned_away c l s r s' \<longleftrightarrow> isl r \<and> sv_listener s' = l \<and> sv_data_rx s' = sv_data_rx s \<and> sv_lines s' = sv_lines s \<and>
     (\<exists>p. tcp_out (sv_control s') = tcp_out c @ p \<and> prefix p (map message_code [ParamExchange, AccessDenied]))"

lemma admit_options_lines: "admit_options env s = (r, s') \<Longrightarrow> sv_lines s' = sv_lines s"
proof -
  have c: "sv_lines (snd (on_control m s)) = sv_lines s" for m :: "(tcp, 'b) io" and s
    by (simp add: on_control_def split: prod.splits)
  have a: "sv_lines (snd (authenticate env opts s)) = sv_lines s" for opts s
    by (simp add: authenticate_def split: prod.splits)
  have i: "sv_lines (snd (reject_invalid opts s)) = sv_lines s" for opts s
    using c [of "send_control_byte tcp_send AccessDenied" s]
    by (auto simp: reject_invalid_def io_then_def io_bind_def io_ignore_def io_fail_def io_return_def split: sum.splits)
  show "sv_lines s' = sv_lines s" if "admit_options env s = (r, s')"
    using that c [of "negotiate_options (dec_options env)" s] i a
    by (auto simp: admit_options_def io_bind_def io_then_def io_return_def split: prod.splits sum.splits) (metis snd_conv)+
qed

lemma admission:
  assumes "en_auth_config env = Some (Some pk, Some up)" "cf_rsa_private_key cfg = Some pk" "cf_authorized_users cfg = Some up"
    and "io_bind (admit_options env) f s = (r, s')"
  shows "passed cfg env (sv_nonces s) (sv_control s) \<or> turned_away (sv_control s) (sv_listener s) s r s'"
proof -
  obtain q s1 where q: "admit_options env s = (q, s1)" by fastforce
  show ?thesis
  proof (cases q)
    case (Inl k)
    have "(r, s') = (Inl k, s1)" using assms(4) q Inl by (simp add: io_bind_Inl)
    moreover obtain p where "control_out s1 = control_out s @ p" "prefix p ([message_code ParamExchange] @ [message_code AccessDenied])"
      using saysE [OF says_admit_options q] by blast
    ultimately show ?thesis
      using streamless_frame [OF streamless_admit q] admit_options_lines [OF q]
      by (auto simp: turned_away_def control_out_def simp del: message_code.simps)
  next
    case (Inr opts)
    from q [unfolded Inr] obtain c where c: "negotiate_options (dec_options env) (sv_control s) = (Inr opts, c)"
      "validate_options opts = Inr ()" "authenticate env opts (s\<lparr>sv_control := c\<rparr>) = (Inr (), s1)"
      by (rule admit_options_InrE)
    from authenticate_InrD [OF c(3) assms(1)] c(1,2) assms(2,3) show ?thesis unfolding passed_def by fastforce
  qed
qed

text \<open>
  (C12) No test without admission. On a server started with \<open>--require-auth\<close> every session, of the sequential
  server and of the concurrent one, and whatever the peer does, is of one of two kinds: the options the peer
  of its own control connection sent are within the limits and carried a token that passes the check against
  the configured files, or the session ends with an error and has said nothing but the request for the
  options and \<open>AccessDenied\<close>, taken no data stream and printed nothing. Such a server does not start at
  all unless both authentication files are configured.
\<close>

theorem session_admitted:
  assumes start: "run_server cfg bound None = (st, auth_paths, notices)" "cf_require_auth cfg" "st \<noteq> RefusedNoAuth"
    and env: "en_auth_config env = auth_paths"
    and sequential: "accept_control timeout (sv_listener s) = (Inr (control, cookie), l)"
      "serve_one_session env timeout s = (r, s')"
    and concurrent: "serve_session_from_channel env cookie' timeout q = (r', q')"
  shows "(passed cfg env (sv_nonces s) control \<or> turned_away control l s r s') \<and>
    (passed cfg env (sv_nonces q) (sv_control q) \<or> turned_away (sv_control q) (sv_listener q) q r' q')"
proof
  from start obtain pk up where p: "cf_rsa_private_key cfg = Some pk" "cf_authorized_users cfg = Some up"
    "auth_paths = Some (Some pk, Some up)"
    by (auto simp: run_server_def Let_def set_auth_config_def split: if_splits sum.splits)
  note a = admission [OF env [unfolded p(3)] p(1,2)]
  let ?s = "s\<lparr>sv_listener := l, sv_control := control\<rparr>"
  have "session_body env cookie timeout ?s = (r, s')"
    using sequential by (simp add: serve_one_session_def io_bind_def io_then_def on_listener_def)
  from a [OF this [unfolded session_body_def]]
  show "passed cfg env (sv_nonces s) control \<or> turned_away control l s r s'" by (simp add: turned_away_def)
  from a [OF concurrent [unfolded serve_session_from_channel_def]]
  show "passed cfg env (sv_nonces q) (sv_control q) \<or> turned_away (sv_control q) (sv_listener q) q r' q'" .
qed

text \<open>A client with a good token on the sequential server, and a silent one on the concurrent server.\<close>

theorem session_admitted_witness:
  "\<exists>control cookie l. accept_control (Some 5) (sv_listener (sample_server (frame [1] @ [message_code TestEnd] @ frame [2] @ [message_code IperfDone]))) =
      (Inr (control, cookie), l) \<and> passed auth_sample_config auth_sample_env nonce_cache_new control \<and>
   (\<exists>r' q'. serve_session_from_channel auth_sample_env sample_cookie (Some 5) (sample_server []) = (r', q') \<and>
      turned_away (sample_tcp []) (sample_listener []) (sample_server []) r' q')"
proof -
  let ?s = "sample_server (frame [1] @ [message_code TestEnd] @ frame [2] @ [message_code IperfDone])"
  obtain s' where r: "serve_one_session auth_sample_env (Some 5) ?s = (Inr (Finished 3), s')"
    using auth_sample_run by blast
  obtain control cookie l where acc: "accept_control (Some 5) (sv_listener ?s) = (Inr (control, cookie), l)"
    using r by (auto simp: serve_one_session_def io_bind_def on_listener_def split: prod.splits sum.splits)
  obtain r' q' where q: "serve_session_from_channel auth_sample_env sample_cookie (Some 5) (sample_server []) = (r', q')" by fastforce
  have st: "run_server auth_sample_config (Inr (sample_listener [])) None =
      (Sequential (sample_listener []), Some (Some (lit ''k''), Some (lit ''u'')), [Listening 5201])"
    "cf_require_auth auth_sample_config" "Sequential (sample_listener []) \<noteq> RefusedNoAuth"
    "en_auth_config auth_sample_env = Some (Some (lit ''k''), Some (lit ''u''))"
    by (simp_all add: run_server_def Let_def auth_sample_config_def set_auth_config_def with_host_def auth_sample_env_def)
  have "fst (negotiate_options (dec_options auth_sample_env) (sample_tcp [])) = Inl WouldBlock"
    by (simp add: negotiate_options_def send_control_byte_def write_all.simps tcp_send_def sample_tcp_def io_then_def io_bind_def
        recv_framed_json_def read_exact.simps tcp_recv_def)
  then have "\<not> passed auth_sample_config auth_sample_env n (sample_tcp [])" for n by (auto simp: passed_def)
  with session_admitted [OF st acc r q] acc q show ?thesis
    by (auto simp: sample_server_def turned_away_def)
qed

end
