(* ===== verification/Stream_Delivery.thy ===== *)
theory Stream_Delivery
  imports Server_Properties
begin

text \<open>
  How the data connections of a TCP test reach its session in the two servers of
  \<^verbatim>\<open>src/server.rs\<close>: taken from the listener by the session itself (\<open>accept_streams_via_listener\<close>, which
  clears the read deadline after the cookie), or queued for it by rounds of the accept loop (which does
  not). The two sessions run the same test as long as no pause of a sender reaches the deadline.
\<close>

section \<open>Deadlines\<close>

definition with_deadline :: "duration option \<Rightarrow> tcp \<Rightarrow> tcp" where
  "with_deadline tm s = s\<lparr>tcp_read_timeout := tm, tcp_write_timeout := tm\<rparr>"

text \<open>No pause reaches the deadline.\<close>

definition lively :: "duration option \<Rightarrow> rx_event list \<Rightarrow> bool" where
  "lively tm rx \<longleftrightarrow> (\<forall>d t. RxIdle d \<in> set rx \<longrightarrow> tm = Some t \<longrightarrow> d < t)"

text \<open>
  A connection that is never silent for as long as the deadline: no pause is that long, and its script
  ends with a close or an error, not with silence.
\<close>

definition punctual :: "duration option \<Rightarrow> rx_event list \<Rightarrow> bool" where
  "punctual tm rx \<longleftrightarrow>
     lively tm rx \<and> (tm = None \<or> (\<exists>e\<in>set rx. case e of RxData c \<Rightarrow> c = [] | RxErr k \<Rightarrow> True | RxIdle d \<Rightarrow> False))"

lemma lively_simps [simp]:
  "lively tm []" "lively tm (RxErr k # r) = lively tm r" "lively tm (RxData c # r) = lively tm r"
  "lively tm (RxIdle d # r) \<longleftrightarrow> (\<forall>t. tm = Some t \<longrightarrow> d < t) \<and> lively tm r"
  by (auto simp: lively_def)

lemma rx_next_lively:
  "lively tm rx \<Longrightarrow> rx_next nb tm n rx = rx_next nb None n rx"
  by (induction nb tm n rx rule: rx_next.induct) (auto split: option.splits)

lemma rx_next_keeps_lively:
  "lively tm rx \<Longrightarrow> rx_next nb tm n rx = (q, r) \<Longrightarrow> lively tm r"
  by (induction nb tm n rx rule: rx_next.induct) (auto split: option.splits if_splits)

lemma with_deadline_simps [simp]:
  "tcp_rx (with_deadline tm s) = tcp_rx s" "tcp_tx (with_deadline tm s) = tcp_tx s"
  "tcp_out (with_deadline tm s) = tcp_out s" "tcp_nonblocking (with_deadline tm s) = tcp_nonblocking s"
  "tcp_read_timeout (with_deadline tm s) = tm"
  "(with_deadline tm s)\<lparr>tcp_rx := r\<rparr> = with_deadline tm (s\<lparr>tcp_rx := r\<rparr>)"
  by (simp_all add: with_deadline_def)

lemma tcp_recv_frame:
  "tcp_recv n s = (q, s') \<Longrightarrow> s' = s\<lparr>tcp_rx := tcp_rx s'\<rparr>"
  by (auto simp: tcp_recv_def split: prod.splits)

lemma tcp_recv_deadline:
  assumes "tcp_read_timeout s = None" and "lively tm (tcp_rx s)" and "tcp_recv n s = (q, s')"
  shows "tcp_recv n (with_deadline tm s) = (q, with_deadline tm s')"
    and "tcp_read_timeout s' = None" and "lively tm (tcp_rx s')"
proof -
  have r: "rx_next (tcp_nonblocking s) tm n (tcp_rx s) = (q, tcp_rx s')" and s': "s' = s\<lparr>tcp_rx := tcp_rx s'\<rparr>"
    using assms by (auto simp: tcp_recv_def rx_next_lively split: prod.splits)
  show "tcp_recv n (with_deadline tm s) = (q, with_deadline tm s')"
    by (subst s') (simp add: tcp_recv_def r)
  show "tcp_read_timeout s' = None" by (subst s') (simp add: assms(1))
  show "lively tm (tcp_rx s')" using rx_next_keeps_lively [OF assms(2) r] .
qed

text \<open>What reading leaves of the script, and of everything else.\<close>

lemma read_exact_only_rx: "read_exact tcp_recv n s = (q, s') \<Longrightarrow> s' = s\<lparr>tcp_rx := tcp_rx s'\<rparr>"
proof (induction n arbitrary: s q s' rule: less_induct)
  case (less n)
  obtain p s1 where p: "tcp_recv n s = (p, s1)" by fastforce
  have s1: "s1 = s\<lparr>tcp_rx := tcp_rx s1\<rparr>" using tcp_recv_frame [OF p] .
  consider "n = 0" | "n \<noteq> 0" "\<forall>c. p = Inr c \<longrightarrow> c = []" | c where "n \<noteq> 0" "p = Inr c" "c \<noteq> []" by auto
  then show ?case
  proof cases
    case 1
    with less.prems show ?thesis by (simp add: read_exact.simps)
  next
    case 2
    then have "s' = s1" using less.prems p by (subst (asm) read_exact.simps) (auto split: sum.splits)
    with s1 show ?thesis by simp
  next
    case 3
    obtain q2 s2 where q2: "read_exact tcp_recv (n - length c) s1 = (q2, s2)" by fastforce
    have "n - length c < n" using 3 by simp
    from less.IH [OF this q2] have "s2 = s1\<lparr>tcp_rx := tcp_rx s2\<rparr>" .
    moreover have "s1\<lparr>tcp_rx := tcp_rx s2\<rparr> = s\<lparr>tcp_rx := tcp_rx s2\<rparr>" by (subst s1) simp
    moreover have "s' = s2"
      using less.prems p q2 3 by (subst (asm) read_exact.simps) (auto split: sum.splits)
    ultimately show ?thesis by simp
  qed
qed

lemma read_exact_lively:
  "lively (tcp_read_timeout s) (tcp_rx s) \<Longrightarrow> read_exact tcp_recv n s = (q, s') \<Longrightarrow>
   lively (tcp_read_timeout s) (tcp_rx s')"
proof (induction n arbitrary: s q s' rule: less_induct)
  case (less n)
  obtain p s1 where p: "tcp_recv n s = (p, s1)" by fastforce
  have l1: "lively (tcp_read_timeout s) (tcp_rx s1)"
    using p less.prems(1) rx_next_keeps_lively by (auto simp: tcp_recv_def split: prod.splits)
  have t1: "tcp_read_timeout s1 = tcp_read_timeout s" by (subst tcp_recv_frame [OF p]) simp
  consider "n = 0" | "n \<noteq> 0" "\<forall>c. p = Inr c \<longrightarrow> c = []" | c where "n \<noteq> 0" "p = Inr c" "c \<noteq> []" by auto
  then show ?case
  proof cases
    case 1
    with less.prems show ?thesis by (simp add: read_exact.simps)
  next
    case 2
    then have "s' = s1" using less.prems(2) p by (subst (asm) read_exact.simps) (auto split: sum.splits)
    with l1 show ?thesis by simp
  next
    case 3
    obtain q2 s2 where q2: "read_exact tcp_recv (n - length c) s1 = (q2, s2)" by fastforce
    have "n - length c < n" using 3 by simp
    from less.IH [OF this _ q2] l1 t1 have "lively (tcp_read_timeout s) (tcp_rx s2)" by simp
    moreover have "s' = s2"
      using less.prems(2) p q2 3 by (subst (asm) read_exact.simps) (auto split: sum.splits)
    ultimately show ?thesis by simp
  qed
qed

text \<open>The write deadline plays no part in reading.\<close>

lemma read_exact_write_timeout:
  "read_exact tcp_recv n (s\<lparr>tcp_write_timeout := w\<rparr>) =
     (fst (read_exact tcp_recv n s), (snd (read_exact tcp_recv n s))\<lparr>tcp_write_timeout := w\<rparr>)"
proof (induction n arbitrary: s rule: less_induct)
  case (less n)
  have step: "tcp_recv n (s\<lparr>tcp_write_timeout := w\<rparr>) = (fst (tcp_recv n s), (snd (tcp_recv n s))\<lparr>tcp_write_timeout := w\<rparr>)"
    by (simp add: tcp_recv_def split: prod.splits)
  obtain p s1 where p: "tcp_recv n s = (p, s1)" by fastforce
  show ?case
  proof (cases "n = 0 \<or> (\<forall>c. p = Inr c \<longrightarrow> c = [])")
    case True
    then show ?thesis using p step by (auto simp: read_exact.simps [of _ n] split: sum.splits)
  next
    case False
    then obtain c where c: "p = Inr c" "c \<noteq> []" and n: "n \<noteq> 0" by auto
    have "n - length c < n" using c(2) n by simp
    from less.IH [OF this, of s1] p c n step show ?thesis
      by (simp add: read_exact.simps [of _ n] split: prod.splits sum.splits)
  qed
qed

section \<open>The threads do not see a deadline that is not reached\<close>

lemma recv_stream_loop_deadline:
  "tcp_read_timeout s = None \<Longrightarrow> lively tm (tcp_rx s) \<Longrightarrow>
   recv_stream_loop om clk i (with_deadline tm s) m = recv_stream_loop om clk i s m"
proof (induction om clk i s m rule: recv_stream_loop.induct)
  case (1 om clk i s m)
  obtain q s' where q: "tcp_recv DEFAULT_TCP_LEN s = (q, s')" by fastforce
  note d = tcp_recv_deadline [OF 1(3,4) q]
  show ?case
  proof (cases q)
    case (Inl k)
    with 1(1) [OF q [symmetric] Inl] d show ?thesis
      by (simp add: recv_stream_loop.simps [of om clk i "with_deadline tm s"] recv_stream_loop.simps [of om clk i s] q)
  next
    case (Inr c)
    with 1(2) [OF q [symmetric] Inr] d show ?thesis
      by (simp add: recv_stream_loop.simps [of om clk i "with_deadline tm s"] recv_stream_loop.simps [of om clk i s] q)
  qed
qed

lemma tcp_send_deadline:
  "tcp_send b s = (q, s') \<Longrightarrow> tcp_send b (with_deadline tm s) = (q, with_deadline tm s')"
  by (auto simp: tcp_send_def with_deadline_def split: list.splits tx_event.splits)

lemma tcp_send_loop_deadline:
  "tcp_send_loop tot tick timer dur omit len mb bl ts (with_deadline tm s) m =
     map_run (\<lambda>(m, s). (m, with_deadline tm s)) (tcp_send_loop tot tick timer dur omit len mb bl ts s m)"
proof (induction ts arbitrary: s m mb bl)
  case (Cons t ts)
  obtain q s' where q: "tcp_send (build_payload len) s = (q, s')" by fastforce
  note d = tcp_send_deadline [OF q]
  show ?case by (cases q) (simp_all add: q d Cons.IH)
qed simp

lemma tuned_deadline [simp]:
  "snd (tcp_apply_tuning o' (with_deadline tm s)) = with_deadline tm (snd (tcp_apply_tuning o' s))"
  "snd (tcp_set_nonblocking b (with_deadline tm s)) = with_deadline tm (snd (tcp_set_nonblocking b s))"
  by (simp_all add: tcp_apply_tuning_def tcp_set_nonblocking_def with_deadline_def)

lemma tcp_send_stream_deadline:
  "join_receipt (tcp_send_stream opts sid t0 turns (with_deadline tm s)) e =
   join_receipt (tcp_send_stream opts sid t0 turns s) e"
  by (simp add: tcp_send_stream_def Let_def tcp_send_loop_deadline join_receipt_def split: run.splits)

lemma tune_streams_deadline:
  "tune_streams opts (map (with_deadline tm) ss) = map (with_deadline tm) (tune_streams opts ss)"
  by (simp add: tune_streams_def)

lemma spawn_stream_readers_deadline:
  assumes "\<forall>s\<in>set ss. tcp_read_timeout s = None \<and> lively tm (tcp_rx s)"
  shows "spawn_stream_readers env omit (map (with_deadline tm) ss) = spawn_stream_readers env omit ss"
proof (rule nth_equalityI)
  fix i assume "i < length (spawn_stream_readers env omit (map (with_deadline tm) ss))"
  then have i: "i < length ss" by (simp add: spawn_stream_readers_def)
  with assms recv_stream_loop_deadline [of "ss ! i" tm] show
    "spawn_stream_readers env omit (map (with_deadline tm) ss) ! i = spawn_stream_readers env omit ss ! i"
    by (simp add: spawn_stream_readers_def nth_enumerate_eq recv_stream_bytes_def)
qed (simp add: spawn_stream_readers_def)

lemma run_tcp_send_streams_deadline:
  "run_tcp_send_streams env opts (map (with_deadline tm) ss) = run_tcp_send_streams env opts ss"
proof -
  have "map (\<lambda>(i, s). join_receipt (tcp_send_stream opts (of_nat (i + 1)) (fst (en_sender env i)) (snd (en_sender env i)) s) stream_receipt_empty)
        (enumerate k (map (with_deadline tm) ss)) =
      map (\<lambda>(i, s). join_receipt (tcp_send_stream opts (of_nat (i + 1)) (fst (en_sender env i)) (snd (en_sender env i)) s) stream_receipt_empty)
        (enumerate k ss)" for k
    by (induction ss arbitrary: k) (simp_all add: tcp_send_stream_deadline)
  then show ?thesis by (simp only: run_tcp_send_streams_def)
qed

lemma tcp_rest_deadline:
  assumes "\<forall>s\<in>set ss. tcp_read_timeout s = None \<and> lively tm (tcp_rx s)"
  shows "tcp_rest env opts timeout (map (with_deadline tm) ss) = tcp_rest env opts timeout ss"
proof -
  have "\<forall>s\<in>set (tune_streams opts ss). tcp_read_timeout s = None \<and> lively tm (tcp_rx s)"
    using assms by (auto simp: tune_streams_def tcp_apply_tuning_def)
  note r = spawn_stream_readers_deadline [OF this]
  show ?thesis
    by (simp add: tcp_rest_def tcp_data_phase_def tune_streams_deadline tcp_bidirectional_def tcp_reverse_def
        tcp_forward_def run_tcp_send_streams_deadline r Let_def cong: option.case_cong)
qed

section \<open>The same connection, accepted by either server\<close>

lemma accept_stream_InrE:
  assumes "accept_stream cookie timeout l = (Inr a, l')"
  obtains c c' where "l 0 = Inr c" and "l' = (\<lambda>i. l (Suc i))" and "timeout \<noteq> Some 0"
    and "read_exact tcp_recv COOKIE_LEN (c\<lparr>tcp_read_timeout := timeout\<rparr>) = (Inr cookie, c')"
    and "a = c'\<lparr>tcp_read_timeout := None\<rparr>"
  using assms
  by (auto simp: accept_stream_def io_bind_def io_then_def listener_accept_def with_socket_def recv_cookie_def
      tcp_set_read_timeout_def split: sum.splits prod.splits if_splits)

lemma accept_one_same:
  assumes "read_exact tcp_recv COOKIE_LEN (c\<lparr>tcp_read_timeout := timeout\<rparr>) = (Inr cookie, c')"
    and "timeout \<noteq> Some 0"
  shows "accept_one mx timeout c ip st =
    Inr (route mx cookie (with_deadline timeout (c'\<lparr>tcp_read_timeout := None\<rparr>)) ip st)"
proof -
  have "with_deadline timeout (c'\<lparr>tcp_read_timeout := None\<rparr>) = c'\<lparr>tcp_write_timeout := timeout\<rparr>"
    by (subst (1 2) read_exact_only_rx [OF assms(1)]) (simp add: with_deadline_def)
  moreover have "read_exact tcp_recv COOKIE_LEN (c\<lparr>tcp_read_timeout := timeout, tcp_write_timeout := timeout\<rparr>) =
      (Inr cookie, c'\<lparr>tcp_write_timeout := timeout\<rparr>)"
    using read_exact_write_timeout [where n = COOKIE_LEN and s = "c\<lparr>tcp_read_timeout := timeout\<rparr>" and w = timeout] assms(1) by simp
  ultimately show ?thesis
    using assms(2) by (simp add: accept_one_def tcp_set_read_timeout_def tcp_set_write_timeout_def recv_cookie_def)
qed

text \<open>The rounds queue what the session would have accepted, with the deadline still on.\<close>

lemma rounds_deliver:
  assumes "serving cookie st = [t]" and "cookie \<in> set (cc_registry st)"
    and "accept_streams cookie timeout (length conns) l = (Inr ss, l')"
    and "\<forall>i<length conns. l i = Inr (fst (conns ! i))"
  shows "\<exists>st'. accept_rounds mx timeout conns st = Inr st' \<and>
    serving cookie st' = [t\<lparr>sn_data_rx := sn_data_rx t @ map (with_deadline timeout) ss\<rparr>]"
  using assms
proof (induction conns arbitrary: st t l ss)
  case (Cons conn conns)
  obtain c ip where conn: "conn = (c, ip)" by fastforce
  from Cons.prems(3) obtain a l1 ss1 where a: "accept_stream cookie timeout l = (Inr a, l1)"
    and ss1: "accept_streams cookie timeout (length conns) l1 = (Inr ss1, l')" and ss: "ss = a # ss1"
    by (auto elim!: io_bind_eq_InrE)
  from a obtain d d' where d: "l 0 = Inr d" "l1 = (\<lambda>i. l (Suc i))" "timeout \<noteq> Some 0"
    "read_exact tcp_recv COOKIE_LEN (d\<lparr>tcp_read_timeout := timeout\<rparr>) = (Inr cookie, d')"
    "a = d'\<lparr>tcp_read_timeout := None\<rparr>" by (rule accept_stream_InrE)
  from Cons.prems(4) d(1) have "d = c" by (auto simp: conn)
  with accept_one_same [OF d(4,3)] d(5) have round: "accept_round mx timeout (Inr conn) st =
      Inr (route mx cookie (with_deadline timeout a) ip st)" by (simp add: accept_round_def conn)
  obtain st1 where st1: "route mx cookie (with_deadline timeout a) ip st = (Attached, st1)"
    "serving cookie st1 = [t\<lparr>sn_data_rx := sn_data_rx t @ [with_deadline timeout a]\<rparr>]"
    "cc_registry st1 = cc_registry st"
    by (rule route_serving [OF Cons.prems(1,2)])
  have "\<forall>i<length conns. l1 i = Inr (fst (conns ! i))" using Cons.prems(4) by (auto simp: d(2))
  from Cons.IH [OF st1(2) _ ss1 this] Cons.prems(2) st1(3) obtain st' where
    "accept_rounds mx timeout conns st1 = Inr st'"
    "serving cookie st' = [t\<lparr>sn_data_rx := (sn_data_rx t @ [with_deadline timeout a]) @ map (with_deadline timeout) ss1\<rparr>]"
    by auto
  with round st1(1) ss show ?case by simp
qed simp

lemma accept_streams_lively:
  assumes "accept_streams cookie timeout (length conns) l = (Inr ss, l')"
    and "\<forall>i<length conns. l i = Inr (fst (conns ! i))"
    and "\<forall>c\<in>set conns. lively timeout (tcp_rx (fst c))"
  shows "\<forall>a\<in>set ss. tcp_read_timeout a = None \<and> lively timeout (tcp_rx a)"
  using assms
proof (induction conns arbitrary: l ss)
  case (Cons conn conns)
  from Cons.prems(1) obtain a l1 ss1 where a: "accept_stream cookie timeout l = (Inr a, l1)"
    and ss1: "accept_streams cookie timeout (length conns) l1 = (Inr ss1, l')" and ss: "ss = a # ss1"
    by (auto elim!: io_bind_eq_InrE)
  from a obtain d d' where d: "l 0 = Inr d" "l1 = (\<lambda>i. l (Suc i))" "timeout \<noteq> Some 0"
    "read_exact tcp_recv COOKIE_LEN (d\<lparr>tcp_read_timeout := timeout\<rparr>) = (Inr cookie, d')"
    "a = d'\<lparr>tcp_read_timeout := None\<rparr>" by (rule accept_stream_InrE)
  have "d = fst conn" using Cons.prems(2) d(1) by auto
  then have "lively timeout (tcp_rx a)"
    using read_exact_lively [OF _ d(4)] Cons.prems(3) d(5) by simp
  moreover have "\<forall>a\<in>set ss1. tcp_read_timeout a = None \<and> lively timeout (tcp_rx a)"
    using Cons.IH [OF ss1] Cons.prems(2,3) by (auto simp: d(2))
  ultimately show ?case by (simp add: ss d(5))
qed simp

lemma streamless_queue:
  assumes "streamless m" and "m s = (r, s')"
  shows "m (s\<lparr>sv_data_rx := q\<rparr>) = (r, s'\<lparr>sv_data_rx := q\<rparr>)"
proof -
  have "m (s\<lparr>sv_listener := sv_listener s, sv_data_rx := q\<rparr>) = (r, s'\<lparr>sv_listener := sv_listener s, sv_data_rx := q\<rparr>)"
    using streamlessD [OF assms(1), where s = s and l = "sv_listener s" and q = q] assms(2) by simp
  moreover have "s'\<lparr>sv_listener := sv_listener s, sv_data_rx := q\<rparr> = s'\<lparr>sv_data_rx := q\<rparr>"
    using streamless_frame(1) [OF assms] by (cases s') simp
  ultimately show ?thesis by simp
qed

lemma channel_session_streams:
  assumes adm: "admit_options env s = (Inr opts, s1)" and tcp: "\<not> co_udp opts"
    and dir: "\<not> (co_reverse opts \<and> co_bidirectional opts)"
    and acc: "accept_streams cookie timeout (unat (co_parallel opts)) (sv_listener s) = (Inr ss, l')"
    and q: "length q = unat (co_parallel opts)" "tcp_rest env opts timeout q = tcp_rest env opts timeout ss"
    and run: "session_body env cookie timeout s = (r, s')"
  shows "\<exists>s''. serve_session_from_channel env cookie timeout (s\<lparr>sv_data_rx := q\<rparr>) = (r, s'') \<and>
    sv_control s'' = sv_control s' \<and> sv_nonces s'' = sv_nonces s' \<and> sv_lines s'' = sv_lines s'"
proof -
  note frame1 = streamless_frame [OF streamless_admit adm]
  have adm': "admit_options env (s\<lparr>sv_data_rx := q\<rparr>) = (Inr opts, s1\<lparr>sv_data_rx := q\<rparr>)"
    using streamless_queue [OF streamless_admit adm] .
  note a = session_body_tcp [OF adm tcp, of cookie timeout, unfolded run]
  note b = channel_session_tcp [OF adm' tcp dir, of cookie timeout]
  obtain p s2 where p: "on_control (send_control_byte tcp_send CreateStreams) s1 = (p, s2)" by fastforce
  note frame2 = streamless_frame [OF streamless_on_control p]
  have p': "on_control (send_control_byte tcp_send CreateStreams) (s1\<lparr>sv_data_rx := q\<rparr>) = (p, s2\<lparr>sv_data_rx := q\<rparr>)"
    using streamless_queue [OF streamless_on_control p] .
  show ?thesis
  proof (cases p)
    case (Inl k)
    with a b p p' show ?thesis by (simp add: io_then_Inl)
  next
    case (Inr u)
    have "on_listener (accept_streams cookie timeout (unat (co_parallel opts))) s2 =
        (Inr ss, s2\<lparr>sv_listener := l', sv_data_rx := sv_data_rx s2\<rparr>)"
      using acc frame1 frame2 by (simp add: on_listener_def)
    with a p Inr have a': "(r, s') = tcp_rest env opts timeout ss (s2\<lparr>sv_listener := l', sv_data_rx := sv_data_rx s2\<rparr>)"
      by (simp add: io_then_Inr io_bind_Inr)
    have "channel_accept (co_parallel opts) timeout (s2\<lparr>sv_data_rx := q\<rparr>) =
        (Inr q, s2\<lparr>sv_listener := sv_listener s2, sv_data_rx := []\<rparr>)"
      using q(1) by (simp add: channel_accept_def accept_from_channel_spec)
    with b p' Inr q(2) have b': "serve_session_from_channel env cookie timeout (s\<lparr>sv_data_rx := q\<rparr>) =
        tcp_rest env opts timeout ss (s2\<lparr>sv_listener := sv_listener s2, sv_data_rx := []\<rparr>)"
      by (simp add: io_then_Inr io_bind_Inr)
    from a' [unfolded streamlessD [OF streamless_tcp_rest]] b' [unfolded streamlessD [OF streamless_tcp_rest]]
    show ?thesis by simp
  qed
qed

section \<open>A forward test on given streams\<close>

definition read_receipts :: "'k session_env \<Rightarrow> client_options \<Rightarrow> tcp list \<Rightarrow> stream_receipt list" where
  "read_receipts env opts ss =
     join_stream_totals (spawn_stream_readers env (from_secs (unat (co_omit opts))) (tune_streams opts ss))"

lemma tcp_rest_forward:
  assumes dir: "\<not> co_reverse opts" "\<not> co_bidirectional opts"
    and sizes: "timeout \<noteq> Some 0" "TestEnd \<notin> set ms" "length cbody \<le> MAX_JSON_FRAME_LEN"
    and json: "dec_results env cbody = Some res" "\<And>r. \<exists>b. enc_results env r = Some b \<and> length b < 2 ^ 32"
    and s: "srv (l, q, n, z) (map message_code ms @ message_code TestEnd # frame cbody @ [message_code IperfDone]) out s"
  shows "\<exists>s'. tcp_rest env opts timeout ss s = (Inr (Finished (sum_list (map rc_bytes (read_receipts env opts ss)))), s')"
proof -
  let ?rs = "read_receipts env opts ss"
  obtain s1 where s1: "tcp_data_phase env opts timeout ss s = (Inr (Finished ?rs), s1)"
    "srv (l, q, n, z @ [IntervalHeader]) (frame cbody @ [message_code IperfDone]) (out @ [message_code TestStart, message_code TestRunning]) s1"
    using io_okE [OF tcp_forward_phase [OF dir sizes(1,2)] s] unfolding read_receipts_def by blast
  obtain b where b: "enc_results env (build_server_results ?rs (session_cpu env ?rs)) = Some b" "length b < 2 ^ 32"
    using json(2) by blast
  obtain s2 where "finish_session env True opts timeout ?rs s1 = (Inr (Finished (sum_list (map rc_bytes ?rs))), s2)"
    using io_okE [OF finish_session_triple [where env = env and cpu = True and opts = opts, OF b json(1) sizes(3,1)] s1(2)] by auto
  with s1(1) show ?thesis by (simp add: tcp_rest_def io_bind_Inr on_finished_def)
qed

text \<open>The two sessions, on a control connection over which the client runs a forward test.\<close>

lemma forward_sessions:
  assumes control: "tcp.chan (frame obody @ map message_code ms @ message_code TestEnd # frame cbody @ [message_code IperfDone]) [] (sv_control s)"
    and json: "dec_options env obody = Some opts" "dec_results env cbody = Some res"
      "\<And>r. \<exists>b. enc_results env r = Some b \<and> length b < 2 ^ 32"
    and sizes: "length obody \<le> MAX_JSON_FRAME_LEN" "length cbody \<le> MAX_JSON_FRAME_LEN" "timeout \<noteq> Some 0" "TestEnd \<notin> set ms"
    and opts: "validate_options opts = Inr ()" "\<not> co_udp opts" "\<not> co_reverse opts" "\<not> co_bidirectional opts"
      "auth_passes env opts (sv_nonces s)"
  shows "\<exists>s1. admit_options env s = (Inr opts, s1)"
    and "accept_streams cookie timeout (unat (co_parallel opts)) (sv_listener s) = (Inr ss, l') \<Longrightarrow>
      \<exists>s'. session_body env cookie timeout s = (Inr (Finished (sum_list (map rc_bytes (read_receipts env opts ss)))), s')"
    and "length (sv_data_rx s) = unat (co_parallel opts) \<Longrightarrow> \<exists>s'. serve_session_from_channel env cookie timeout s =
      (Inr (Finished (sum_list (map rc_bytes (read_receipts env opts (sv_data_rx s))))), s')"
proof -
  let ?tail = "map message_code ms @ message_code TestEnd # frame cbody @ [message_code IperfDone]"
  have "srv (sv_listener s, sv_data_rx s, sv_nonces s, sv_lines s) (frame obody @ ?tail) [] s"
    using control by (simp add: srv_def sv_rest_def)
  then obtain n s1 where adm: "admit_options env s = (Inr opts, s1)"
    and s1: "srv (sv_listener s, sv_data_rx s, n, sv_lines s) ?tail [message_code ParamExchange] s1"
    by (rule admit_options_passes [of _ _ _ _ obody _ s env, OF _ json(1) sizes(1) opts(1,5)])
  obtain s2 where s2: "on_control (send_control_byte tcp_send CreateStreams) s1 = (Inr (), s2)"
    "srv (sv_listener s, sv_data_rx s, n, sv_lines s) ?tail ([message_code ParamExchange] @ [message_code CreateStreams]) s2"
    by (rule send_on_control [OF s1])
  note rest = tcp_rest_forward [OF opts(3,4) sizes(3,4,2) json(2,3)]
  show "\<exists>s1. admit_options env s = (Inr opts, s1)" using adm by blast
  show "\<exists>s'. session_body env cookie timeout s = (Inr (Finished (sum_list (map rc_bytes (read_receipts env opts ss)))), s')"
    if "accept_streams cookie timeout (unat (co_parallel opts)) (sv_listener s) = (Inr ss, l')"
  proof -
    have "on_listener (accept_streams cookie timeout (unat (co_parallel opts))) s2 = (Inr ss, s2\<lparr>sv_listener := l'\<rparr>)"
      using that s2(2) by (simp add: on_listener_def srv_def sv_rest_def)
    moreover have "srv (l', sv_data_rx s, n, sv_lines s) ?tail ([message_code ParamExchange] @ [message_code CreateStreams]) (s2\<lparr>sv_listener := l'\<rparr>)"
      using s2(2) by (simp add: srv_def sv_rest_def)
    from rest [OF this, of ss] obtain s3 where "tcp_rest env opts timeout ss (s2\<lparr>sv_listener := l'\<rparr>) =
        (Inr (Finished (sum_list (map rc_bytes (read_receipts env opts ss)))), s3)" by blast
    ultimately show ?thesis
      using session_body_tcp [OF adm opts(2)] s2(1) by (simp add: io_then_Inr io_bind_Inr)
  qed
  show "\<exists>s'. serve_session_from_channel env cookie timeout s =
      (Inr (Finished (sum_list (map rc_bytes (read_receipts env opts (sv_data_rx s))))), s')"
    if "length (sv_data_rx s) = unat (co_parallel opts)"
  proof -
    have "channel_accept (co_parallel opts) timeout s2 = (Inr (sv_data_rx s), s2\<lparr>sv_data_rx := []\<rparr>)"
      using that s2(2) by (simp add: channel_accept_def accept_from_channel_spec srv_def sv_rest_def)
    moreover have "srv (sv_listener s, [], n, sv_lines s) ?tail ([message_code ParamExchange] @ [message_code CreateStreams]) (s2\<lparr>sv_data_rx := []\<rparr>)"
      using s2(2) by (simp add: srv_def sv_rest_def)
    from rest [OF this, of "sv_data_rx s"] obtain s3 where "tcp_rest env opts timeout (sv_data_rx s) (s2\<lparr>sv_data_rx := []\<rparr>) =
        (Inr (Finished (sum_list (map rc_bytes (read_receipts env opts (sv_data_rx s))))), s3)" by blast
    ultimately show ?thesis
      using channel_session_tcp [OF adm opts(2)] opts(3) s2(1) by (simp add: io_then_Inr io_bind_Inr)
  qed
qed

text \<open>Connections that send the cookie in one piece.\<close>

definition after_cookie :: "tcp \<Rightarrow> tcp" where
  "after_cookie c = c\<lparr>tcp_rx := tl (tcp_rx c), tcp_read_timeout := None\<rparr>"

lemma accept_streams_chunk:
  assumes "length cookie = COOKIE_LEN" and "timeout \<noteq> Some 0"
    and "\<forall>i<length conns. l i = Inr (fst (conns ! i)) \<and> (\<exists>r. tcp_rx (fst (conns ! i)) = RxData cookie # r)"
  shows "accept_streams cookie timeout (length conns) l =
    (Inr (map (after_cookie \<circ> fst) conns), \<lambda>i. l (i + length conns))"
  using assms(3)
proof (induction conns arbitrary: l)
  case (Cons conn conns)
  let ?c = "fst conn"
  have c: "l 0 = Inr ?c" "\<exists>r. tcp_rx ?c = RxData cookie # r" using Cons.prems by auto
  have ne: "cookie \<noteq> []" "COOKIE_LEN \<noteq> 0" using assms(1) by (auto simp: COOKIE_LEN_def)
  have "tcp_recv COOKIE_LEN (?c\<lparr>tcp_read_timeout := timeout\<rparr>) =
      (Inr cookie, ?c\<lparr>tcp_read_timeout := timeout, tcp_rx := tl (tcp_rx ?c)\<rparr>)"
    using c(2) ne assms(1) by (auto simp: tcp_recv_def)
  then have "recv_cookie tcp_recv (?c\<lparr>tcp_read_timeout := timeout\<rparr>) =
      (Inr cookie, ?c\<lparr>tcp_read_timeout := timeout, tcp_rx := tl (tcp_rx ?c)\<rparr>)"
    unfolding recv_cookie_def using ne assms(1)
    by (subst read_exact.simps) (simp add: read_exact.simps [of _ 0])
  then have "accept_stream cookie timeout l = (Inr (after_cookie ?c), \<lambda>i. l (Suc i))"
    using assms(2) c(1)
    by (simp add: accept_stream_def io_bind_def io_then_def listener_accept_def with_socket_def
        tcp_set_read_timeout_def after_cookie_def)
  moreover have "accept_streams cookie timeout (length conns) (\<lambda>i. l (Suc i)) =
      (Inr (map (after_cookie \<circ> fst) conns), \<lambda>i. l (Suc (i + length conns)))"
    using Cons.prems by (intro Cons.IH [of "\<lambda>i. l (Suc i)"]) auto
  ultimately show ?case by (simp add: io_bind_def)
qed simp

section \<open>Properties\<close>

text \<open>
  (C14) The concurrent server runs the same test as the sequential one. Take any reachable state of the
  concurrent server in which the session's thread waits for its streams, and let the connections that a
  sequential session would accept arrive there instead: the accept loop queues them all for that
  session, and if none of them is silent for as long as the handshake deadline, the thread returns the same
  result, writes the same bytes to the control connection, leaves the same replay cache and prints the
  same summary as the sequential session. (Options that ask for both reverse and bidirectional are
  excluded: there the two functions test the flags in different orders, and no client sends them.)
\<close>

theorem channel_session_equivalent:
  assumes thread: "conc_reach mx timeout st" "cc_ended st = None" "t \<in> set (cc_threads st)"
      "sn_phase t = Serving" "sn_cookie t = cookie" "sn_data_rx t = []"
    and conns: "length conns = unat (co_parallel opts)" "\<forall>i<length conns. sv_listener s i = Inr (fst (conns ! i))"
      "\<forall>c\<in>set conns. punctual timeout (tcp_rx (fst c))"
    and admitted: "admit_options env s = (Inr opts, s1)" "\<not> co_udp opts" "\<not> (co_reverse opts \<and> co_bidirectional opts)"
    and accepted: "accept_streams cookie timeout (unat (co_parallel opts)) (sv_listener s) = (Inr ss, l')"
    and run: "session_body env cookie timeout s = (r, s')"
  shows "\<exists>st' s''. accept_rounds mx timeout conns st = Inr st' \<and> conc_reach mx timeout st' \<and>
    serve_session_from_channel env cookie timeout (s\<lparr>sv_data_rx := session_queue cookie st'\<rparr>) = (r, s'') \<and>
    sv_control s'' = sv_control s' \<and> sv_nonces s'' = sv_nonces s' \<and> sv_lines s'' = sv_lines s'"
proof -
  have lively: "\<forall>c\<in>set conns. lively timeout (tcp_rx (fst c))" using conns(3) by (simp add: punctual_def)
  note inv = conc_reach_inv [OF thread(1)]
  have reg: "cookie \<in> set (cc_registry st)" using inv thread(3-5) by (auto simp: conc_inv_def)
  have acc: "accept_streams cookie timeout (length conns) (sv_listener s) = (Inr ss, l')"
    using accepted conns(1) by simp
  from rounds_deliver [OF serving_single [OF inv thread(3,4), unfolded thread(5)] reg acc conns(2), of mx] obtain st' where
    st': "accept_rounds mx timeout conns st = Inr st'" "session_queue cookie st' = map (with_deadline timeout) ss"
    by (auto simp: session_queue_def thread(6))
  have "length (map (with_deadline timeout) ss) = unat (co_parallel opts)"
    using accept_streams_length [OF accepted] by simp
  from channel_session_streams [OF admitted accepted this
      tcp_rest_deadline [OF accept_streams_lively [OF acc conns(2) lively]] run] st'
    accept_rounds_reach [OF thread(1,2) st'(1)]
  show ?thesis by auto
qed

text \<open>
  A concurrent server with one session being served under a deadline of 5, and a data connection whose
  sender pauses for 3 in the middle.
\<close>

definition sample_serving :: conc where
  "sample_serving = sample_conc\<lparr>cc_threads := [session_new sample_cookie 7 (with_deadline (Some 5) (sample_tcp []))]\<rparr>"

definition sample_pausing :: "duration \<Rightarrow> tcp" where
  "sample_pausing d = sample_tcp [RxData sample_cookie, RxData [7, 7], RxIdle d, RxData [7], RxData []]"

definition sample_paused_server :: "duration \<Rightarrow> server" where
  "sample_paused_server d = (sample_server [])\<lparr>sv_listener := \<lambda>_. Inr (sample_pausing d),
     sv_control := sample_tcp [RxData (frame [1] @ message_code TestEnd # frame [2] @ [message_code IperfDone])]\<rparr>"

lemma sample_serving_reach: "conc_reach 2 (Some 5) sample_serving"
proof (rule conc_reach.step [OF conc_reach.init])
  let ?c = "sample_tcp [RxData sample_cookie]"
  have "tcp_recv COOKIE_LEN (?c\<lparr>tcp_read_timeout := Some 5\<rparr>) = (Inr sample_cookie, (sample_tcp [])\<lparr>tcp_read_timeout := Some 5\<rparr>)"
    by (simp add: tcp_recv_def sample_tcp_def sample_cookie_def COOKIE_LEN_def)
  then have "read_exact tcp_recv COOKIE_LEN (?c\<lparr>tcp_read_timeout := Some 5\<rparr>) =
      (Inr sample_cookie, (sample_tcp [])\<lparr>tcp_read_timeout := Some 5\<rparr>)"
    by (subst read_exact.simps) (simp add: read_exact.simps [of _ 0] sample_cookie_def COOKIE_LEN_def)
  from accept_one_same [OF this, of 2 7 conc_init]
  have "accept_round 2 (Some 5) (Inr (?c, 7)) conc_init = Inr (Spawned, sample_serving)"
    by (simp add: accept_round_def route_def conc_init_def sample_serving_def sample_conc_def try_acquire_def
        PER_IP_SESSION_CAP_def with_deadline_def sample_tcp_def)
  then show "conc_step 2 (Some 5) (Accepts (Inr (?c, 7))) conc_init sample_serving"
    by (intro conc_step.accept) (simp_all add: conc_init_def)
qed

lemma sample_paused_control:
  "tcp.chan (frame [1] @ map message_code [] @ message_code TestEnd # frame [2] @ [message_code IperfDone]) []
    (sv_control (sample_paused_server d))"
  by (simp add: sample_paused_server_def sample_tcp_def tcp.chan_def frame_def)

lemma sample_session_checks:
  "validate_options sample_opts = Inr ()" "\<not> co_udp sample_opts" "\<not> co_reverse sample_opts" "\<not> co_bidirectional sample_opts"
  "auth_passes (sample_session_env sample_opts) sample_opts n" "unat (co_parallel sample_opts) = 1"
  by (simp_all add: validate_options_iff auth_passes_def) (simp_all add: sample_opts_def tcp_defaults_def sample_session_env_def)

lemma sample_paused_accept:
  "accept_streams sample_cookie (Some 5) (unat (co_parallel sample_opts)) (sv_listener (sample_paused_server d)) =
     (Inr [after_cookie (sample_pausing d)], \<lambda>i. Inr (sample_pausing d))"
  using accept_streams_chunk [of sample_cookie "Some 5" "[(sample_pausing d, 9)]" "\<lambda>_. Inr (sample_pausing d)"]
  by (simp add: sample_paused_server_def sample_session_checks)
    (simp add: sample_pausing_def sample_tcp_def sample_cookie_def COOKIE_LEN_def)

theorem channel_session_equivalent_witness:
  "\<exists>st' s' s'' n. accept_rounds 2 (Some 5) [(sample_pausing 3, 9)] sample_serving = Inr st' \<and>
    session_body (sample_session_env sample_opts) sample_cookie (Some 5) (sample_paused_server 3) = (Inr (Finished n), s') \<and>
    serve_session_from_channel (sample_session_env sample_opts) sample_cookie (Some 5)
      ((sample_paused_server 3)\<lparr>sv_data_rx := session_queue sample_cookie st'\<rparr>) = (Inr (Finished n), s'') \<and>
    tcp_out (sv_control s'') = tcp_out (sv_control s')"
proof -
  let ?env = "sample_session_env sample_opts" and ?s = "sample_paused_server 3"
  have j: "\<exists>b. enc_results ?env r = Some b \<and> length b < 2 ^ 32" for r by (simp add: sample_decodes)
  have z: "length [1 :: u8] \<le> MAX_JSON_FRAME_LEN" "length [2 :: u8] \<le> MAX_JSON_FRAME_LEN" "Some (5 :: duration) \<noteq> Some 0" "TestEnd \<notin> set []"
    by (simp_all add: MAX_JSON_FRAME_LEN_def)
  note f = forward_sessions [OF sample_paused_control sample_decodes(1,2) j z sample_session_checks(1-5)]
  obtain s1 where adm: "admit_options ?env ?s = (Inr sample_opts, s1)" using f(1) by blast
  obtain n s' where run: "session_body ?env sample_cookie (Some 5) ?s = (Inr (Finished n), s')"
    using f(2) [OF sample_paused_accept] by blast
  let ?t = "session_new sample_cookie 7 (with_deadline (Some 5) (sample_tcp []))"
  have th: "cc_ended sample_serving = None" "?t \<in> set (cc_threads sample_serving)" "sn_phase ?t = Serving"
    "sn_cookie ?t = sample_cookie" "sn_data_rx ?t = []"
    by (simp_all add: sample_serving_def sample_conc_def session_new_def)
  have c: "length [(sample_pausing 3, 9 :: nat)] = unat (co_parallel sample_opts)"
    "\<forall>i<length [(sample_pausing 3, 9 :: nat)]. sv_listener ?s i = Inr (fst ([(sample_pausing 3, 9 :: nat)] ! i))"
    "\<forall>c\<in>set [(sample_pausing 3, 9 :: nat)]. punctual (Some 5) (tcp_rx (fst c))"
    by (simp_all add: punctual_def sample_session_checks sample_paused_server_def sample_pausing_def sample_tcp_def)
  have "\<not> (co_reverse sample_opts \<and> co_bidirectional sample_opts)" using sample_session_checks by simp
  from channel_session_equivalent [OF sample_serving_reach th c adm sample_session_checks(2) this sample_paused_accept run] run
  show ?thesis by metis
qed

end
