(* ===== verification/Server_Contrasts.thy ===== *)
theory Server_Contrasts
  imports Stream_Delivery
begin

text \<open>
  Where the two servers of \<^verbatim>\<open>src/server.rs\<close> part: what a session counts when the sender of a data
  connection pauses for as long as the handshake deadline, and what an error of \<open>accept\<close> does to the server.
\<close>

section \<open>Reading across a pause\<close>

text \<open>A data connection that sends \<open>before\<close>, pauses for \<open>d\<close>, goes on with \<open>rest\<close> and is closed.\<close>

definition pauses :: "bytes list \<Rightarrow> duration \<Rightarrow> rx_event list \<Rightarrow> tcp \<Rightarrow> bool" where
  "pauses before d rest s \<longleftrightarrow>
     tcp_rx s = map RxData before @ RxIdle d # rest \<and> \<not> tcp_nonblocking s \<and> rx_ok rest \<and> rx_closed rest \<and>
     (\<forall>c\<in>set before. c \<noteq> [] \<and> length c \<le> DEFAULT_TCP_LEN)"

lemma recv_stream_before:
  assumes "\<forall>c\<in>set cs. c \<noteq> [] \<and> length c \<le> DEFAULT_TCP_LEN" and "tcp_rx s = map RxData cs @ rx"
  shows "\<exists>j m'. recv_stream_loop om clk i s m = recv_stream_loop om clk j (s\<lparr>tcp_rx := rx\<rparr>) m' \<and>
    rc_bytes (mt_receipt m') = rc_bytes (mt_receipt m) + of_nat (length (concat cs))"
  using assms
proof (induction cs arbitrary: i s m)
  case Nil
  then have "s\<lparr>tcp_rx := rx\<rparr> = s" by simp
  then show ?case by (intro exI [of _ i] exI [of _ m]) simp
next
  case (Cons c cs)
  let ?m = "meter_tick receipt_tick om (length c) (clk i) m" and ?s = "s\<lparr>tcp_rx := map RxData cs @ rx\<rparr>"
  have "recv_stream_loop om clk i s m = recv_stream_loop om clk (i + 1) ?s ?m"
    using Cons.prems by (subst recv_stream_loop.simps) (simp add: tcp_recv_def)
  moreover have "\<exists>j m'. recv_stream_loop om clk (i + 1) ?s ?m = recv_stream_loop om clk j (?s\<lparr>tcp_rx := rx\<rparr>) m' \<and>
      rc_bytes (mt_receipt m') = rc_bytes (mt_receipt ?m) + of_nat (length (concat cs))"
    using Cons.prems by (intro Cons.IH) simp_all
  ultimately obtain j m' where "recv_stream_loop om clk i s m = recv_stream_loop om clk j (s\<lparr>tcp_rx := rx\<rparr>) m'"
    "rc_bytes (mt_receipt m') = rc_bytes (mt_receipt m) + of_nat (length (concat (c # cs)))"
    by (auto simp: server_meter.tick_total add.assoc)
  then show ?case by blast
qed

text \<open>A deadline that the pause reaches ends the reader; without a deadline it goes on.\<close>

lemma reader_cut:
  assumes "pauses before d rest s" and "tcp_read_timeout s = Some tm" and "tm \<le> d"
  shows "rc_bytes (mt_receipt (recv_stream_loop om clk i s m)) = rc_bytes (mt_receipt m) + of_nat (length (concat before))"
proof -
  from recv_stream_before [of before s "RxIdle d # rest" om clk i m] assms(1) obtain j m' where
    j: "recv_stream_loop om clk i s m = recv_stream_loop om clk j (s\<lparr>tcp_rx := RxIdle d # rest\<rparr>) m'"
    "rc_bytes (mt_receipt m') = rc_bytes (mt_receipt m) + of_nat (length (concat before))"
    by (auto simp: pauses_def)
  have "tcp_recv DEFAULT_TCP_LEN (s\<lparr>tcp_rx := RxIdle d # rest\<rparr>) = (Inl WouldBlock, s\<lparr>tcp_rx := RxIdle (d - tm) # rest\<rparr>)"
    using assms by (simp add: tcp_recv_def pauses_def)
  then show ?thesis using j by (simp add: recv_stream_loop.simps [of om clk j])
qed

lemma reader_waits:
  assumes "pauses before d rest s" and "tcp_read_timeout s = None"
  shows "rc_bytes (mt_receipt (recv_stream_loop om clk i s m)) =
    rc_bytes (mt_receipt m) + of_nat (length (concat before) + length (rx_bytes rest))"
proof -
  from recv_stream_before [of before s "RxIdle d # rest" om clk i m] assms(1) obtain j m' where
    j: "recv_stream_loop om clk i s m = recv_stream_loop om clk j (s\<lparr>tcp_rx := RxIdle d # rest\<rparr>) m'"
    "rc_bytes (mt_receipt m') = rc_bytes (mt_receipt m) + of_nat (length (concat before))"
    by (auto simp: pauses_def)
  have "tcp_recv DEFAULT_TCP_LEN (s\<lparr>tcp_rx := RxIdle d # rest\<rparr>) = tcp_recv DEFAULT_TCP_LEN (s\<lparr>tcp_rx := rest\<rparr>)"
    using assms by (simp add: tcp_recv_def pauses_def)
  then have "recv_stream_loop om clk j (s\<lparr>tcp_rx := RxIdle d # rest\<rparr>) m' = recv_stream_loop om clk j (s\<lparr>tcp_rx := rest\<rparr>) m'"
    by (simp add: recv_stream_loop.simps [of om clk j])
  moreover have "rx_ok (tcp_rx (s\<lparr>tcp_rx := rest\<rparr>))" using assms(1) by (simp add: pauses_def)
  ultimately show ?thesis using j recv_stream_loop_bytes [of "s\<lparr>tcp_rx := rest\<rparr>"] by (simp add: add.assoc)
qed

lemma read_receipts_bytes:
  assumes "\<And>i clk rep. i < length ss \<Longrightarrow> rc_bytes (mt_receipt (recv_stream_bytes (from_secs (unat (co_omit opts))) clk
      (snd (tcp_apply_tuning (tuning_of_options opts) (ss ! i))) rep)) = of_nat (f i)"
  shows "sum_list (map rc_bytes (read_receipts env opts ss)) = of_nat (\<Sum>i<length ss. f i)"
proof -
  have "map rc_bytes (read_receipts env opts ss) = map (\<lambda>i. of_nat (f i)) [0..<length ss]"
    by (rule nth_equalityI)
      (simp_all add: read_receipts_def join_stream_totals_def spawn_stream_readers_def tune_streams_def
        nth_enumerate_eq assms)
  then show ?thesis by (simp add: interv_sum_list_conv_sum_set_nat atLeast0LessThan)
qed

lemma tuned_reader:
  assumes "pauses before d rest s"
  shows "tcp_read_timeout s = Some tm \<Longrightarrow> tm \<le> d \<Longrightarrow>
      rc_bytes (mt_receipt (recv_stream_bytes om clk (snd (tcp_apply_tuning tu s)) rep)) = of_nat (length (concat before))"
    and "tcp_read_timeout s = None \<Longrightarrow>
      rc_bytes (mt_receipt (recv_stream_bytes om clk (snd (tcp_apply_tuning tu s)) rep)) =
        of_nat (length (concat before) + length (rx_bytes rest))"
proof -
  let ?s = "snd (tcp_apply_tuning tu s)"
  have p: "pauses before d rest ?s" "tcp_read_timeout ?s = tcp_read_timeout s"
    using assms by (simp_all add: pauses_def tcp_apply_tuning_def)
  show "rc_bytes (mt_receipt (recv_stream_bytes om clk ?s rep)) = of_nat (length (concat before))"
    if "tcp_read_timeout s = Some tm" "tm \<le> d"
    using reader_cut [OF p(1)] p(2) that by (simp add: recv_stream_bytes_def stream_receipt_empty_def)
  show "rc_bytes (mt_receipt (recv_stream_bytes om clk ?s rep)) = of_nat (length (concat before) + length (rx_bytes rest))"
    if "tcp_read_timeout s = None"
    using reader_waits [OF p(1)] p(2) that by (simp add: recv_stream_bytes_def stream_receipt_empty_def)
qed

section \<open>After an error of accept\<close>

text \<open>A concurrent server that is not accepting any more: what is left are sessions of \<open>st0\<close>.\<close>

definition draining :: "io_kind \<Rightarrow> conc \<Rightarrow> conc \<Rightarrow> bool" where
  "draining k st0 st \<longleftrightarrow> cc_ended st = Some k \<and> set (cc_registry st) \<subseteq> set (cc_registry st0) \<and>
     (\<forall>u\<in>set (cc_threads st). \<exists>t\<in>set (cc_threads st0). sn_cookie u = sn_cookie t \<and>
        (\<exists>taken. sn_data_rx t = taken @ sn_data_rx u))"

lemma conc_step_draining:
  assumes "conc_step mx timeout e st st'" and "draining k st0 st"
  shows "draining k st0 st'"
  using assms(1)
proof (cases rule: conc_stepE)
  case (takes xs t ys d q)
  then have "t \<in> set (cc_threads st)" by simp
  with assms(2) obtain t0 taken where "t0 \<in> set (cc_threads st0)" "sn_cookie t = sn_cookie t0" "sn_data_rx t0 = taken @ sn_data_rx t"
    unfolding draining_def by blast
  then have "\<exists>t0\<in>set (cc_threads st0). sn_cookie t = sn_cookie t0 \<and> (\<exists>taken. sn_data_rx t0 = taken @ q)"
    using takes(5) by (intro bexI [of _ t0]) auto
  with assms(2) takes show ?thesis by (auto simp: draining_def)
qed (use assms(2) in \<open>auto simp: draining_def conc_init_def\<close>)

lemma run_server_loop_errors:
  assumes "\<forall>i<length es1. \<exists>k. sv_listener s i = Inl k"
  shows "run_server_loop False timeout (es1 @ es) s =
    run_server_loop False timeout es (s\<lparr>sv_listener := \<lambda>i. sv_listener s (i + length es1)\<rparr>)"
  using assms
proof (induction es1 arbitrary: s)
  case (Cons e es1)
  from Cons.prems obtain k where "sv_listener s 0 = Inl k" by auto
  then have "serve_one_session e timeout s = (Inl k, s\<lparr>sv_listener := \<lambda>i. sv_listener s (Suc i)\<rparr>)"
    by (simp add: serve_one_session_def io_bind_def on_listener_def accept_control_def listener_accept_def)
  with Cons.IH [of "s\<lparr>sv_listener := \<lambda>i. sv_listener s (Suc i)\<rparr>"] Cons.prems show ?case by auto
qed simp

section \<open>Properties\<close>

text \<open>
  (C28) The two servers count differently when a sender pauses. Let the same data connections, each with
  a pause at least as long as the handshake deadline after some of its bytes and closed in the end, be those of a forward TCP test
  on either server. The sequential session, which clears the deadline once it has read the cookie, returns
  every byte. The session of the concurrent server, which is handed its streams with the deadline still
  set, returns only the bytes before the pauses, and neither reports an error.
\<close>

theorem data_stream_deadlines:
  assumes thread: "conc_reach mx (Some tm) st" "cc_ended st = None" "t \<in> set (cc_threads st)"
      "sn_phase t = Serving" "sn_cookie t = cookie" "sn_data_rx t = []"
    and conns: "length conns = unat (co_parallel opts)" "length cookie = COOKIE_LEN"
      "\<forall>i<length conns. sv_listener s i = Inr (fst (conns ! i)) \<and> tm \<le> d i \<and>
        (\<exists>r. tcp_rx (fst (conns ! i)) = RxData cookie # r \<and> pauses (before i) (d i) (rest i) ((fst (conns ! i))\<lparr>tcp_rx := r\<rparr>))"
    and control: "tcp.chan (frame obody @ map message_code ms @ message_code TestEnd # frame cbody @ [message_code IperfDone]) [] (sv_control s)"
    and json: "dec_options env obody = Some opts" "dec_results env cbody = Some res"
      "\<And>r. \<exists>b. enc_results env r = Some b \<and> length b < 2 ^ 32"
    and sizes: "length obody \<le> MAX_JSON_FRAME_LEN" "length cbody \<le> MAX_JSON_FRAME_LEN" "0 < tm" "TestEnd \<notin> set ms"
    and opts: "validate_options opts = Inr ()" "\<not> co_udp opts" "\<not> co_reverse opts" "\<not> co_bidirectional opts"
      "auth_passes env opts (sv_nonces s)"
  shows "\<exists>s' st' s''. session_body env cookie (Some tm) s =
      (Inr (Finished (of_nat (\<Sum>i<length conns. length (concat (before i)) + length (rx_bytes (rest i))))), s') \<and>
    accept_rounds mx (Some tm) conns st = Inr st' \<and>
    serve_session_from_channel env cookie (Some tm) (s\<lparr>sv_data_rx := session_queue cookie st'\<rparr>) =
      (Inr (Finished (of_nat (\<Sum>i<length conns. length (concat (before i))))), s'')"
proof -
  let ?ss = "map (after_cookie \<circ> fst) conns" and ?tm = "Some tm"
  have tm: "?tm \<noteq> Some 0" using sizes(3) by simp
  have acc: "accept_streams cookie ?tm (length conns) (sv_listener s) = (Inr ?ss, \<lambda>i. sv_listener s (i + length conns))"
    by (rule accept_streams_chunk [OF conns(2) tm]) (use conns(3) in blast)
  have p: "pauses (before i) (d i) (rest i) (after_cookie (fst (conns ! i)))" "tm \<le> d i" if "i < length conns" for i
    using conns(3) that by (auto simp: after_cookie_def pauses_def)
  have seq: "sum_list (map rc_bytes (read_receipts env opts ?ss)) =
      of_nat (\<Sum>i<length ?ss. length (concat (before i)) + length (rx_bytes (rest i)))"
    by (rule read_receipts_bytes) (use p(1) in \<open>auto intro!: tuned_reader(2) simp: after_cookie_def simp del: of_nat_add\<close>)
  have "pauses (before i) (d i) (rest i) (with_deadline ?tm (after_cookie (fst (conns ! i))))" if "i < length conns" for i
    using p(1) [OF that] by (simp add: pauses_def)
  then have con: "sum_list (map rc_bytes (read_receipts env opts (map (with_deadline ?tm) ?ss))) =
      of_nat (\<Sum>i<length (map (with_deadline ?tm) ?ss). length (concat (before i)))"
    by (intro read_receipts_bytes) (use p(2) in \<open>auto intro!: tuned_reader(1) simp del: tuned_deadline\<close>)
  note inv = conc_reach_inv [OF thread(1)]
  have reg: "cookie \<in> set (cc_registry st)" using inv thread(3-5) by (auto simp: conc_inv_def)
  have "\<forall>i<length conns. sv_listener s i = Inr (fst (conns ! i))" using conns(3) by blast
  from rounds_deliver [OF serving_single [OF inv thread(3,4), unfolded thread(5)] reg acc this, of mx] obtain st' where
    st': "accept_rounds mx ?tm conns st = Inr st'" "session_queue cookie st' = map (with_deadline ?tm) ?ss"
    by (auto simp: session_queue_def thread(6))
  note f = forward_sessions [OF _ json sizes(1,2) tm sizes(4) opts(1-4)]
  from f(2) [OF control opts(5) acc [unfolded conns(1)]] seq obtain s' where
    s': "session_body env cookie ?tm s = (Inr (Finished (of_nat (\<Sum>i<length conns. length (concat (before i)) + length (rx_bytes (rest i))))), s')"
    by auto
  let ?s = "s\<lparr>sv_data_rx := session_queue cookie st'\<rparr>"
  have "tcp.chan (frame obody @ map message_code ms @ message_code TestEnd # frame cbody @ [message_code IperfDone]) [] (sv_control ?s)"
    "auth_passes env opts (sv_nonces ?s)" "length (sv_data_rx ?s) = unat (co_parallel opts)"
    using control opts(5) st'(2) conns(1) by simp_all
  from f(3) [OF this(1,2,3)] con st'(2) obtain s'' where
    "serve_session_from_channel env cookie ?tm ?s = (Inr (Finished (of_nat (\<Sum>i<length conns. length (concat (before i))))), s'')"
    by auto
  with s' st'(1) show ?thesis by blast
qed

theorem data_stream_deadlines_witness:
  "\<exists>s' st' s''. session_body (sample_session_env sample_opts) sample_cookie (Some 5) (sample_paused_server 6) = (Inr (Finished 3), s') \<and>
    accept_rounds 2 (Some 5) [(sample_pausing 6, 9)] sample_serving = Inr st' \<and>
    serve_session_from_channel (sample_session_env sample_opts) sample_cookie (Some 5)
      ((sample_paused_server 6)\<lparr>sv_data_rx := session_queue sample_cookie st'\<rparr>) = (Inr (Finished 2), s'')"
proof -
  let ?t = "session_new sample_cookie 7 (with_deadline (Some 5) (sample_tcp []))" and ?cs = "[(sample_pausing 6, 9 :: nat)]"
  have th: "cc_ended sample_serving = None" "?t \<in> set (cc_threads sample_serving)" "sn_phase ?t = Serving"
    "sn_cookie ?t = sample_cookie" "sn_data_rx ?t = []"
    by (simp_all add: sample_serving_def sample_conc_def session_new_def)
  have c: "length ?cs = unat (co_parallel sample_opts)" "length sample_cookie = COOKIE_LEN"
    "\<forall>i<length ?cs. sv_listener (sample_paused_server 6) i = Inr (fst (?cs ! i)) \<and> 5 \<le> (6 :: duration) \<and>
        (\<exists>r. tcp_rx (fst (?cs ! i)) = RxData sample_cookie # r \<and>
          pauses [[7, 7]] 6 [RxData [7], RxData []] ((fst (?cs ! i))\<lparr>tcp_rx := r\<rparr>))"
    by (simp_all add: sample_session_checks sample_cookie_def COOKIE_LEN_def sample_paused_server_def sample_pausing_def
        sample_tcp_def pauses_def rx_closed_def DEFAULT_TCP_LEN_def)
  have j: "\<exists>b. enc_results (sample_session_env sample_opts) r = Some b \<and> length b < 2 ^ 32" for r by (simp add: sample_decodes)
  have z: "length [1 :: u8] \<le> MAX_JSON_FRAME_LEN" "length [2 :: u8] \<le> MAX_JSON_FRAME_LEN" "0 < (5 :: duration)" "TestEnd \<notin> set []"
    by (simp_all add: MAX_JSON_FRAME_LEN_def)
  from data_stream_deadlines [OF sample_serving_reach th c sample_paused_control sample_decodes(1,2) j z sample_session_checks(1-5)]
  show ?thesis by simp
qed

text \<open>
  (C29) An error of \<open>accept\<close> is survived by the sequential server that was not asked for one test only: however
  many of them come in a row, it goes on with the first connection after them. The concurrent server
  never accepts again: whatever its threads do afterwards, the loop stays ended with that error, no cookie is
  registered, and every session left is one from before with the part of its queue it has not taken.
\<close>

theorem accept_error_policies:
  assumes "\<forall>i<length es1. \<exists>k. sv_listener s i = Inl k"
    and "conc_step mx timeout (Accepts (Inl k)) st st1" and "(conc_next mx timeout)\<^sup>*\<^sup>* st1 st'"
  shows "run_server_loop False timeout (es1 @ es) s =
      run_server_loop False timeout es (s\<lparr>sv_listener := \<lambda>i. sv_listener s (i + length es1)\<rparr>) \<and>
    cc_ended st' = Some k \<and> (\<forall>a st''. \<not> conc_step mx timeout (Accepts a) st' st'') \<and>
    set (cc_registry st') \<subseteq> set (cc_registry st) \<and>
    (\<forall>u\<in>set (cc_threads st'). \<exists>t\<in>set (cc_threads st). sn_cookie u = sn_cookie t \<and>
       (\<exists>taken. sn_data_rx t = taken @ sn_data_rx u))"
proof -
  from assms(2) have "draining k st st1"
    by (cases rule: conc_acceptE) (auto simp: accept_round_def draining_def)
  with assms(3) have "draining k st st'"
    by (induction rule: rtranclp_induct) (auto simp: conc_next_def intro: conc_step_draining)
  moreover from this have "\<not> conc_step mx timeout (Accepts a) st' st''" for a st''
    by (auto simp: draining_def elim: conc_acceptE)
  ultimately show ?thesis using run_server_loop_errors [OF assms(1)] by (simp add: draining_def)
qed

theorem accept_error_policies_witness:
  "run_server_loop False None [sample_session_env sample_opts] ((sample_server [])\<lparr>sv_listener := \<lambda>_. Inl OtherKind\<rparr>) =
     (Unfinished, (sample_server [])\<lparr>sv_listener := \<lambda>_. Inl OtherKind\<rparr>) \<and>
   (\<forall>a st''. \<not> conc_step 2 None (Accepts a) (sample_conc\<lparr>cc_ended := Some OtherKind\<rparr>) st'')"
proof -
  have "conc_step 2 None (Accepts (Inl OtherKind)) sample_conc (sample_conc\<lparr>cc_ended := Some OtherKind\<rparr>)"
    by (rule conc_step.ends) (simp_all add: sample_conc_def accept_round_def)
  from accept_error_policies [OF _ this rtranclp.rtrancl_refl, where ?es1.0 = "[sample_session_env sample_opts]" and es = "[]"
      and s = "(sample_server [])\<lparr>sv_listener := \<lambda>_. Inl OtherKind\<rparr>"]
  show ?thesis by simp
qed

end
