(* ===== verification/Client.thy ===== *)
theory Client
  imports Server_Protocol
begin

text \<open>
  \<^verbatim>\<open>src/client.rs\<close>, with \<open>Test\<close> of \<^verbatim>\<open>src/common/test.rs\<close>: the client's main loop and its
  handlers.

  The stream threads run on their own (\<open>Streams\<close>); the loop sees them through two channels. One
  round of the loop is a turn, which says what reaches the client meanwhile: bytes on the control
  connection, and receipts and messages of stream threads before the control message is read, before
  the receipts are drained and before the message channel is polled. The lines written to the
  terminal are kept as values; \<open>line_text\<close> of \<open>Report_Text\<close> is their text.
\<close>

section \<open>State\<close>

text \<open>A stream thread the client starts, with the address it connects to and its number.\<close>

datatype stream_job = TcpSend rstr u32 | TcpRecv rstr u32 | UdpSend rstr u32 | UdpRecv rstr u32

record test =
  ts_config :: config
  ts_cookie :: bytes
  ts_control :: "tcp option"
  ts_is_started :: bool
  ts_is_running :: bool
  ts_rx :: "message list"
  ts_receipt_rx :: "client_receipt list"
  ts_receipts :: "client_receipt list"
  ts_cpu_start :: "cpu_snapshot option"
  ts_data_port :: "u16 option"
  ts_jobs :: "stream_job list"
  ts_lines :: "line list"

definition test_new :: "config \<Rightarrow> (nat \<Rightarrow> u8) \<Rightarrow> test" where
  "test_new c sample = \<lparr>ts_config = c, ts_cookie = generate_cookie sample, ts_control = None,
     ts_is_started = False, ts_is_running = False, ts_rx = [], ts_receipt_rx = [], ts_receipts = [],
     ts_cpu_start = None, ts_data_port = None, ts_jobs = [], ts_lines = []\<rparr>"

definition drain_receipts :: "test \<Rightarrow> test" where
  "drain_receipts t = t\<lparr>ts_receipt_rx := [], ts_receipts := ts_receipts t @ ts_receipt_rx t\<rparr>"

definition print_lines :: "line list \<Rightarrow> test \<Rightarrow> test" where
  "print_lines ls t = t\<lparr>ts_lines := ts_lines t @ ls\<rparr>"

section \<open>Environment\<close>

text \<open>
  \<open>ce_parse\<close> and \<open>ce_print\<close> are the JSON text layer, \<open>ce_encrypt\<close>, \<open>ce_b64_encode\<close> and \<open>ce_sha256\<close> the
  cryptographic libraries, \<open>ce_prompt\<close> what the password prompt returns, \<open>ce_cpu\<close> the sample taken at
  the end of the test.
\<close>

record 'k client_env =
  ce_parse :: "bytes \<Rightarrow> json option"
  ce_print :: "json \<Rightarrow> bytes option"
  ce_fs :: file_system
  ce_pkcs8 :: "rstr \<Rightarrow> 'k option"
  ce_pkcs1 :: "rstr \<Rightarrow> 'k option"
  ce_key_size :: "'k \<Rightarrow> nat"
  ce_encrypt :: "'k \<Rightarrow> bytes \<Rightarrow> bytes option"
  ce_b64_encode :: "bytes \<Rightarrow> rstr"
  ce_sha256 :: "bytes \<Rightarrow> bytes"
  ce_prompt :: "rstr io_result"
  ce_wall :: "u64 option"
  ce_sysconf :: i64
  ce_cpu :: cpu_snapshot

section \<open>Options\<close>

definition options_of_config :: "config \<Rightarrow> client_options" where
  "options_of_config c =
     (let udp = is_udp (cf_transport c)
      in (tcp_defaults (cf_time c) (cf_parallel c) (cf_len c))
         \<lparr>co_omit := cf_omit c, co_udp := udp, co_bandwidth := cf_bandwidth c,
          co_tcp := (if udp then False else True),
          co_reverse := is_reverse (cf_direction c),
          co_bidirectional := is_bidirectional (cf_direction c),
          co_window_size := cf_window_size c, co_mss := cf_mss c, co_congestion := cf_congestion c,
          co_tos := cf_tos c, co_total_bytes := cf_total_bytes c, co_total_blocks := cf_total_blocks c\<rparr>)"

text \<open>A key that cannot be loaded or a token that cannot be built is logged, and no token is sent.\<close>

definition client_token :: "'k client_env \<Rightarrow> config \<Rightarrow> rstr option" where
  "client_token env c =
     (case (cf_rsa_public_key c, cf_username c) of
        (Some pk_path, Some user) \<Rightarrow>
          (case load_public_key_pem (ce_pkcs8 env) (ce_pkcs1 env) (ce_key_size env) (ce_fs env) pk_path of
             Inl _ \<Rightarrow> None
           | Inr pubkey \<Rightarrow>
               let password = (case cf_password c of
                     Some p \<Rightarrow> p
                   | None \<Rightarrow> (case ce_prompt env of Inl _ \<Rightarrow> [] | Inr p \<Rightarrow> p))
               in case build_authtoken (ce_sha256 env) (ce_encrypt env pubkey) (ce_b64_encode env)
                         (ce_wall env) user password of
                    Inl _ \<Rightarrow> None
                  | Inr token \<Rightarrow> Some token)
      | _ \<Rightarrow> None)"

definition client_options_sent :: "'k client_env \<Rightarrow> config \<Rightarrow> client_options" where
  "client_options_sent env c = (options_of_config c)\<lparr>co_authtoken := client_token env c\<rparr>"

definition enc_client_options :: "'k client_env \<Rightarrow> client_options \<Rightarrow> bytes option" where
  "enc_client_options env p = ce_print env (JObj (client_options_fields p))"

definition send_options :: "'k client_env \<Rightarrow> test \<Rightarrow> test" where
  "send_options env t =
     (case ts_control t of
        None \<Rightarrow> t
      | Some s \<Rightarrow>
          t\<lparr>ts_control := Some (snd (send_framed_json (enc_client_options env) tcp_send
               (client_options_sent env (ts_config t)) s))\<rparr>)"

section \<open>Streams\<close>

definition stream_count :: "config \<Rightarrow> u32" where
  "stream_count c = max (cf_parallel c) 1"

definition create_streams :: "test \<Rightarrow> test" where
  "create_streams t =
     (let c = ts_config t;
          data_port = (case ts_data_port t of Some p \<Rightarrow> p | None \<Rightarrow> cf_port c);
          data_host = cf_host c @ lit '':'' @ show_word data_port;
          control_host = host_port c;
          udp = is_udp (cf_transport c); dir = cf_direction c
      in t\<lparr>ts_jobs := ts_jobs t @ concat (map (\<lambda>i.
            (if client_sends dir
             then [if udp then UdpSend data_host (of_nat i) else TcpSend control_host (of_nat i)] else []) @
            (if client_receives dir
             then [if udp then UdpRecv data_host (of_nat i) else TcpRecv control_host (of_nat i)] else []))
            [1..<Suc (unat (stream_count c))])\<rparr>)"

section \<open>Results\<close>

definition build_client_results :: "client_receipt list \<Rightarrow> cpu_usage \<Rightarrow> results" where
  "build_client_results receipts cpu =
     \<lparr>re_cpu_util_total = total_pct cpu, re_cpu_util_user = user_pct cpu,
      re_cpu_util_system = system_pct cpu,
      re_sender_has_retransmits = (if list_ex (\<lambda>r. 0 < cr_retransmits r) receipts then 1 else 0),
      re_streams = map (\<lambda>r. \<lparr>sr_id = cr_stream_id r, sr_bytes = cr_bytes_sent r,
        sr_retransmits = ucast (cr_retransmits r), sr_jitter = cr_jitter_ms r, sr_errors = cr_lost r,
        sr_packets = cr_packets r\<rparr>) receipts\<rparr>"

definition client_session_duration :: "client_receipt list \<Rightarrow> duration option" where
  "client_session_duration receipts =
     (case (min_of cr_first_send_at receipts, max_of cr_last_send_at receipts) of
        (Some f, Some l) \<Rightarrow> if f \<le> l then Some (l - f) else None
      | _ \<Rightarrow> None)"

definition client_measured_duration :: "client_receipt list \<Rightarrow> duration" where
  "client_measured_duration receipts =
     span (min_of cr_first_measured_at receipts) (max_of cr_last_send_at receipts)"

definition session_or_zero :: "client_receipt list \<Rightarrow> duration" where
  "session_or_zero receipts = (case client_session_duration receipts of None \<Rightarrow> 0 | Some d \<Rightarrow> d)"

definition client_cpu :: "'k client_env \<Rightarrow> test \<Rightarrow> cpu_usage" where
  "client_cpu env t =
     (case ts_cpu_start t of
        None \<Rightarrow> cpu_usage_ZERO
      | Some start \<Rightarrow> cpu_usage_between (ce_sysconf env) start (ce_cpu env) (session_or_zero (ts_receipts t)))"

text \<open>The bytes and the duration of the sender's summary.\<close>

definition sender_summary :: "config \<Rightarrow> client_receipt list \<Rightarrow> u64 \<times> duration" where
  "sender_summary c receipts =
     (let steady = client_measured_duration receipts
      in if 0 < cf_omit c \<and> steady \<noteq> 0 then (sum_list (map client_bytes_measured receipts), steady)
         else (sum_list (map cr_bytes_sent receipts), session_or_zero receipts))"

definition json_report :: "config \<Rightarrow> u64 \<Rightarrow> u64 \<Rightarrow> f64 \<Rightarrow> json_output" where
  "json_report c sender_bytes server_bytes secs =
     \<lparr>jo_start = \<lparr>js_connecting_to = Some \<lparr>jc_host = cf_host c, jc_port = cf_port c\<rparr>,
        js_test_start = \<lparr>jt_protocol = (if is_udp (cf_transport c) then lit ''UDP'' else lit ''TCP''),
          jt_num_streams = cf_parallel c, jt_blksize = cf_len c, jt_duration = cf_time c,
          jt_reverse = of_bool (is_reverse (cf_direction c)),
          jt_bidir = of_bool (is_bidirectional (cf_direction c))\<rparr>\<rparr>,
      jo_end = \<lparr>je_sum_sent = json_sum_new sender_bytes secs, je_sum_received = json_sum_new server_bytes secs\<rparr>\<rparr>"

definition client_role :: "direction \<Rightarrow> role" where
  "client_role d = (if is_bidirectional d then Sender else if is_reverse d then Receiver else Sender)"

definition server_role :: "direction \<Rightarrow> role" where
  "server_role d = (if is_bidirectional d then Receiver else if is_reverse d then Sender else Receiver)"

text \<open>What is printed once the server's results have arrived.\<close>

definition report_lines :: "'k client_env \<Rightarrow> test \<Rightarrow> results \<Rightarrow> line list" where
  "report_lines env t server =
     (let c = ts_config t; server_bytes = sum_list (map sr_bytes (re_streams server));
          (sender_bytes, sender_duration) = sender_summary c (ts_receipts t);
          secs = as_secs_f64 sender_duration;
          retransmits = sum_list (map (\<lambda>r. ucast (cr_retransmits r)) (ts_receipts t));
          cpu = client_cpu env t
      in if cf_json c then [JsonReport (json_report c sender_bytes server_bytes secs)]
         else [SummaryRow secs server_bytes (server_role (cf_direction c))] @
              (if 0 < retransmits then [RetransmitsLine retransmits] else []) @
              (if 0 < total_pct cpu then [CpuLine cpu] else []))"

definition enc_client_results :: "'k client_env \<Rightarrow> results \<Rightarrow> bytes option" where
  "enc_client_results env r = ce_print env (JObj (results_fields r))"

definition dec_server_results :: "'k client_env \<Rightarrow> bytes \<Rightarrow> results option" where
  "dec_server_results env b = Option.bind (ce_parse env b) results_of_json"

definition summary_lines :: "test \<Rightarrow> line list" where
  "summary_lines t =
     (let c = ts_config t; (sender_bytes, sender_duration) = sender_summary c (ts_receipts t)
      in if cf_json c then []
         else [SummarySeparator, IntervalHeader,
               SummaryRow (as_secs_f64 sender_duration) sender_bytes (client_role (cf_direction c))])"

text \<open>Sends the results of the client and reads those of the server, in blocking mode.\<close>

definition swap_results :: "'k client_env \<Rightarrow> results \<Rightarrow> (tcp, results) io" where
  "swap_results env r =
     io_then (send_framed_json (enc_client_results env) tcp_send r)
     (io_then (tcp_set_nonblocking False)
     (io_bind (io_try (recv_framed_json (dec_server_results env) tcp_recv)) (\<lambda>res.
      io_then (io_ignore (tcp_set_nonblocking True)) (\<lambda>s. (res, s)))))"

definition client_exchange_results :: "'k client_env \<Rightarrow> test \<Rightarrow> test" where
  "client_exchange_results env t0 =
     (let t = drain_receipts t0; t1 = print_lines (summary_lines t) t
      in case ts_control t1 of
           None \<Rightarrow> t1
         | Some s \<Rightarrow>
             (case swap_results env (build_client_results (ts_receipts t) (client_cpu env t)) s of
                (Inl _, s') \<Rightarrow> t1\<lparr>ts_control := Some s'\<rparr>
              | (Inr server, s') \<Rightarrow> print_lines (report_lines env t server) (t1\<lparr>ts_control := Some s'\<rparr>)))"

section \<open>Messages\<close>

definition send_iperf_done :: "test \<Rightarrow> test" where
  "send_iperf_done t =
     (case ts_control t of
        None \<Rightarrow> t
      | Some s \<Rightarrow> t\<lparr>ts_control := Some (snd (send_control_byte tcp_send IperfDone s))\<rparr>)"

definition set_data_port :: "test \<Rightarrow> test" where
  "set_data_port t =
     (case ts_control t of
        None \<Rightarrow> t
      | Some s \<Rightarrow>
          let s1 = snd (tcp_set_nonblocking False s); (result, s2) = recv_u16_be tcp_recv s1;
              s3 = snd (tcp_set_nonblocking True s2)
          in case result of
               Inr port \<Rightarrow> t\<lparr>ts_control := Some s3, ts_data_port := Some port\<rparr>
             | Inl _ \<Rightarrow> t\<lparr>ts_control := Some s3\<rparr>)"

fun handle_message_client :: "'k client_env \<Rightarrow> message \<Rightarrow> test \<Rightarrow> bool \<times> test" where
  "handle_message_client env ParamExchange t = (False, send_options env t)"
| "handle_message_client env CreateStreams t = (False, create_streams t)"
| "handle_message_client env TestStart t = (False, t\<lparr>ts_is_started := True\<rparr>)"
| "handle_message_client env TestRunning t =
     (False, print_lines (if cf_json (ts_config t) then [] else [IntervalHeader]) (t\<lparr>ts_is_running := True\<rparr>))"
| "handle_message_client env ExchangeResults t = (False, client_exchange_results env t)"
| "handle_message_client env DisplayResults t = (True, send_iperf_done t)"
| "handle_message_client env IperfDone t = (True, t)"
| "handle_message_client env AccessDenied t = (True, t)"
| "handle_message_client env SetDataPort t = (False, set_data_port t)"
| "handle_message_client env _ t = (False, t)"

text \<open>A failed read is logged and the loop goes on; only a missing connection ends it.\<close>

definition client_recv :: "'k client_env \<Rightarrow> test \<Rightarrow> bool \<times> test" where
  "client_recv env t =
     (case ts_control t of
        None \<Rightarrow> (True, t)
      | Some s \<Rightarrow>
          (case recv_control_byte tcp_recv s of
             (Inr m, s') \<Rightarrow> handle_message_client env m (t\<lparr>ts_control := Some s'\<rparr>)
           | (Inl _, s') \<Rightarrow> (False, t\<lparr>ts_control := Some s'\<rparr>)))"

section \<open>The loop\<close>

type_synonym arrivals = "client_receipt list \<times> message list"

definition arrive :: "arrivals \<Rightarrow> test \<Rightarrow> test" where
  "arrive a t = t\<lparr>ts_receipt_rx := ts_receipt_rx t @ fst a, ts_rx := ts_rx t @ snd a\<rparr>"

definition net_arrive :: "rx_event list \<Rightarrow> test \<Rightarrow> test" where
  "net_arrive es t = t\<lparr>ts_control := map_option (\<lambda>s. s\<lparr>tcp_rx := tcp_rx s @ es\<rparr>) (ts_control t)\<rparr>"

record 'k client_turn =
  ct_env :: "'k client_env"
  ct_net :: "rx_event list"
  ct_pre :: arrivals
  ct_mid :: arrivals
  ct_post :: arrivals

text \<open>The number of streams whose end the loop waits for; the product is on 32-bit integers.\<close>

definition expected_streams :: "config \<Rightarrow> u32" where
  "expected_streams c = stream_count c * (if is_bidirectional (cf_direction c) then 2 else 1)"

record client_state =
  cs_test :: test
  cs_finished :: u32
  cs_test_end_sent :: bool

text \<open>The second half of a round: one message of a stream thread, if there is one.\<close>

definition poll_streams :: "client_state \<Rightarrow> client_state" where
  "poll_streams st =
     (case ts_rx (cs_test st) of
        [] \<Rightarrow> st
      | m # ms \<Rightarrow>
          let t = (cs_test st)\<lparr>ts_rx := ms\<rparr>; st1 = st\<lparr>cs_test := t\<rparr>
          in if m \<noteq> TestEnd then st1
             else
               let n = cs_finished st + 1; st2 = st1\<lparr>cs_finished := n\<rparr>
               in if expected_streams (ts_config t) \<le> n \<and> \<not> cs_test_end_sent st
                  then case ts_control t of
                         None \<Rightarrow> st2
                       | Some s \<Rightarrow>
                           st2\<lparr>cs_test := t\<lparr>ts_control := Some (snd (send_control_byte tcp_send TestEnd s))\<rparr>,
                               cs_test_end_sent := True\<rparr>
                  else st2)"

text \<open>One round: \<open>True\<close> when the loop is left, after its final drain.\<close>

definition client_round :: "'k client_turn \<Rightarrow> client_state \<Rightarrow> bool \<times> client_state" where
  "client_round ct st =
     (let t0 = arrive (ct_pre ct) (net_arrive (ct_net ct) (cs_test st));
          (done', t1) = client_recv (ct_env ct) t0;
          t2 = drain_receipts (arrive (ct_mid ct) t1)
      in if done' then (True, st\<lparr>cs_test := t2\<rparr>)
         else (False, poll_streams (st\<lparr>cs_test := arrive (ct_post ct) t2\<rparr>)))"

fun client_rounds :: "'k client_turn list \<Rightarrow> client_state \<Rightarrow> bool \<times> client_state" where
  "client_rounds [] st = (False, st)"
| "client_rounds (ct # cts) st =
     (case client_round ct st of
        (True, st') \<Rightarrow> (True, st')
      | (False, st') \<Rightarrow> client_rounds cts st')"

definition client_loop :: "'k client_turn list \<Rightarrow> test \<Rightarrow> test run" where
  "client_loop cts t =
     (case client_rounds cts \<lparr>cs_test = t, cs_finished = 0, cs_test_end_sent = False\<rparr> of
        (True, st) \<Rightarrow> Finished (cs_test st)
      | (False, st) \<Rightarrow> Unfinished)"

text \<open>\<open>conn\<close> is the outcome of the connection attempt, \<open>start\<close> the processor sample after it.\<close>

definition run_client ::
  "config \<Rightarrow> (nat \<Rightarrow> u8) \<Rightarrow> tcp io_result \<Rightarrow> cpu_snapshot \<Rightarrow> 'k client_turn list \<Rightarrow> test run" where
  "run_client c sample conn start cts =
     (let t = test_new c sample;
          t1 = print_lines (if cf_json c then [] else [ConnectingTo (cf_host c) (cf_port c)]) t;
          t2 = t1\<lparr>ts_control := connect conn (ts_cookie t1), ts_cpu_start := Some start\<rparr>
      in case client_loop cts t2 of
           Unfinished \<Rightarrow> Unfinished
         | Panicked \<Rightarrow> Panicked
         | Finished t3 \<Rightarrow> Finished (print_lines (if cf_json c then [] else [DoneLine]) t3))"

end
