(* ===== verification/Client_Properties.thy ===== *)
theory Client_Properties
  imports Client "HOL-Library.Sublist"
begin

text \<open>
  Properties of the client's loop: what it writes to the control connection over an arbitrary run,
  that it completes a test, and when it does not end.
\<close>

section \<open>What the client writes\<close>

text \<open>
  The client writes four kinds of things. A payload that cannot be encoded, or whose length does
  not fit the length field, is not sent.
\<close>

datatype client_send = SentOptions client_options | SentResults results | SentTestEnd | SentDone

definition framed :: "bytes option \<Rightarrow> bytes" where
  "framed b = (case b of None \<Rightarrow> [] | Some x \<Rightarrow> if 2 ^ 32 \<le> length x then [] else frame x)"

fun sent_bytes :: "(json \<Rightarrow> bytes option) \<Rightarrow> client_send \<Rightarrow> bytes" where
  "sent_bytes pr (SentOptions p) = framed (pr (JObj (client_options_fields p)))"
| "sent_bytes pr (SentResults r) = framed (pr (JObj (results_fields r)))"
| "sent_bytes pr SentTestEnd = [message_code TestEnd]"
| "sent_bytes pr SentDone = [message_code IperfDone]"

text \<open>
  The control connection took an initial part of the bytes \<open>w\<close>, and all of them if the kernel takes what it
  is given, as it then goes on to do.
\<close>

definition wrote :: "bytes \<Rightarrow> tcp \<Rightarrow> tcp \<Rightarrow> bool" where
  "wrote w s s' \<longleftrightarrow>
     (\<exists>p. tcp_out s' = tcp_out s @ p \<and> prefix p w \<and> (tx_ok (tcp_tx s) \<longrightarrow> p = w \<and> tx_ok (tcp_tx s')))"

lemma wrote_nothingI: "tcp_out s' = tcp_out s \<Longrightarrow> tx_ok (tcp_tx s') = tx_ok (tcp_tx s) \<Longrightarrow> wrote [] s s'"
  by (simp add: wrote_def)

lemma wrote_then_nothing: "wrote w s s1 \<Longrightarrow> wrote [] s1 s2 \<Longrightarrow> wrote w s s2"
  by (auto simp: wrote_def)

lemma wrote_framed:
  assumes "send_framed_json enc tcp_send v s = (r, s')"
  shows "wrote (framed (enc v)) s s'"
proof (cases "\<exists>b. enc v = Some b \<and> length b < 2 ^ 32")
  case True
  then obtain b where b: "enc v = Some b" "length b < 2 ^ 32" by blast
  let ?l = "u32_to_be_bytes (of_nat (length b))"
  obtain x s1 where x: "write_all tcp_send ?l s = (x, s1)" by fastforce
  obtain p q where p: "?l = p @ q" "tcp_out s1 = tcp_out s @ p" "\<not> isl x \<longrightarrow> q = []"
    using tcp_write_all_part [OF x] by blast
  have "\<exists>p. tcp_out s' = tcp_out s @ p \<and> prefix p (frame b)"
  proof (cases x)
    case (Inl k)
    with assms b x have "s' = s1" by (simp add: send_framed_json_def io_then_Inl)
    moreover have "prefix p (frame b)" by (simp add: frame_def p(1))
    ultimately show ?thesis using p(2) by auto
  next
    case (Inr u)
    with assms b x have "write_all tcp_send b s1 = (r, s')" by (simp add: send_framed_json_def io_then_Inr)
    from tcp_write_all_part [OF this] obtain p' q' where "b = p' @ q'" "tcp_out s' = tcp_out s1 @ p'" by blast
    with p Inr show ?thesis by (intro exI [of _ "p @ p'"]) (simp add: frame_def)
  qed
  moreover have "tcp_out s' = tcp_out s @ frame b \<and> tx_ok (tcp_tx s')" if "tx_ok (tcp_tx s)"
    using tcp.send_framed_ok [of enc, OF b that] assms by auto
  ultimately show ?thesis using b by (auto simp: wrote_def framed_def)
next
  case False
  then have "s' = s \<and> framed (enc v) = []"
    using assms by (cases "enc v") (auto simp: send_framed_json_def framed_def)
  then show ?thesis by (simp add: wrote_def)
qed

lemma wrote_control_byte:
  assumes "send_control_byte tcp_send m s = (r, s')"
  shows "wrote [message_code m] s s'"
proof -
  obtain p q where p: "[message_code m] = p @ q" "tcp_out s' = tcp_out s @ p"
    using tcp_write_all_part assms unfolding send_control_byte_def by blast
  then have "prefix p [message_code m]" by (simp only: prefixI)
  moreover have "tcp_out s' = tcp_out s @ [message_code m] \<and> tx_ok (tcp_tx s')" if "tx_ok (tcp_tx s)"
    using tcp.write_all_ok [OF that, of "[message_code m]"] assms by (auto simp: send_control_byte_def)
  ultimately show ?thesis unfolding wrote_def using p(2) by (metis same_append_eq)
qed

lemma wrote_nothing_read:
  assumes "read_exact tcp_recv n s = (r, s')"
  shows "wrote [] s s'"
  using tcp.read_exact_frame [OF assms] by (auto intro: wrote_nothingI)

lemma wrote_nothing_recv:
  assumes "recv_control_byte tcp_recv s = (r, s')"
  shows "wrote [] s s'"
proof -
  obtain q s1 where q: "read_exact tcp_recv 1 s = (q, s1)" by fastforce
  with assms have "s' = s1"
    by (auto simp: recv_control_byte_def io_bind_def split: sum.splits option.splits)
  with wrote_nothing_read [OF q] show ?thesis by simp
qed

lemma wrote_nothing_u16:
  assumes "recv_u16_be tcp_recv s = (r, s')"
  shows "wrote [] s s'"
proof -
  obtain q s1 where q: "read_exact tcp_recv 2 s = (q, s1)" by fastforce
  with assms have "s' = s1"
    by (auto simp: recv_u16_be_def io_bind_def split: sum.splits)
  with wrote_nothing_read [OF q] show ?thesis by simp
qed

lemma wrote_nothing_framed:
  assumes "recv_framed_json dec' tcp_recv s = (r, s')"
  shows "wrote [] s s'"
  using tcp.recv_framed_frame [OF assms] by (auto intro: wrote_nothingI)

lemma wrote_set_nonblocking [simp]:
  "wrote w (s\<lparr>tcp_nonblocking := b\<rparr>) s' = wrote w s s'"
  "wrote w s (s'\<lparr>tcp_nonblocking := b\<rparr>) = wrote w s s'"
  by (simp_all add: wrote_def)

lemma wrote_swap_results:
  assumes "swap_results env r s = (q, s')"
  shows "wrote (framed (ce_print env (JObj (results_fields r)))) s s'"
proof -
  obtain x s1 where x: "send_framed_json (enc_client_results env) tcp_send r s = (x, s1)" by fastforce
  from wrote_framed [OF x]
  have w: "wrote (framed (ce_print env (JObj (results_fields r)))) s s1" by (simp add: enc_client_results_def)
  show ?thesis
  proof (cases x)
    case (Inl k)
    with x assms w show ?thesis by (simp add: swap_results_def io_then_Inl)
  next
    case (Inr u)
    let ?s2 = "s1\<lparr>tcp_nonblocking := False\<rparr>"
    obtain y s3 where y: "recv_framed_json (dec_server_results env) tcp_recv ?s2 = (y, s3)" by fastforce
    from wrote_nothing_framed [OF y] have "wrote [] s1 s3" by simp
    with w have "wrote (framed (ce_print env (JObj (results_fields r)))) s s3" by (rule wrote_then_nothing)
    moreover have "s' = s3\<lparr>tcp_nonblocking := True\<rparr>"
      using x Inr y assms
      by (simp add: swap_results_def io_then_def io_bind_def io_try_def io_ignore_def tcp_set_nonblocking_def)
    ultimately show ?thesis by simp
  qed
qed

section \<open>One round\<close>

definition connected :: "test \<Rightarrow> bool" where
  "connected t \<longleftrightarrow> (\<exists>s. ts_control t = Some s)"

text \<open>
  The client tried to send \<open>evs\<close>, of each of which an initial part went out, and everything on a connection
  whose writes the kernel takes.
\<close>

definition says :: "(json \<Rightarrow> bytes option) \<Rightarrow> client_send list \<Rightarrow> test \<Rightarrow> test \<Rightarrow> bool" where
  "says pr evs t t' \<longleftrightarrow> (\<exists>s s' ps. ts_control t = Some s \<and> ts_control t' = Some s' \<and>
     tcp_out s' = tcp_out s @ concat ps \<and> list_all2 (\<lambda>p e. prefix p (sent_bytes pr e)) ps evs \<and>
     (tx_ok (tcp_tx s) \<longrightarrow> ps = map (sent_bytes pr) evs \<and> tx_ok (tcp_tx s')))"

lemma says_one:
  assumes "ts_control t = Some s" and "ts_control t' = Some s'" and "wrote (sent_bytes pr e) s s'"
  shows "says pr [e] t t'"
proof -
  from assms(3) obtain p where "tcp_out s' = tcp_out s @ p" "prefix p (sent_bytes pr e)"
    "tx_ok (tcp_tx s) \<longrightarrow> p = sent_bytes pr e \<and> tx_ok (tcp_tx s')" by (auto simp: wrote_def)
  with assms(1,2) show ?thesis unfolding says_def by (intro exI [of _ s] exI [of _ s'] exI [of _ "[p]"]) simp
qed

lemma says_none: "ts_control t = Some s \<Longrightarrow> ts_control t' = Some s' \<Longrightarrow> wrote [] s s' \<Longrightarrow> says pr [] t t'"
  by (auto simp: says_def wrote_def)

text \<open>How a handler leaves the rest of the test: same configuration, same pending messages.\<close>

definition keeps :: "test \<Rightarrow> test \<Rightarrow> bool" where
  "keeps t t' \<longleftrightarrow> ts_config t' = ts_config t \<and> ts_rx t' = ts_rx t"

text \<open>What a handler may send in answer to one message; \<open>d\<close> says that it ends the loop.\<close>

definition reply :: "'k client_env \<Rightarrow> config \<Rightarrow> bool \<Rightarrow> client_send list \<Rightarrow> bool" where
  "reply env c d evs \<longleftrightarrow> evs = [] \<or> evs = [SentOptions (client_options_sent env c)] \<or>
     (\<exists>r. evs = [SentResults r]) \<or> d \<and> evs = [SentDone]"

lemma connected_print_lines [simp]: "connected (print_lines ls t) = connected t"
  and connected_drain [simp]: "connected (drain_receipts t) = connected t"
  and connected_arrive [simp]: "connected (arrive a t) = connected t"
  and connected_net_arrive [simp]: "connected (net_arrive es t) = connected t"
  by (auto simp: connected_def print_lines_def drain_receipts_def arrive_def net_arrive_def)

lemma says_print_lines [simp]: "says pr evs t (print_lines ls t') = says pr evs t t'"
  and says_drain [simp]: "says pr evs t (drain_receipts t') = says pr evs t t'"
  and says_arrive [simp]: "says pr evs t (arrive a t') = says pr evs t t'"
  and says_from_drain [simp]: "says pr evs (drain_receipts t) t' = says pr evs t t'"
  by (simp_all add: says_def print_lines_def drain_receipts_def arrive_def)

lemma says_from_net [simp]: "says pr evs (arrive a (net_arrive es t)) t' = says pr evs t t'"
  by (auto simp: says_def arrive_def net_arrive_def)

lemma config_arrive [simp]: "ts_config (arrive a t) = ts_config t" "ts_config (net_arrive es t) = ts_config t"
  by (simp_all add: arrive_def net_arrive_def)

lemma says_connected: "says pr evs t t' \<Longrightarrow> connected t'"
  by (auto simp: says_def connected_def)

lemma says_Nil: "connected t \<Longrightarrow> ts_control t' = ts_control t \<Longrightarrow> says pr [] t t'"
  by (auto simp: says_def connected_def)

lemma says_trans: "says pr evs t t1 \<Longrightarrow> says pr evs' t1 t2 \<Longrightarrow> says pr (evs @ evs') t t2"
proof -
  assume a: "says pr evs t t1" "says pr evs' t1 t2"
  then obtain s s1 s2 ps ps' where "ts_control t = Some s" "ts_control t1 = Some s1" "ts_control t2 = Some s2"
    "tcp_out s1 = tcp_out s @ concat ps" "tcp_out s2 = tcp_out s1 @ concat ps'"
    "list_all2 (\<lambda>p e. prefix p (sent_bytes pr e)) ps evs" "list_all2 (\<lambda>p e. prefix p (sent_bytes pr e)) ps' evs'"
    "tx_ok (tcp_tx s) \<longrightarrow> ps = map (sent_bytes pr) evs \<and> tx_ok (tcp_tx s1)"
    "tx_ok (tcp_tx s1) \<longrightarrow> ps' = map (sent_bytes pr) evs' \<and> tx_ok (tcp_tx s2)"
    by (auto simp: says_def)
  then show ?thesis unfolding says_def
    by (intro exI [of _ s] exI [of _ s2] exI [of _ "ps @ ps'"]) (simp add: list_all2_appendI)
qed

lemma keeps_print_lines [simp]: "keeps t (print_lines ls t') = keeps t t'"
  by (simp add: keeps_def print_lines_def)

lemma send_options_says:
  assumes "connected t"
  shows "says (ce_print env) [SentOptions (client_options_sent env (ts_config t))] t (send_options env t) \<and>
    keeps t (send_options env t)"
proof -
  from assms obtain s where s: "ts_control t = Some s" by (auto simp: connected_def)
  obtain r s' where r: "send_framed_json (enc_client_options env) tcp_send
      (client_options_sent env (ts_config t)) s = (r, s')" by fastforce
  from wrote_framed [OF r] show ?thesis
    by (auto simp: send_options_def s r keeps_def enc_client_options_def intro!: says_one [OF s])
qed

lemma exchange_results_says:
  assumes "connected t"
  shows "\<exists>r. says (ce_print env) [SentResults r] t (client_exchange_results env t) \<and>
    keeps t (client_exchange_results env t)"
proof -
  let ?t = "drain_receipts t"
  let ?r = "build_client_results (ts_receipts ?t) (client_cpu env ?t)"
  from assms obtain s where s: "ts_control t = Some s" by (auto simp: connected_def)
  obtain q s' where q: "swap_results env ?r s = (q, s')" by fastforce
  from wrote_swap_results [OF q]
  have w: "wrote (framed (ce_print env (JObj (results_fields ?r)))) s s'" .
  have c: "ts_control (print_lines ls ?t) = Some s" for ls
    by (simp add: print_lines_def drain_receipts_def s(1))
  have "\<exists>ls. client_exchange_results env t = print_lines ls (?t\<lparr>ts_control := Some s'\<rparr>)"
  proof (cases q)
    case (Inl k)
    then show ?thesis
      by (intro exI [of _ "summary_lines ?t"])
        (simp add: client_exchange_results_def Let_def c q, simp add: print_lines_def)
  next
    case (Inr server)
    then show ?thesis
      by (intro exI [of _ "summary_lines ?t @ report_lines env ?t server"])
        (simp add: client_exchange_results_def Let_def c q, simp add: print_lines_def)
  qed
  then obtain ls where "client_exchange_results env t = print_lines ls (?t\<lparr>ts_control := Some s'\<rparr>)" ..
  with w show ?thesis
    by (auto simp: keeps_def drain_receipts_def print_lines_def intro!: exI [of _ ?r] says_one [OF s])
qed

lemma send_iperf_done_says:
  assumes "connected t"
  shows "says pr [SentDone] t (send_iperf_done t) \<and> keeps t (send_iperf_done t)"
proof -
  from assms obtain s where s: "ts_control t = Some s" by (auto simp: connected_def)
  obtain r s' where r: "send_control_byte tcp_send IperfDone s = (r, s')" by fastforce
  from wrote_control_byte [OF r] show ?thesis
    by (auto simp: send_iperf_done_def s r keeps_def simp del: message_code.simps intro!: says_one [OF s])
qed

lemma set_data_port_says:
  assumes "connected t"
  shows "says pr [] t (set_data_port t) \<and> keeps t (set_data_port t)"
proof -
  from assms obtain s where s: "ts_control t = Some s" by (auto simp: connected_def)
  obtain r s' where r: "recv_u16_be tcp_recv (s\<lparr>tcp_nonblocking := False\<rparr>) = (r, s')" by fastforce
  from wrote_nothing_u16 [OF r] show ?thesis
    by (cases r) (auto simp: set_data_port_def s r keeps_def tcp_set_nonblocking_def Let_def intro!: says_none [OF s])
qed

lemma handle_message_says:
  assumes "connected t" and "handle_message_client env m t = (d, t')"
  shows "\<exists>evs. says (ce_print env) evs t t' \<and> keeps t t' \<and> reply env (ts_config t) d evs"
proof -
  consider "m = ParamExchange" | "m = ExchangeResults" | "m = DisplayResults" | "m = SetDataPort"
    | "ts_control t' = ts_control t \<and> keeps t t'"
    using assms(2) by (cases m) (auto simp: keeps_def create_streams_def print_lines_def Let_def)
  then show ?thesis
  proof cases
    case 1
    with assms send_options_says [OF assms(1), of env] show ?thesis by (auto simp: reply_def)
  next
    case 2
    with assms exchange_results_says [OF assms(1), of env] show ?thesis by (auto simp: reply_def)
  next
    case 3
    with assms send_iperf_done_says [OF assms(1), of "ce_print env"] show ?thesis by (auto simp: reply_def)
  next
    case 4
    with assms set_data_port_says [OF assms(1), of "ce_print env"] show ?thesis by (auto simp: reply_def)
  next
    case 5
    with says_Nil [OF assms(1)] show ?thesis by (auto simp: reply_def)
  qed
qed

lemma client_recv_says:
  assumes "connected t" and "client_recv env t = (d, t')"
  shows "\<exists>evs. says (ce_print env) evs t t' \<and> keeps t t' \<and> reply env (ts_config t) d evs"
proof -
  from assms(1) obtain s where s: "ts_control t = Some s" by (auto simp: connected_def)
  obtain r s' where r: "recv_control_byte tcp_recv s = (r, s')" by fastforce
  let ?t = "t\<lparr>ts_control := Some s'\<rparr>"
  from wrote_nothing_recv [OF r] have w: "says (ce_print env) [] t ?t" "connected ?t"
    by (auto simp: connected_def intro!: says_none [OF s])
  show ?thesis
  proof (cases r)
    case (Inl k)
    with assms(2) s r w(1) show ?thesis by (auto simp: client_recv_def keeps_def reply_def)
  next
    case (Inr m)
    with assms(2) s r have "handle_message_client env m ?t = (d, t')" by (simp add: client_recv_def)
    from handle_message_says [OF w(2) this] says_trans [OF w(1)] show ?thesis
      by (fastforce simp: keeps_def)
  qed
qed

text \<open>The stream threads' messages of some rounds, and how many of them report a finished stream.\<close>

definition turn_messages :: "'k client_turn \<Rightarrow> message list" where
  "turn_messages ct = snd (ct_pre ct) @ snd (ct_mid ct) @ snd (ct_post ct)"

definition stream_messages :: "'k client_turn list \<Rightarrow> message list" where
  "stream_messages cts = concat (map turn_messages cts)"

abbreviation ends :: "message list \<Rightarrow> nat" where
  "ends ms \<equiv> count_list ms TestEnd"

text \<open>
  The part of a round or a run that concerns the end of the test: \<open>k\<close> reports are counted, and
  \<open>TestEnd\<close> is among the things sent only when the flag says so and enough streams have finished.
\<close>

definition counted :: "client_state \<Rightarrow> nat \<Rightarrow> client_send list \<Rightarrow> client_state \<Rightarrow> bool" where
  "counted st k evs st' \<longleftrightarrow>
     ts_config (cs_test st') = ts_config (cs_test st) \<and>
     cs_finished st' = cs_finished st + of_nat k \<and>
     count_list evs SentTestEnd = of_bool (\<not> cs_test_end_sent st \<and> cs_test_end_sent st') \<and>
     (cs_test_end_sent st \<longrightarrow> cs_test_end_sent st') \<and>
     (SentTestEnd \<in> set evs \<longrightarrow>
        (\<exists>j\<le>k. expected_streams (ts_config (cs_test st)) \<le> cs_finished st + of_nat j))"

lemma counted_trans:
  assumes "counted st k evs st1" and "counted st1 k' evs' st2"
  shows "counted st (k + k') (evs @ evs') st2"
proof -
  have "\<exists>j\<le>k + k'. expected_streams (ts_config (cs_test st)) \<le> cs_finished st + of_nat j"
    if "SentTestEnd \<in> set (evs @ evs')"
  proof (cases "SentTestEnd \<in> set evs")
    case True
    with assms(1) obtain j where "j \<le> k" "expected_streams (ts_config (cs_test st)) \<le> cs_finished st + of_nat j"
      by (auto simp: counted_def)
    then show ?thesis by (intro exI [of _ j]) simp
  next
    case False
    with that assms obtain j where "j \<le> k'"
      "expected_streams (ts_config (cs_test st)) \<le> cs_finished st + of_nat (k + j)"
      by (auto simp: counted_def add.assoc)
    then show ?thesis by (intro exI [of _ "k + j"]) simp
  qed
  with assms show ?thesis by (auto simp: counted_def)
qed

lemma poll_streams_says:
  assumes "connected (cs_test st)"
  shows "\<exists>evs k. says pr evs (cs_test st) (cs_test (poll_streams st)) \<and>
    counted st k evs (poll_streams st) \<and> evs \<in> {[], [SentTestEnd]} \<and>
    k + ends (ts_rx (cs_test (poll_streams st))) = ends (ts_rx (cs_test st))"
proof (cases "ts_rx (cs_test st)")
  case Nil
  with says_Nil [OF assms] show ?thesis
    by (intro exI [of _ "[]"] exI [of _ 0]) (simp add: poll_streams_def counted_def)
next
  case (Cons m ms)
  from assms obtain s where s: "ts_control (cs_test st) = Some s"
    by (auto simp: connected_def)
  obtain r s' where r: "send_control_byte tcp_send TestEnd s = (r, s')" by fastforce
  note w = wrote_control_byte [OF r]
  consider "m \<noteq> TestEnd"
    | "m = TestEnd" "\<not> (expected_streams (ts_config (cs_test st)) \<le> cs_finished st + 1 \<and> \<not> cs_test_end_sent st)"
    | "m = TestEnd" "expected_streams (ts_config (cs_test st)) \<le> cs_finished st + 1" "\<not> cs_test_end_sent st"
    by blast
  then show ?thesis
  proof cases
    case 1
    with Cons s show ?thesis
      by (intro exI [of _ "[]"] exI [of _ 0])
        (simp add: poll_streams_def counted_def says_Nil [OF assms])
  next
    case 2
    with Cons s show ?thesis
      by (intro exI [of _ "[]"] exI [of _ 1])
        (auto simp: poll_streams_def Let_def counted_def says_Nil [OF assms])
  next
    case 3
    with Cons s r w show ?thesis
      by (intro exI [of _ "[SentTestEnd]"] exI [of _ 1])
        (auto simp: poll_streams_def Let_def counted_def simp del: message_code.simps intro!: says_one [OF s])
  qed
qed

lemma client_round_says:
  assumes "connected (cs_test st)" and "client_round ct st = (d, st')"
  shows "\<exists>evs evs' k. says (ce_print (ct_env ct)) (evs @ evs') (cs_test st) (cs_test st') \<and>
    reply (ct_env ct) (ts_config (cs_test st)) d evs \<and> evs' \<in> {[], [SentTestEnd]} \<and>
    (d \<longrightarrow> evs' = []) \<and> counted st k (evs @ evs') st' \<and>
    k + ends (ts_rx (cs_test st')) \<le> ends (ts_rx (cs_test st)) + ends (turn_messages ct)"
proof -
  let ?t0 = "arrive (ct_pre ct) (net_arrive (ct_net ct) (cs_test st))"
  obtain dn t1 where t1: "client_recv (ct_env ct) ?t0 = (dn, t1)" by fastforce
  from assms(1) have "connected ?t0" by simp
  from client_recv_says [OF this t1] obtain evs where
    evs: "says (ce_print (ct_env ct)) evs (cs_test st) t1" "keeps ?t0 t1"
      "reply (ct_env ct) (ts_config (cs_test st)) dn evs"
    by auto
  let ?t2 = "drain_receipts (arrive (ct_mid ct) t1)"
  let ?st = "st\<lparr>cs_test := arrive (ct_post ct) ?t2\<rparr>"
  from evs(3) have no_end: "SentTestEnd \<notin> set evs" by (auto simp: reply_def)
  from evs(2) have cfg: "ts_config t1 = ts_config (cs_test st)"
    and rx: "ts_rx t1 = ts_rx (cs_test st) @ snd (ct_pre ct)"
    by (simp_all add: keeps_def arrive_def net_arrive_def)
  show ?thesis
  proof (cases dn)
    case True
    with assms(2) t1 have "d" "st' = st\<lparr>cs_test := ?t2\<rparr>" by (simp_all add: client_round_def)
    moreover have "says (ce_print (ct_env ct)) (evs @ []) (cs_test st) ?t2" using evs(1) by simp
    moreover have "counted st 0 (evs @ []) (st\<lparr>cs_test := ?t2\<rparr>)"
      using no_end by (simp add: counted_def count_list_0_iff) (simp add: cfg drain_receipts_def)
    moreover have "ends (ts_rx ?t2) \<le> ends (ts_rx (cs_test st)) + ends (turn_messages ct)"
      by (simp add: arrive_def drain_receipts_def rx turn_messages_def count_list_append)
    ultimately show ?thesis using evs(3) True
      by - (rule exI [of _ evs], rule exI [of _ "[]"], rule exI [of _ 0], simp)
  next
    case False
    from evs(1) have h: "connected (cs_test ?st)" by (simp add: says_connected)
    from poll_streams_says [OF h, of "ce_print (ct_env ct)"] obtain evs' k where
      p: "says (ce_print (ct_env ct)) evs' (cs_test ?st) (cs_test (poll_streams ?st))"
        "counted ?st k evs' (poll_streams ?st)" "evs' \<in> {[], [SentTestEnd]}"
        "k + ends (ts_rx (cs_test (poll_streams ?st))) = ends (ts_rx (cs_test ?st))" by blast
    from False assms(2) t1 have st': "\<not> d" "st' = poll_streams ?st" by (simp_all add: client_round_def)
    from evs(1) have "says (ce_print (ct_env ct)) evs (cs_test st) (cs_test ?st)" by simp
    from says_trans [OF this p(1)] have a: "says (ce_print (ct_env ct)) (evs @ evs') (cs_test st) (cs_test st')"
      by (simp add: st')
    have "counted st 0 evs ?st"
      using no_end by (simp add: counted_def cfg count_list_0_iff) (simp add: cfg arrive_def drain_receipts_def)
    from counted_trans [OF this p(2)] have b: "counted st k (evs @ evs') st'" by (simp add: st')
    have "ends (ts_rx (cs_test ?st)) = ends (ts_rx (cs_test st)) + ends (turn_messages ct)"
      by (simp add: arrive_def drain_receipts_def rx turn_messages_def count_list_append)
    with p(4) have c: "k + ends (ts_rx (cs_test st')) \<le> ends (ts_rx (cs_test st)) + ends (turn_messages ct)"
      by (simp add: st')
    from a b c p(3) evs(3) False st'(1) show ?thesis
      by - (rule exI [of _ evs], rule exI [of _ evs'], rule exI [of _ k], simp)
  qed
qed

text \<open>
  What the client has sent over a run: nothing follows \<open>IperfDone\<close>, and options are always those of
  the configuration.
\<close>

definition well_ordered :: "'k client_turn list \<Rightarrow> config \<Rightarrow> bool \<Rightarrow> client_send list \<Rightarrow> bool" where
  "well_ordered cts c d evs \<longleftrightarrow>
     (SentDone \<in> set evs \<longrightarrow> d \<and> (\<exists>pre. evs = pre @ [SentDone] \<and> SentDone \<notin> set pre)) \<and>
     (\<forall>p. SentOptions p \<in> set evs \<longrightarrow> (\<exists>ct\<in>set cts. p = client_options_sent (ct_env ct) c))"

lemma reply_ordered:
  assumes "reply (ct_env ct) c d evs" and "evs' \<in> {[], [SentTestEnd]}" and "d \<longrightarrow> evs' = []"
  shows "well_ordered (ct # cts) c d (evs @ evs')"
  using assms by (auto simp: reply_def well_ordered_def intro: exI [of _ "[]"])

lemma well_ordered_step:
  assumes "reply (ct_env ct) c False evs" and "evs' \<in> {[], [SentTestEnd]}" and "well_ordered cts c d evs''"
  shows "well_ordered (ct # cts) c d (evs @ evs' @ evs'')"
proof -
  from assms(1,2) have n: "SentDone \<notin> set (evs @ evs')" by (auto simp: reply_def)
  have "d \<and> (\<exists>pre. evs @ evs' @ evs'' = pre @ [SentDone] \<and> SentDone \<notin> set pre)"
    if "SentDone \<in> set (evs @ evs' @ evs'')"
  proof -
    from that n assms(3) obtain pre where "d" "evs'' = pre @ [SentDone]" "SentDone \<notin> set pre"
      by (auto simp: well_ordered_def)
    with n show ?thesis by (intro conjI exI [of _ "evs @ evs' @ pre"]) simp_all
  qed
  moreover have "\<exists>ct\<in>set (ct # cts). p = client_options_sent (ct_env ct) c"
    if "SentOptions p \<in> set (evs @ evs' @ evs'')" for p
    using that assms by (auto simp: reply_def well_ordered_def)
  ultimately show ?thesis unfolding well_ordered_def by blast
qed

lemma client_rounds_say:
  assumes "\<forall>ct\<in>set cts. ce_print (ct_env ct) = pr"
  shows "connected (cs_test st) \<Longrightarrow> client_rounds cts st = (d, st') \<Longrightarrow>
    \<exists>evs k. says pr evs (cs_test st) (cs_test st') \<and> counted st k evs st' \<and>
      well_ordered cts (ts_config (cs_test st)) d evs \<and>
      k \<le> ends (ts_rx (cs_test st)) + ends (stream_messages cts)"
  using assms
proof (induction cts arbitrary: st)
  case Nil
  with says_Nil [OF Nil.prems(1)] show ?case
    by (intro exI [of _ "[]"] exI [of _ 0]) (auto simp: counted_def well_ordered_def)
next
  case (Cons ct cts)
  obtain d1 st1 where r: "client_round ct st = (d1, st1)" by fastforce
  from client_round_says [OF Cons.prems(1) r] Cons.prems(3) obtain evs evs' k where
    e: "says pr (evs @ evs') (cs_test st) (cs_test st1)"
      "reply (ct_env ct) (ts_config (cs_test st)) d1 evs" "evs' \<in> {[], [SentTestEnd]}"
      "d1 \<longrightarrow> evs' = []" "counted st k (evs @ evs') st1"
      "k + ends (ts_rx (cs_test st1)) \<le> ends (ts_rx (cs_test st)) + ends (turn_messages ct)"
    by auto
  have sm: "ends (stream_messages (ct # cts)) = ends (turn_messages ct) + ends (stream_messages cts)"
    by (simp add: stream_messages_def count_list_append)
  show ?case
  proof (cases d1)
    case True
    with Cons.prems(2) r have "d" "st' = st1" by simp_all
    with e reply_ordered [OF e(2-4), of cts] True sm show ?thesis
      by - (rule exI [of _ "evs @ evs'"], rule exI [of _ k], simp)
  next
    case False
    with Cons.prems(2) r have "client_rounds cts st1 = (d, st')" by simp
    from Cons.IH [OF says_connected [OF e(1)] this] Cons.prems(3) obtain evs'' k' where
      f: "says pr evs'' (cs_test st1) (cs_test st')" "counted st1 k' evs'' st'"
        "well_ordered cts (ts_config (cs_test st1)) d evs''"
        "k' \<le> ends (ts_rx (cs_test st1)) + ends (stream_messages cts)" by auto
    from e(5) have cfg: "ts_config (cs_test st1) = ts_config (cs_test st)" by (simp add: counted_def)
    from e(2) False have "reply (ct_env ct) (ts_config (cs_test st)) False evs" by simp
    from well_ordered_step [OF this e(3) f(3) [unfolded cfg]] says_trans [OF e(1) f(1)]
      counted_trans [OF e(5) f(2)] e(6) f(4) sm
    show ?thesis by - (rule exI [of _ "evs @ evs' @ evs''"], rule exI [of _ "k + k'"], simp)
  qed
qed

section \<open>A server that goes away\<close>

text \<open>Nothing but ignored messages and then the end of the stream will be read.\<close>

definition ignored :: "message \<Rightarrow> bool" where
  "ignored m \<longleftrightarrow> m \<in> {ResultRequest, TestEnd, StreamBegin, StreamRunning, StreamEnd, AllStreamsEnd,
     ServerTerminate, ClientTerminate, IperfStart, ServerError}"

definition hangs_up :: "message list \<Rightarrow> tcp \<Rightarrow> bool" where
  "hangs_up ms s \<longleftrightarrow> list_all ignored ms \<and>
     (\<exists>more'. tcp_rx s = map (\<lambda>m. RxData [message_code m]) ms @ RxData [] # more')"

lemma handle_ignored: "ignored m \<Longrightarrow> handle_message_client env m t = (False, t)"
  by (cases m) (simp_all add: ignored_def)

lemma hangs_up_recv:
  assumes "hangs_up ms s" and "ts_control t = Some s"
  shows "\<exists>ms' s'. client_recv env t = (False, t\<lparr>ts_control := Some s'\<rparr>) \<and> hangs_up ms' s'"
proof (cases ms)
  case Nil
  with assms(1) obtain r where r: "tcp_rx s = RxData [] # r" by (auto simp: hangs_up_def)
  then have "recv_control_byte tcp_recv s = (Inl UnexpectedEof, s)"
    by (simp add: recv_control_byte_def read_exact.simps [of _ "Suc 0"] tcp_recv_def io_bind_def)
  with assms show ?thesis by (intro exI [of _ ms] exI [of _ s]) (simp add: client_recv_def)
next
  case (Cons m ms')
  with assms(1) obtain r where i: "ignored m" "list_all ignored ms'"
    and r: "tcp_rx s = RxData [message_code m] # map (\<lambda>m. RxData [message_code m]) ms' @ RxData [] # r"
    by (auto simp: hangs_up_def)
  let ?s = "s\<lparr>tcp_rx := map (\<lambda>m. RxData [message_code m]) ms' @ RxData [] # r\<rparr>"
  from r have "recv_control_byte tcp_recv s = (Inr m, ?s)"
    by (simp add: recv_control_byte_def read_exact.simps [of _ "Suc 0"] tcp_recv_def io_bind_def)
  moreover have "hangs_up ms' ?s" using i by (auto simp: hangs_up_def)
  ultimately show ?thesis using assms(2) i
    by (intro exI [of _ ms'] exI [of _ ?s]) (simp add: client_recv_def handle_ignored)
qed

definition deserted :: "test \<Rightarrow> bool" where
  "deserted t \<longleftrightarrow> (\<exists>ms s. ts_control t = Some s \<and> hangs_up ms s)"

lemma deserted_arrive [simp]: "deserted (arrive a t) = deserted t"
  and deserted_drain [simp]: "deserted (drain_receipts t) = deserted t"
  and deserted_rx [simp]: "deserted (t\<lparr>ts_rx := ms\<rparr>) = deserted t"
  by (simp_all add: deserted_def arrive_def drain_receipts_def)

lemma deserted_net: "deserted t \<Longrightarrow> deserted (net_arrive es t)"
  by (fastforce simp: deserted_def hangs_up_def net_arrive_def)

lemma send_keeps_rx:
  assumes "send_control_byte tcp_send m s = (r, s')"
  shows "tcp_rx s' = tcp_rx s"
  using assms
  by (auto simp: send_control_byte_def write_all.simps [of _ "[_]"] tcp_send_def
      split: list.splits tx_event.splits if_splits)

lemma deserted_poll:
  assumes "deserted (cs_test st)"
  shows "deserted (cs_test (poll_streams st))"
proof -
  from assms obtain ms s where s: "ts_control (cs_test st) = Some s" "hangs_up ms s"
    by (auto simp: deserted_def)
  obtain r s' where r: "send_control_byte tcp_send TestEnd s = (r, s')" by fastforce
  from s(2) send_keeps_rx [OF r] have "hangs_up ms s'" by (simp add: hangs_up_def)
  with s r show ?thesis
    by (cases "ts_rx (cs_test st)") (auto simp: poll_streams_def Let_def deserted_def)
qed

lemma deserted_rounds: "deserted (cs_test st) \<Longrightarrow> \<not> fst (client_rounds cts st)"
proof (induction cts arbitrary: st)
  case (Cons ct cts)
  let ?t0 = "arrive (ct_pre ct) (net_arrive (ct_net ct) (cs_test st))"
  from Cons.prems have "deserted ?t0" by (simp add: deserted_net)
  then obtain ms s where "ts_control ?t0 = Some s" "hangs_up ms s" by (auto simp: deserted_def)
  from hangs_up_recv [OF this(2,1), of "ct_env ct"] obtain t1 where
    t1: "client_recv (ct_env ct) ?t0 = (False, t1)" "deserted t1" by (fastforce simp: deserted_def)
  let ?st = "st\<lparr>cs_test := arrive (ct_post ct) (drain_receipts (arrive (ct_mid ct) t1))\<rparr>"
  from t1(2) have "deserted (cs_test (poll_streams ?st))" by (intro deserted_poll) simp
  with t1(1) Cons.IH show ?case by (simp add: client_round_def)
qed simp

section \<open>A complete test\<close>

text \<open>The bytes that arrive, in any number of pieces, on a connection that stays open.\<close>

definition delivers :: "rx_event list \<Rightarrow> bytes \<Rightarrow> bool" where
  "delivers es b \<longleftrightarrow> rx_ok es \<and> \<not> rx_closed es \<and> rx_bytes es = b"

lemma delivers_Nil: "delivers es [] \<longleftrightarrow> es = []"
  by (auto simp: delivers_def rx_closed_def dest: rx_ok_pending_Nil)

text \<open>A round in which the control connection brings \<open>es\<close> and no stream thread reports.\<close>

definition hear :: "'k client_env \<Rightarrow> rx_event list \<Rightarrow> 'k client_turn" where
  "hear env es = \<lparr>ct_env = env, ct_net = es, ct_pre = ([], []), ct_mid = ([], []), ct_post = ([], [])\<rparr>"

definition turn_receipts :: "'k client_turn \<Rightarrow> client_receipt list" where
  "turn_receipts ct = fst (ct_pre ct) @ fst (ct_mid ct) @ fst (ct_post ct)"

definition stream_receipts :: "'k client_turn list \<Rightarrow> client_receipt list" where
  "stream_receipts cts = concat (map turn_receipts cts)"

lemma arrive_nothing [simp]: "arrive ([], []) t = t"
  by (simp add: arrive_def)

lemma drain_nothing: "ts_receipt_rx t = [] \<Longrightarrow> drain_receipts t = t"
  by (simp add: drain_receipts_def)

lemma client_rounds_append:
  "client_rounds (xs @ ys) st =
     (case client_rounds xs st of (True, st') \<Rightarrow> (True, st') | (False, st') \<Rightarrow> client_rounds ys st')"
  by (induction xs arbitrary: st) (auto split: prod.splits bool.splits)

subsection \<open>Messages of the server\<close>

lemma client_recv_message:
  assumes "ts_control t = Some s" and "tcp_rx s = []" and "delivers es (message_code m # rest)"
  shows "\<exists>s'. client_recv env (net_arrive es t) = handle_message_client env m (t\<lparr>ts_control := Some s'\<rparr>) \<and>
    delivers (tcp_rx s') rest \<and> tcp_out s' = tcp_out s \<and> tx_ok (tcp_tx s') = tx_ok (tcp_tx s)"
proof -
  let ?s = "s\<lparr>tcp_rx := es\<rparr>"
  from assms(3) have "rx_ok (tcp_rx ?s)" "1 \<le> length (rx_bytes (tcp_rx ?s))" by (simp_all add: delivers_def)
  from tcp.read_exact_ok [OF this] assms(3) obtain s' where
    s': "read_exact tcp_recv 1 ?s = (Inr [message_code m], s')" "rx_bytes (tcp_rx s') = rest"
      "rx_ok (tcp_rx s')" "rx_closed (tcp_rx s') = rx_closed es"
    by (auto simp: delivers_def)
  then have "recv_control_byte tcp_recv ?s = (Inr m, s')"
    by (simp add: recv_control_byte_def io_bind_def)
  with assms(1,2) have "client_recv env (net_arrive es t) = handle_message_client env m (t\<lparr>ts_control := Some s'\<rparr>)"
    by (simp add: client_recv_def net_arrive_def)
  with s' tcp.read_exact_frame [OF s'(1)] assms(3) show ?thesis
    by (intro exI [of _ s']) (simp add: delivers_def)
qed

lemma framed_keeps_rx:
  assumes "enc v = Some b" and "length b < 2 ^ 32" and "tx_ok (tcp_tx s)" and "delivers (tcp_rx s) inp"
  shows "\<exists>s'. send_framed_json enc tcp_send v s = (Inr (), s') \<and> delivers (tcp_rx s') inp \<and>
    tx_ok (tcp_tx s') \<and> tcp_out s' = tcp_out s @ frame b"
proof -
  obtain r1 s1 where r1: "write_all tcp_send (u32_to_be_bytes (of_nat (length b))) s = (r1, s1)" by fastforce
  obtain r2 s2 where r2: "write_all tcp_send b s1 = (r2, s2)" by fastforce
  from tcp.write_all_ok [OF assms(3), of "u32_to_be_bytes (of_nat (length b))"] r1 have a: "r1 = Inr ()" "tx_ok (tcp_tx s1)"
    "tcp_out s1 = tcp_out s @ u32_to_be_bytes (of_nat (length b))" by auto
  from tcp.write_all_ok [OF a(2), of b] r2 have c: "r2 = Inr ()" "tx_ok (tcp_tx s2)" "tcp_out s2 = tcp_out s1 @ b"
    by auto
  from tcp.write_all_frame [OF r1] tcp.write_all_frame [OF r2] assms(4) have "delivers (tcp_rx s2) inp"
    by (simp add: delivers_def)
  with a c r1 r2 assms(1,2) show ?thesis
    by (simp add: send_framed_json_def io_then_def io_bind_def frame_def)
qed

lemma control_byte_keeps_rx:
  assumes "tx_ok (tcp_tx s)"
  shows "\<exists>s'. send_control_byte tcp_send m s = (Inr (), s') \<and> tcp_rx s' = tcp_rx s \<and>
    tx_ok (tcp_tx s') \<and> tcp_out s' = tcp_out s @ [message_code m]"
proof -
  from tcp.write_all_ok [OF assms, of "[message_code m]"] obtain s' where
    "send_control_byte tcp_send m s = (Inr (), s')" "tcp_out s' = tcp_out s @ [message_code m]" "tx_ok (tcp_tx s')"
    by (auto simp: send_control_byte_def)
  with send_keeps_rx show ?thesis by blast
qed

lemma swap_results_ok:
  assumes "enc_client_results env r = Some b" and "length b < 2 ^ 32"
    and "dec_server_results env sb = Some server" and "length sb \<le> MAX_JSON_FRAME_LEN"
    and "tx_ok (tcp_tx s)" and "delivers (tcp_rx s) (frame sb)"
  shows "\<exists>s'. swap_results env r s = (Inr server, s') \<and> tcp_rx s' = [] \<and> tx_ok (tcp_tx s') \<and>
    tcp_out s' = tcp_out s @ frame b"
proof -
  from framed_keeps_rx [of "enc_client_results env", OF assms(1,2,5,6)] obtain s1 where
    s1: "send_framed_json (enc_client_results env) tcp_send r s = (Inr (), s1)"
      "delivers (tcp_rx s1) (frame sb)" "tx_ok (tcp_tx s1)" "tcp_out s1 = tcp_out s @ frame b" by blast
  let ?s = "s1\<lparr>tcp_nonblocking := False\<rparr>"
  from s1(2) have "rx_ok (tcp_rx ?s)" "rx_bytes (tcp_rx ?s) = frame sb @ []" by (simp_all add: delivers_def)
  from tcp.recv_framed_ok [of "dec_server_results env", OF assms(3,4) this] obtain s2 where
    s2: "recv_framed_json (dec_server_results env) tcp_recv ?s = (Inr server, s2)"
      "rx_bytes (tcp_rx s2) = []" "rx_ok (tcp_rx s2)" "rx_closed (tcp_rx s2) = rx_closed (tcp_rx ?s)" by blast
  from s2 s1(2) have "delivers (tcp_rx s2) []" by (simp add: delivers_def)
  with s1 s2 tcp.recv_framed_frame [OF s2(1)] show ?thesis
    by (simp add: swap_results_def io_then_def io_bind_def io_try_def io_ignore_def
        tcp_set_nonblocking_def delivers_Nil)
qed

subsection \<open>Waiting for the streams\<close>

text \<open>
  The state while the streams run: \<open>b\<close> is the test as it was when they started, \<open>rs\<close> are the receipts
  that arrived since, \<open>k\<close> streams have been counted, \<open>a\<close> more reports are pending, and \<open>TestEnd\<close> has
  been sent behind \<open>out\<close> as soon as \<open>k\<close> reached the expected number.
\<close>

definition wait_state :: "test \<Rightarrow> tcp \<Rightarrow> client_receipt list \<Rightarrow> client_receipt list \<Rightarrow> nat \<Rightarrow> nat \<Rightarrow> client_state" where
  "wait_state b s p q k a =
     \<lparr>cs_test = b\<lparr>ts_control := Some s, ts_rx := replicate a TestEnd, ts_receipt_rx := q, ts_receipts := p\<rparr>,
      cs_finished = of_nat k, cs_test_end_sent = (unat (expected_streams (ts_config b)) \<le> k)\<rparr>"

definition wait_conn :: "test \<Rightarrow> bytes \<Rightarrow> nat \<Rightarrow> tcp \<Rightarrow> bool" where
  "wait_conn b out k s \<longleftrightarrow> tcp_rx s = [] \<and> tx_ok (tcp_tx s) \<and>
     tcp_out s = out @ (if unat (expected_streams (ts_config b)) \<le> k then [message_code TestEnd] else [])"

definition waiting :: "test \<Rightarrow> bytes \<Rightarrow> client_receipt list \<Rightarrow> nat \<Rightarrow> nat \<Rightarrow> client_state \<Rightarrow> bool" where
  "waiting b out rs k a st \<longleftrightarrow> (\<exists>s p q. wait_conn b out k s \<and> p @ q = rs \<and> st = wait_state b s p q k a)"

lemma client_recv_quiet:
  assumes "ts_control t = Some s" and "tcp_rx s = []"
  shows "client_recv env (arrive a (net_arrive [] t)) = (False, arrive a t)"
  using assms
  by (simp add: client_recv_def arrive_def net_arrive_def recv_control_byte_def
      read_exact.simps [of _ "Suc 0"] tcp_recv_def io_bind_def)

lemma waiting_poll:
  assumes "wait_conn b out k s" and "0 < expected_streams (ts_config b)" and "k + a < 2 ^ 32"
  shows "waiting b out (p @ q) (k + of_bool (0 < a)) (a - 1) (poll_streams (wait_state b s p q k a))"
proof (cases a)
  case 0
  with assms(1) show ?thesis by (auto simp: poll_streams_def waiting_def wait_state_def)
next
  case (Suc j)
  let ?n = "unat (expected_streams (ts_config b))"
  have "unat (of_nat (k + 1) :: u32) = k + 1"
    using assms(3) Suc by (simp only: unat_of_nat) simp
  then have le: "expected_streams (ts_config b) \<le> of_nat k + 1 \<longleftrightarrow> ?n \<le> k + 1"
    by (simp add: word_le_nat_alt add.commute)
  obtain s' where s': "send_control_byte tcp_send TestEnd s = (Inr (), s')" "tcp_rx s' = []"
    "tx_ok (tcp_tx s')" "tcp_out s' = tcp_out s @ [message_code TestEnd]"
    using control_byte_keeps_rx [of s TestEnd] assms(1) by (auto simp: wait_conn_def)
  have "\<exists>s'. wait_conn b out (k + 1) s' \<and> poll_streams (wait_state b s p q k a) = wait_state b s' p q (k + 1) j"
  proof (cases "?n = k + 1")
    case True
    with assms(1) Suc s' le show ?thesis
      by (intro exI [of _ s']) (simp add: poll_streams_def Let_def wait_state_def wait_conn_def add.commute)
  next
    case False
    with assms(1) Suc le show ?thesis
      by (intro exI [of _ s]) (auto simp: poll_streams_def Let_def wait_state_def wait_conn_def add.commute)
  qed
  with Suc show ?thesis by (auto simp: waiting_def)
qed

lemma waiting_round:
  assumes "waiting b out rs k a st" and "ct_net ct = []" and "turn_messages ct = replicate m TestEnd"
    and "0 < expected_streams (ts_config b)" and "k + a + m < 2 ^ 32"
  shows "\<exists>st'. client_round ct st = (False, st') \<and>
    waiting b out (rs @ turn_receipts ct) (k + of_bool (0 < a + m)) (a + m - 1) st'"
proof -
  from assms(1) obtain s p q where w: "wait_conn b out k s" "p @ q = rs" "st = wait_state b s p q k a"
    by (auto simp: waiting_def)
  let ?p = "p @ q @ fst (ct_pre ct) @ fst (ct_mid ct)" and ?q = "fst (ct_post ct)"
  have r: "client_recv (ct_env ct) (arrive (ct_pre ct) (net_arrive (ct_net ct) (cs_test st))) =
      (False, arrive (ct_pre ct) (cs_test st))"
    using w(1) client_recv_quiet [of "cs_test st" s] by (simp add: w(3) wait_state_def wait_conn_def assms(2))
  have "st\<lparr>cs_test := arrive (ct_post ct) (drain_receipts (arrive (ct_mid ct) (arrive (ct_pre ct) (cs_test st))))\<rparr> =
      wait_state b s ?p ?q k (a + m)"
    using assms(3) by (simp add: w(3) wait_state_def arrive_def drain_receipts_def turn_messages_def replicate_add)
  with r have "client_round ct st = (False, poll_streams (wait_state b s ?p ?q k (a + m)))"
    by (simp add: client_round_def Let_def)
  moreover have "waiting b out (?p @ ?q) (k + of_bool (0 < a + m)) (a + m - 1)
      (poll_streams (wait_state b s ?p ?q k (a + m)))"
    using assms(5) by (intro waiting_poll [OF w(1) assms(4)]) simp
  ultimately show ?thesis using w(2) by (simp add: turn_receipts_def flip: w(2))
qed

lemma waiting_rounds:
  assumes "0 < expected_streams (ts_config b)"
  shows "waiting b out rs k a st \<Longrightarrow> \<forall>w\<in>set ws. ct_net w = [] \<Longrightarrow>
    stream_messages ws = replicate m TestEnd \<Longrightarrow> k + a + m < 2 ^ 32 \<Longrightarrow>
    \<exists>st' k' a'. client_rounds ws st = (False, st') \<and> k' + a' = k + a + m \<and>
      waiting b out (rs @ stream_receipts ws) k' a' st'"
proof (induction ws arbitrary: rs k a m st)
  case Nil
  then show ?case by (auto simp: stream_messages_def stream_receipts_def)
next
  case (Cons w ws)
  define i where "i = length (turn_messages w)"
  from Cons.prems(3) have sm: "turn_messages w @ stream_messages ws = replicate m TestEnd"
    by (simp add: stream_messages_def)
  then have m: "m = i + length (stream_messages ws)" by (metis i_def length_append length_replicate)
  with sm have tm: "turn_messages w = replicate i TestEnd" "stream_messages ws = replicate (m - i) TestEnd"
    by (simp_all add: i_def append_eq_append_conv replicate_add)
  from Cons.prems(4) m have "k + a + i < 2 ^ 32" by simp
  from waiting_round [OF Cons.prems(1) _ tm(1) assms this] Cons.prems(2) obtain st1 where
    r1: "client_round w st = (False, st1)"
      "waiting b out (rs @ turn_receipts w) (k + of_bool (0 < a + i)) (a + i - 1) st1" by auto
  obtain k1 a1 where st1: "k1 = k + of_bool (0 < a + i)" "a1 = a + i - 1" "k1 + a1 = k + a + i" by fastforce
  note r1 = r1 [folded st1(1,2)]
  from Cons.IH [OF r1(2) _ tm(2)] Cons.prems(2,4) m st1(3) obtain st' k' a' where
    "client_rounds ws st1 = (False, st')" "k' + a' = k1 + a1 + (m - i)"
    "waiting b out ((rs @ turn_receipts w) @ stream_receipts ws) k' a' st'" by auto
  with r1(1) st1(3) m show ?case by (auto simp: stream_receipts_def add.assoc)
qed

lemma waiting_idle:
  assumes "0 < expected_streams (ts_config b)"
  shows "waiting b out rs k a st \<Longrightarrow> k + a < 2 ^ 32 \<Longrightarrow> a \<le> n \<Longrightarrow>
    \<exists>st'. client_rounds (replicate n (hear env [])) st = (False, st') \<and> waiting b out rs (k + a) 0 st'"
proof (induction n arbitrary: k a st)
  case (Suc n)
  have h: "ct_net (hear env []) = []" "turn_messages (hear env []) = replicate 0 TestEnd"
    "turn_receipts (hear env []) = []"
    by (simp_all add: hear_def turn_messages_def turn_receipts_def)
  from waiting_round [OF Suc.prems(1) h(1,2) assms] Suc.prems(2) obtain st1 where
    st1: "client_round (hear env []) st = (False, st1)" "waiting b out rs (k + of_bool (0 < a)) (a - 1) st1"
    by (auto simp: h(3))
  have "k + of_bool (0 < a) + (a - 1) = k + a" by simp
  with Suc.IH [OF st1(2)] Suc.prems(2,3) st1(1) show ?case by (cases a) auto
qed auto

subsection \<open>The phases of a test\<close>

lemma stream_count_pos: "0 < unat (stream_count c)"
  by (auto simp: stream_count_def max_def word_le_nat_alt unat_gt_0)

lemma expected_streams_unat:
  assumes "unat (cf_parallel c) < 2 ^ 31"
  shows "unat (expected_streams c) =
    unat (stream_count c) * (if is_bidirectional (cf_direction c) then 2 else 1)"
proof -
  from assms have "unat (stream_count c) < 2 ^ 31" by (simp add: stream_count_def max_def)
  then show ?thesis by (simp add: expected_streams_def unat_mult_lem [THEN iffD1])
qed

lemma length_create_streams:
  assumes "unat (cf_parallel (ts_config t)) < 2 ^ 31"
  shows "length (ts_jobs (create_streams t)) = length (ts_jobs t) + unat (expected_streams (ts_config t))"
proof -
  let ?d = "cf_direction (ts_config t)"
  have "length (concat (map f xs)) = length xs * k" if "\<And>i. length (f i) = k" for f :: "nat \<Rightarrow> stream_job list" and xs k
    using that by (induction xs) simp_all
  then show ?thesis
    unfolding expected_streams_unat [OF assms]
    by (cases ?d) (simp_all add: create_streams_def Let_def direction_defs)
qed

text \<open>Before the streams run: nothing is pending, \<open>n\<close> streams have been started, \<open>out\<close> has been sent.\<close>

definition ready :: "config \<Rightarrow> cpu_snapshot option \<Rightarrow> nat \<Rightarrow> bytes \<Rightarrow> test \<Rightarrow> bool" where
  "ready c cpu n out t \<longleftrightarrow> ts_rx t = [] \<and> ts_receipt_rx t = [] \<and> ts_receipts t = [] \<and>
     ts_config t = c \<and> ts_cpu_start t = cpu \<and> length (ts_jobs t) = n \<and>
     (\<exists>s. ts_control t = Some s \<and> tcp_rx s = [] \<and> tx_ok (tcp_tx s) \<and> tcp_out s = out)"

abbreviation fresh :: "test \<Rightarrow> client_state" where
  "fresh t \<equiv> \<lparr>cs_test = t, cs_finished = 0, cs_test_end_sent = False\<rparr>"

lemma ready_round:
  assumes "ready c cpu n out t" and "delivers es [message_code m]"
    and "\<And>t. ready c cpu n out t \<Longrightarrow> \<exists>t'. handle_message_client env m t = (False, t') \<and> ready c cpu n' out' t'"
  shows "\<exists>t'. client_round (hear env es) (fresh t) = (False, fresh t') \<and> ready c cpu n' out' t'"
proof -
  from assms(1) obtain s where s: "ts_control t = Some s" "tcp_rx s = []" "tx_ok (tcp_tx s)" "tcp_out s = out"
    by (auto simp: ready_def)
  from client_recv_message [OF s(1,2) assms(2), of env] s obtain s' where
    r: "client_recv env (net_arrive es t) = handle_message_client env m (t\<lparr>ts_control := Some s'\<rparr>)"
    and s': "tcp_rx s' = []" "tcp_out s' = out" "tx_ok (tcp_tx s')"
    by (auto simp: delivers_Nil)
  from assms(1) s' have "ready c cpu n out (t\<lparr>ts_control := Some s'\<rparr>)" by (simp add: ready_def)
  from assms(3) [OF this] obtain t' where
    t': "handle_message_client env m (t\<lparr>ts_control := Some s'\<rparr>) = (False, t')" "ready c cpu n' out' t'" by blast
  from t'(2) have "ts_rx t' = []" "ts_receipt_rx t' = []" by (simp_all add: ready_def)
  with t'(1) have "client_round (hear env es) (fresh t) = (False, fresh t')"
    by (simp add: client_round_def hear_def r drain_nothing poll_streams_def)
  with t'(2) show ?thesis by blast
qed

lemma ready_options:
  assumes "enc_client_options env (client_options_sent env c) = Some obody" and "length obody < 2 ^ 32"
    and "ready c cpu n out t"
  shows "\<exists>t'. handle_message_client env ParamExchange t = (False, t') \<and> ready c cpu n (out @ frame obody) t'"
proof -
  from assms(3) obtain s where s: "ts_control t = Some s" "tcp_rx s = []" "tx_ok (tcp_tx s)" "tcp_out s = out"
    by (auto simp: ready_def)
  then have "delivers (tcp_rx s) []" by (simp add: delivers_Nil)
  from framed_keeps_rx [of "enc_client_options env", OF assms(1,2) s(3) this] obtain s2 where
    "send_framed_json (enc_client_options env) tcp_send (client_options_sent env c) s = (Inr (), s2)"
    "tcp_rx s2 = []" "tx_ok (tcp_tx s2)" "tcp_out s2 = tcp_out s @ frame obody" by (auto simp: delivers_Nil)
  with assms(3) s show ?thesis by (simp add: send_options_def ready_def)
qed

lemma ready_create:
  assumes "unat (cf_parallel c) < 2 ^ 31" and "ready c cpu n out t"
  shows "\<exists>t'. handle_message_client env CreateStreams t = (False, t') \<and>
    ready c cpu (n + unat (expected_streams c)) out t'"
proof -
  from assms have "length (ts_jobs (create_streams t)) = n + unat (expected_streams c)"
    by (simp add: length_create_streams ready_def)
  with assms(2) show ?thesis by (simp add: ready_def) (simp add: create_streams_def Let_def)
qed

lemma ready_start:
  "ready c cpu n out t \<Longrightarrow> \<exists>t'. handle_message_client env TestStart t = (False, t') \<and> ready c cpu n out t'"
  "ready c cpu n out t \<Longrightarrow> \<exists>t'. handle_message_client env TestRunning t = (False, t') \<and> ready c cpu n out t'"
  by (simp_all add: ready_def print_lines_def)

lemma ready_waiting:
  assumes "ready c cpu n out t" and "0 < expected_streams c"
  shows "waiting t out [] 0 0 (fresh t)"
proof -
  from assms(2) have pos: "0 < unat (expected_streams c)" by (simp add: unat_gt_0)
  from assms(1) obtain s where s: "ts_control t = Some s" "tcp_rx s = []" "tx_ok (tcp_tx s)" "tcp_out s = out"
    by (auto simp: ready_def)
  have "fresh t = wait_state t s [] [] 0 0" using assms(1) s pos by (simp add: wait_state_def ready_def)
  moreover have "wait_conn t out 0 s" using assms(1) s pos by (simp add: wait_conn_def ready_def)
  ultimately show ?thesis by (auto simp: waiting_def)
qed

lemma setup_rounds:
  assumes "ready c cpu 0 out t" and "unat (cf_parallel c) < 2 ^ 31"
    and "enc_client_options env (client_options_sent env c) = Some obody" and "length obody < 2 ^ 32"
    and "delivers e1 [message_code ParamExchange]" and "delivers e2 [message_code CreateStreams]"
    and "delivers e3 [message_code TestStart]" and "delivers e4 [message_code TestRunning]"
  shows "\<exists>t'. client_rounds (map (hear env) [e1, e2, e3, e4]) (fresh t) = (False, fresh t') \<and>
    ready c cpu (unat (expected_streams c)) (out @ frame obody) t'"
proof -
  from ready_round [OF assms(1,5) ready_options [OF assms(3,4)]] obtain t1 where
    t1: "client_round (hear env e1) (fresh t) = (False, fresh t1)" "ready c cpu 0 (out @ frame obody) t1" by blast
  from ready_round [OF t1(2) assms(6) ready_create [OF assms(2)]] obtain t2 where
    t2: "client_round (hear env e2) (fresh t1) = (False, fresh t2)"
      "ready c cpu (0 + unat (expected_streams c)) (out @ frame obody) t2" by blast
  from ready_round [OF t2(2) assms(7) ready_start(1)] obtain t3 where
    t3: "client_round (hear env e3) (fresh t2) = (False, fresh t3)"
      "ready c cpu (0 + unat (expected_streams c)) (out @ frame obody) t3" by blast
  from ready_round [OF t3(2) assms(8) ready_start(2)] obtain t4 where
    "client_round (hear env e4) (fresh t3) = (False, fresh t4)"
      "ready c cpu (0 + unat (expected_streams c)) (out @ frame obody) t4" by blast
  with t1(1) t2(1) t3(1) show ?thesis by simp
qed

text \<open>What the handler of \<open>ExchangeResults\<close> leaves behind.\<close>

definition exchanged :: "'k client_env \<Rightarrow> results \<Rightarrow> test \<Rightarrow> client_receipt list \<Rightarrow> bytes \<Rightarrow> test \<Rightarrow> bool" where
  "exchanged env server b rs out t \<longleftrightarrow>
     (\<exists>s. ts_control t = Some s \<and> tcp_rx s = [] \<and> tx_ok (tcp_tx s) \<and> tcp_out s = out) \<and>
     ts_rx t = [] \<and> ts_receipt_rx t = [] \<and> ts_receipts t = rs \<and> ts_config t = ts_config b \<and>
     ts_cpu_start t = ts_cpu_start b \<and> ts_jobs t = ts_jobs b \<and>
     ts_lines t = ts_lines b @ summary_lines t @ report_lines env t server"

lemma lines_cong:
  assumes "ts_config t = ts_config t'" and "ts_receipts t = ts_receipts t'" and "ts_cpu_start t = ts_cpu_start t'"
  shows "summary_lines t = summary_lines t'" and "client_cpu env t = client_cpu env t'"
    and "report_lines env t server = report_lines env t' server"
  unfolding summary_lines_def client_cpu_def report_lines_def assms by simp_all

lemma exchange_handled:
  assumes "ts_control t = Some s" and "tx_ok (tcp_tx s)" and "delivers (tcp_rx s) (frame sbody)"
    and "ts_rx t = []"
    and "enc_client_results env (build_client_results rs (client_cpu env (t\<lparr>ts_receipts := rs\<rparr>))) = Some cbody"
    and "length cbody < 2 ^ 32" and "ts_receipts t @ ts_receipt_rx t = rs"
    and "dec_server_results env sbody = Some server" and "length sbody \<le> MAX_JSON_FRAME_LEN"
  shows "exchanged env server t rs (tcp_out s @ frame cbody) (client_exchange_results env t)"
proof -
  let ?t = "drain_receipts t"
  have d: "ts_receipts ?t = rs" "ts_config ?t = ts_config t" "ts_cpu_start ?t = ts_cpu_start t" "ts_control ?t = Some s"
    "ts_rx ?t = []" "ts_receipt_rx ?t = []" "ts_jobs ?t = ts_jobs t" "ts_lines ?t = ts_lines t"
    using assms(1,4,7) by (simp_all add: drain_receipts_def)
  have cpu: "client_cpu env ?t = client_cpu env (t\<lparr>ts_receipts := rs\<rparr>)" by (rule lines_cong) (simp_all add: d)
  from swap_results_ok [OF assms(5,6,8,9,2,3)] obtain s' where
    s': "swap_results env (build_client_results rs (client_cpu env (t\<lparr>ts_receipts := rs\<rparr>))) s = (Inr server, s')"
      "tcp_rx s' = []" "tx_ok (tcp_tx s')" "tcp_out s' = tcp_out s @ frame cbody" by blast
  have e: "client_exchange_results env t =
      print_lines (report_lines env ?t server) ((print_lines (summary_lines ?t) ?t)\<lparr>ts_control := Some s'\<rparr>)"
  proof -
    have "ts_control (print_lines (summary_lines ?t) ?t) = Some s" by (simp add: print_lines_def d(4))
    with s'(1) show ?thesis unfolding client_exchange_results_def Let_def cpu d(1) by simp
  qed
  have "summary_lines (client_exchange_results env t) = summary_lines ?t"
    and "report_lines env (client_exchange_results env t) server = report_lines env ?t server"
    by (rule lines_cong; simp add: e print_lines_def)+
  with s'(2-4) show ?thesis unfolding exchanged_def by (simp add: e) (simp add: print_lines_def d)
qed

lemma exchange_round:
  assumes "waiting b out rs k 0 st" and "unat (expected_streams (ts_config b)) \<le> k"
    and "delivers es (message_code ExchangeResults # frame sbody)"
    and "enc_client_results env (build_client_results rs (client_cpu env (b\<lparr>ts_receipts := rs\<rparr>))) = Some cbody"
    and "length cbody < 2 ^ 32" and "dec_server_results env sbody = Some server" and "length sbody \<le> MAX_JSON_FRAME_LEN"
  shows "\<exists>t. client_round (hear env es) st = (False, st\<lparr>cs_test := t\<rparr>) \<and>
    exchanged env server b rs (out @ [message_code TestEnd] @ frame cbody) t"
proof -
  from assms(1) obtain s p q where w: "wait_conn b out k s" "p @ q = rs" "st = wait_state b s p q k 0"
    by (auto simp: waiting_def)
  let ?t = "\<lambda>s. (cs_test st)\<lparr>ts_control := Some s\<rparr>"
  have st: "ts_control (cs_test st) = Some s" "ts_rx (cs_test st) = []" "ts_receipts (cs_test st) = p"
    "ts_receipt_rx (cs_test st) = q" "ts_config (cs_test st) = ts_config b" "ts_jobs (cs_test st) = ts_jobs b"
    "ts_cpu_start (cs_test st) = ts_cpu_start b" "ts_lines (cs_test st) = ts_lines b"
    by (simp_all add: w(3) wait_state_def)
  from w(1) assms(2) have s: "tcp_rx s = []" "tx_ok (tcp_tx s)" "tcp_out s = out @ [message_code TestEnd]"
    by (simp_all add: wait_conn_def)
  from client_recv_message [OF st(1) s(1) assms(3), of env] s obtain s' where
    r: "client_recv env (net_arrive es (cs_test st)) = (False, client_exchange_results env (?t s'))"
    and s': "delivers (tcp_rx s') (frame sbody)" "tcp_out s' = out @ [message_code TestEnd]" "tx_ok (tcp_tx s')"
    by auto
  let ?x = "client_exchange_results env (?t s')"
  have cpu: "client_cpu env ((?t s')\<lparr>ts_receipts := rs\<rparr>) = client_cpu env (b\<lparr>ts_receipts := rs\<rparr>)"
    by (rule lines_cong) (simp_all add: st)
  have "exchanged env server (?t s') rs (tcp_out s' @ frame cbody) ?x"
  proof (rule exchange_handled [where sbody = sbody])
    show "enc_client_results env (build_client_results rs (client_cpu env ((?t s')\<lparr>ts_receipts := rs\<rparr>))) = Some cbody"
      unfolding cpu by (rule assms(4))
  qed (use s' w(2) assms(5-7) st in simp_all)
  with s'(2) have x: "exchanged env server b rs (out @ [message_code TestEnd] @ frame cbody) ?x"
    by (simp add: exchanged_def st)
  then have "ts_rx ?x = []" "ts_receipt_rx ?x = []" by (simp_all add: exchanged_def)
  then have "client_round (hear env es) st = (False, st\<lparr>cs_test := ?x\<rparr>)"
    by (simp add: client_round_def hear_def r drain_nothing poll_streams_def)
  with x show ?thesis by blast
qed

lemma display_round:
  assumes "exchanged env server b rs out (cs_test st)" and "delivers es [message_code DisplayResults]"
  shows "\<exists>t. client_round (hear env es) st = (True, st\<lparr>cs_test := t\<rparr>) \<and>
    exchanged env server b rs (out @ [message_code IperfDone]) t"
proof -
  let ?t = "cs_test st"
  from assms(1) obtain s where s: "ts_control ?t = Some s" "tcp_rx s = []" "tx_ok (tcp_tx s)" "tcp_out s = out"
    by (auto simp: exchanged_def)
  from client_recv_message [OF s(1,2) assms(2), of env] s obtain s' where
    r: "client_recv env (net_arrive es ?t) = (True, send_iperf_done (?t\<lparr>ts_control := Some s'\<rparr>))"
    and s': "tcp_rx s' = []" "tcp_out s' = out" "tx_ok (tcp_tx s')" by (auto simp: delivers_Nil)
  from control_byte_keeps_rx [OF s'(3), of IperfDone] s' obtain s2 where
    s2: "send_control_byte tcp_send IperfDone s' = (Inr (), s2)" "tcp_rx s2 = []" "tx_ok (tcp_tx s2)"
      "tcp_out s2 = out @ [message_code IperfDone]" by auto
  let ?x = "?t\<lparr>ts_control := Some s2\<rparr>"
  have "summary_lines ?x = summary_lines ?t" "report_lines env ?x server = report_lines env ?t server"
    by (rule lines_cong; simp)+
  with assms(1) s2 have x: "exchanged env server b rs (out @ [message_code IperfDone]) ?x"
    by (simp add: exchanged_def)
  then have "client_round (hear env es) st = (True, st\<lparr>cs_test := ?x\<rparr>)"
    using s2(1) by (simp add: client_round_def hear_def r send_iperf_done_def drain_nothing exchanged_def)
  with x show ?thesis by blast
qed

lemma expected_pos:
  assumes "unat (cf_parallel c) < 2 ^ 31"
  shows "0 < expected_streams c"
proof -
  have "0 < unat (expected_streams c)"
    using stream_count_pos [of c] by (simp add: expected_streams_unat [OF assms])
  then show ?thesis by (simp add: word_less_nat_alt)
qed

text \<open>From the first message to the last round.\<close>

lemma test_rounds:
  assumes "ready c (Some start) 0 out t" and "unat (cf_parallel c) < 2 ^ 31"
    and "enc_client_options env (client_options_sent env c) = Some obody" "length obody < 2 ^ 32"
    and "delivers e1 [message_code ParamExchange]" "delivers e2 [message_code CreateStreams]"
      "delivers e3 [message_code TestStart]" "delivers e4 [message_code TestRunning]"
    and "\<forall>w\<in>set ws. ct_net w = []" "stream_messages ws = replicate (unat (expected_streams c)) TestEnd"
    and "enc_client_results env (build_client_results (stream_receipts ws)
        (cpu_usage_between (ce_sysconf env) start (ce_cpu env) (session_or_zero (stream_receipts ws)))) = Some cbody"
      "length cbody < 2 ^ 32"
    and "dec_server_results env sbody = Some server" "length sbody \<le> MAX_JSON_FRAME_LEN"
      "delivers e5 (message_code ExchangeResults # frame sbody)" "delivers e6 [message_code DisplayResults]"
  shows "\<exists>b st. client_rounds (map (hear env) [e1, e2, e3, e4] @ ws @
      replicate (unat (expected_streams c)) (hear env []) @ map (hear env) [e5, e6]) (fresh t) = (True, st) \<and>
    ts_config b = c \<and> length (ts_jobs b) = unat (expected_streams c) \<and>
    exchanged env server b (stream_receipts ws)
      (out @ frame obody @ [message_code TestEnd] @ frame cbody @ [message_code IperfDone]) (cs_test st)"
proof -
  let ?n = "unat (expected_streams c)" and ?rs = "stream_receipts ws" and ?out = "out @ frame obody"
  note pos = expected_pos [OF assms(2)]
  have lt: "?n < 2 ^ 32" using unat_bound [of "expected_streams c"] by simp
  from setup_rounds [OF assms(1-8)] obtain b where
    b: "client_rounds (map (hear env) [e1, e2, e3, e4]) (fresh t) = (False, fresh b)"
      "ready c (Some start) ?n ?out b" by blast
  from b(2) have cb: "ts_config b = c" "ts_cpu_start b = Some start" "length (ts_jobs b) = ?n"
    by (simp_all add: ready_def)
  from waiting_rounds [of b, unfolded cb, OF pos ready_waiting [OF b(2) pos] assms(9,10)] lt obtain st1 k a where
    w: "client_rounds ws (fresh b) = (False, st1)" "k + a = ?n" "waiting b ?out ?rs k a st1" by auto
  from waiting_idle [of b, unfolded cb, OF pos w(3), of ?n env] w(2) lt obtain st2 where
    i: "client_rounds (replicate ?n (hear env [])) st1 = (False, st2)" "waiting b ?out ?rs ?n 0 st2" by auto
  from assms(11) have "enc_client_results env
      (build_client_results ?rs (client_cpu env (b\<lparr>ts_receipts := ?rs\<rparr>))) = Some cbody"
    by (simp add: client_cpu_def cb)
  from exchange_round [OF i(2) _ assms(15) this assms(12-14)] cb obtain t5 where
    t5: "client_round (hear env e5) st2 = (False, st2\<lparr>cs_test := t5\<rparr>)"
      "exchanged env server b ?rs (?out @ [message_code TestEnd] @ frame cbody) (cs_test (st2\<lparr>cs_test := t5\<rparr>))" by auto
  from display_round [OF t5(2) assms(16)] obtain t6 where
    t6: "client_round (hear env e6) (st2\<lparr>cs_test := t5\<rparr>) = (True, st2\<lparr>cs_test := t6\<rparr>)"
      "exchanged env server b ?rs ((?out @ [message_code TestEnd] @ frame cbody) @ [message_code IperfDone]) t6"
    by auto
  from b(1) w(1) i(1) t5(1) t6 cb show ?thesis
    unfolding client_rounds_append by (intro exI [of _ b] exI [of _ "st2\<lparr>cs_test := t6\<rparr>"]) simp
qed

lemma run_client_completes:
  assumes conn: "connect conn (generate_cookie sample) = Some s" "tcp_rx s = []" "tx_ok (tcp_tx s)"
    and par: "unat (cf_parallel c) < 2 ^ 31"
    and options: "enc_client_options env (client_options_sent env c) = Some obody" "length obody < 2 ^ 32"
    and start_up: "delivers e1 [message_code ParamExchange]" "delivers e2 [message_code CreateStreams]"
      "delivers e3 [message_code TestStart]" "delivers e4 [message_code TestRunning]"
    and streams: "\<forall>w\<in>set ws. ct_net w = []"
      "stream_messages ws = replicate (unat (expected_streams c)) TestEnd"
    and results: "enc_client_results env (build_client_results (stream_receipts ws)
        (cpu_usage_between (ce_sysconf env) start (ce_cpu env) (session_or_zero (stream_receipts ws)))) = Some cbody"
      "length cbody < 2 ^ 32"
    and server: "dec_server_results env sbody = Some server" "length sbody \<le> MAX_JSON_FRAME_LEN"
      "delivers e5 (message_code ExchangeResults # frame sbody)" "delivers e6 [message_code DisplayResults]"
  shows "\<exists>t s' pre. run_client c sample conn start
      (map (hear env) [e1, e2, e3, e4] @ ws @ replicate (unat (expected_streams c)) (hear env []) @
       map (hear env) [e5, e6]) = Finished t \<and>
    ts_config t = c \<and> ts_control t = Some s' \<and>
    tcp_out s' = tcp_out s @ frame obody @ [message_code TestEnd] @ frame cbody @ [message_code IperfDone] \<and>
    ts_receipts t = stream_receipts ws \<and> length (ts_jobs t) = unat (expected_streams c) \<and>
    ts_lines t = pre @ summary_lines t @ report_lines env t server @ (if cf_json c then [] else [DoneLine])"
proof -
  let ?n = "unat (expected_streams c)" and ?rs = "stream_receipts ws" and ?out = "tcp_out s @ frame obody"
  let ?t = "(print_lines (if cf_json c then [] else [ConnectingTo (cf_host c) (cf_port c)]) (test_new c sample))
    \<lparr>ts_control := Some s, ts_cpu_start := Some start\<rparr>"
  let ?cts = "map (hear env) [e1, e2, e3, e4] @ ws @ replicate ?n (hear env []) @ map (hear env) [e5, e6]"
  have "ready c (Some start) 0 (tcp_out s) ?t"
    using conn by (simp add: ready_def print_lines_def test_new_def)
  from test_rounds [OF this par options start_up streams results server] obtain b st where
    r: "client_rounds ?cts (fresh ?t) = (True, st)" "ts_config b = c" "length (ts_jobs b) = ?n"
      "exchanged env server b ?rs (?out @ [message_code TestEnd] @ frame cbody @ [message_code IperfDone]) (cs_test st)"
    by auto
  from r(1) conn(1) have run: "run_client c sample conn start ?cts =
      Finished (print_lines (if cf_json c then [] else [DoneLine]) (cs_test st))"
    by (simp add: run_client_def Let_def client_loop_def print_lines_def test_new_def)
  let ?f = "print_lines (if cf_json c then [] else [DoneLine]) (cs_test st)"
  have "summary_lines ?f = summary_lines (cs_test st)" "report_lines env ?f server = report_lines env (cs_test st) server"
    by (rule lines_cong; simp add: print_lines_def)+
  moreover from r(4) obtain s' where "ts_control (cs_test st) = Some s'"
    "tcp_out s' = ?out @ [message_code TestEnd] @ frame cbody @ [message_code IperfDone]"
    by (auto simp: exchanged_def)
  ultimately show ?thesis
    using r(2-4) run
    by (intro exI [of _ ?f] exI [of _ s'] exI [of _ "ts_lines b"])
      (simp add: exchanged_def, simp add: print_lines_def)
qed

section \<open>Properties\<close>

text \<open>The environment and the connection of the witnesses.\<close>

definition sample_client_env :: "unit client_env" where
  "sample_client_env = \<lparr>ce_parse = (\<lambda>_. Some (JObj (results_fields results_empty))), ce_print = (\<lambda>_. Some []),
     ce_fs = (\<lambda>_. None), ce_pkcs8 = (\<lambda>_. None), ce_pkcs1 = (\<lambda>_. None), ce_key_size = (\<lambda>_. 0),
     ce_encrypt = (\<lambda>_ _. None), ce_b64_encode = (\<lambda>_. []), ce_sha256 = (\<lambda>b. b), ce_prompt = Inl InvalidInput,
     ce_wall = None, ce_sysconf = 100, ce_cpu = \<lparr>cpu_user_ticks = 0, cpu_system_ticks = 0\<rparr>\<rparr>"

definition sample_conn :: tcp where
  "sample_conn = \<lparr>tcp_rx = [], tcp_tx = [], tcp_out = [], tcp_nonblocking = False, tcp_read_timeout = None,
     tcp_write_timeout = None, tcp_sockopts = []\<rparr>"

definition sample_turn :: "unit client_turn" where
  "sample_turn = (hear sample_client_env [])\<lparr>ct_post := ([client_receipt_empty 1], [TestEnd])\<rparr>"

text \<open>
  (C3) What the client says, over every run: whatever the server sends, whatever the kernel does with the
  client's writes and whatever the order in which the stream threads report, the bytes on the control connection
  are initial parts of a sequence of messages, and the whole messages when the kernel takes every write. In
  this sequence \<open>TestEnd\<close> occurs at most once, and only when as many stream threads as were started
  have reported their end; \<open>IperfDone\<close>, if it occurs, is the last one and ends the loop; and every options
  payload is the one of the configuration.
\<close>

theorem client_single_test_end:
  assumes "client_rounds cts \<lparr>cs_test = t, cs_finished = 0, cs_test_end_sent = False\<rparr> = (d, st)"
    and "ts_control t = Some s" and "\<forall>ct\<in>set cts. ce_print (ct_env ct) = pr"
  shows "\<exists>evs ps s'. ts_control (cs_test st) = Some s' \<and> tcp_out s' = tcp_out s @ concat ps \<and>
    list_all2 (\<lambda>p e. prefix p (sent_bytes pr e)) ps evs \<and>
    (tx_ok (tcp_tx s) \<longrightarrow> ps = map (sent_bytes pr) evs) \<and>
    count_list evs SentTestEnd \<le> 1 \<and>
    (SentTestEnd \<in> set evs \<longrightarrow>
       unat (expected_streams (ts_config t)) \<le> ends (ts_rx t) + ends (stream_messages cts)) \<and>
    (SentDone \<in> set evs \<longrightarrow> d \<and> (\<exists>pre. evs = pre @ [SentDone] \<and> SentDone \<notin> set pre)) \<and>
    (\<forall>p. SentOptions p \<in> set evs \<longrightarrow> (\<exists>ct\<in>set cts. p = client_options_sent (ct_env ct) (ts_config t)))"
proof -
  from assms(2) have "connected (cs_test (fresh t))" by (simp add: connected_def)
  from client_rounds_say [OF assms(3) this assms(1)] obtain evs k where
    e: "says pr evs t (cs_test st)" "counted (fresh t) k evs st" "well_ordered cts (ts_config t) d evs"
      "k \<le> ends (ts_rx t) + ends (stream_messages cts)" by auto
  have "unat (expected_streams (ts_config t)) \<le> ends (ts_rx t) + ends (stream_messages cts)"
    if end_sent: "SentTestEnd \<in> set evs"
  proof -
    from e(2) end_sent obtain j where "j \<le> k" "expected_streams (ts_config t) \<le> of_nat j"
      by (auto simp: counted_def)
    moreover have "unat (of_nat j :: u32) \<le> j" by (simp add: unat_of_nat)
    ultimately have "unat (expected_streams (ts_config t)) \<le> j" by (simp add: word_le_nat_alt)
    with \<open>j \<le> k\<close> e(4) show ?thesis by simp
  qed
  moreover have "count_list evs SentTestEnd \<le> 1" using e(2) by (simp add: counted_def)
  moreover from e(1) assms(2) obtain s' ps where
    "ts_control (cs_test st) = Some s'" "tcp_out s' = tcp_out s @ concat ps"
    "list_all2 (\<lambda>p e. prefix p (sent_bytes pr e)) ps evs" "tx_ok (tcp_tx s) \<longrightarrow> ps = map (sent_bytes pr) evs"
    by (auto simp: says_def)
  ultimately show ?thesis
    using e(3) unfolding well_ordered_def by (intro exI [of _ evs] exI [of _ ps] exI [of _ s']) simp
qed

theorem client_single_test_end_witness:
  "\<exists>st evs s'. client_rounds [sample_turn]
      \<lparr>cs_test = (test_new (with_host []) (\<lambda>_. 0))\<lparr>ts_control := Some sample_conn\<rparr>,
       cs_finished = 0, cs_test_end_sent = False\<rparr> = (False, st) \<and>
    ts_control (cs_test st) = Some s' \<and> tcp_out s' = [message_code TestEnd] \<and>
    tcp_out s' = concat (map (sent_bytes (\<lambda>_. Some [])) evs) \<and> count_list evs SentTestEnd \<le> 1"
proof -
  let ?t = "(test_new (with_host []) (\<lambda>_. 0))\<lparr>ts_control := Some sample_conn\<rparr>"
  obtain d st where r: "client_rounds [sample_turn] (fresh ?t) = (d, st)" by fastforce
  have e: "expected_streams (with_host []) = 1"
    by (simp add: expected_streams_def stream_count_def with_host_def direction_defs)
  have o: "\<not> d \<and> map_option tcp_out (ts_control (cs_test st)) = Some [message_code TestEnd]"
    using r
    by (auto simp: sample_turn_def hear_def client_round_def net_arrive_def arrive_def drain_receipts_def
        client_recv_def recv_control_byte_def read_exact.simps [of _ "Suc 0"] tcp_recv_def io_bind_def
        sample_conn_def test_new_def poll_streams_def Let_def e send_control_byte_def
        write_all.simps [of _ "[_]"] tcp_send_def)
  have "ts_control ?t = Some sample_conn" "\<forall>ct\<in>set [sample_turn]. ce_print (ct_env ct) = (\<lambda>_. Some [])"
    by (simp_all add: sample_conn_def sample_turn_def hear_def sample_client_env_def)
  from client_single_test_end [OF r this] obtain evs ps s' where
    "ts_control (cs_test st) = Some s'" "tcp_out s' = tcp_out sample_conn @ concat ps"
    "tx_ok (tcp_tx sample_conn) \<longrightarrow> ps = map (sent_bytes (\<lambda>_. Some [])) evs" "count_list evs SentTestEnd \<le> 1" by blast
  with r o show ?thesis by (intro exI [of _ st] exI [of _ evs] exI [of _ s']) (simp add: sample_conn_def)
qed

text \<open>
  (C2) The client finishes a test. The server sends its six messages and its results, in any number of
  pieces; between \<open>TestRunning\<close> and \<open>ExchangeResults\<close> the stream threads report their ends and their
  receipts, in any order and spread over any rounds. Then the client ends, having sent its options,
  one \<open>TestEnd\<close>, results that cover every receipt, and \<open>IperfDone\<close>; it has started exactly as many
  streams as it waited for, and it has printed the summary and the report of the server's results.
\<close>

theorem client_completes:
  assumes conn: "connect conn (generate_cookie sample) = Some s" "tcp_rx s = []" "tx_ok (tcp_tx s)"
    and par: "unat (cf_parallel c) < 2 ^ 31"
    and options: "enc_client_options env (client_options_sent env c) = Some obody" "length obody < 2 ^ 32"
    and start_up: "delivers e1 [message_code ParamExchange]" "delivers e2 [message_code CreateStreams]"
      "delivers e3 [message_code TestStart]" "delivers e4 [message_code TestRunning]"
    and streams: "\<forall>w\<in>set ws. ct_net w = []"
      "stream_messages ws = replicate (unat (expected_streams c)) TestEnd"
    and results: "enc_client_results env (build_client_results (stream_receipts ws)
        (cpu_usage_between (ce_sysconf env) start (ce_cpu env) (session_or_zero (stream_receipts ws)))) = Some cbody"
      "length cbody < 2 ^ 32"
    and server: "dec_server_results env sbody = Some server" "length sbody \<le> MAX_JSON_FRAME_LEN"
      "delivers e5 (message_code ExchangeResults # frame sbody)" "delivers e6 [message_code DisplayResults]"
  shows "\<exists>t s' pre. run_client c sample conn start
      (map (hear env) [e1, e2, e3, e4] @ ws @ replicate (unat (expected_streams c)) (hear env []) @
       map (hear env) [e5, e6]) = Finished t \<and>
    ts_config t = c \<and> ts_control t = Some s' \<and>
    tcp_out s' = tcp_out s @ frame obody @ [message_code TestEnd] @ frame cbody @ [message_code IperfDone] \<and>
    ts_receipts t = stream_receipts ws \<and> length (ts_jobs t) = unat (expected_streams c) \<and>
    ts_lines t = pre @ summary_lines t @ report_lines env t server @ (if cf_json c then [] else [DoneLine])"
  using assms by (rule run_client_completes)

theorem client_completes_witness:
  "\<exists>t s' pre. run_client (with_host []) (\<lambda>_. 0) (Inr sample_conn) \<lparr>cpu_user_ticks = 0, cpu_system_ticks = 0\<rparr>
      (map (hear sample_client_env) [[RxData [9]], [RxData [10]], [RxData [1]], [RxData [2]]] @ [sample_turn] @
       replicate (unat (expected_streams (with_host []))) (hear sample_client_env []) @
       map (hear sample_client_env) [[RxData [13], RxData [0, 0], RxData [0, 0]], [RxData [14]]]) = Finished t \<and>
    ts_config t = with_host [] \<and> ts_control t = Some s' \<and>
    tcp_out s' = tcp_out (sample_conn\<lparr>tcp_nonblocking := True, tcp_out := generate_cookie (\<lambda>_. 0)\<rparr>) @
      frame [] @ [message_code TestEnd] @ frame [] @ [message_code IperfDone] \<and>
    ts_receipts t = stream_receipts [sample_turn] \<and> length (ts_jobs t) = unat (expected_streams (with_host [])) \<and>
    ts_lines t = pre @ summary_lines t @ report_lines sample_client_env t results_empty @
      (if cf_json (with_host []) then [] else [DoneLine])"
proof (rule client_completes)
  have e: "expected_streams (with_host []) = 1"
    by (simp add: expected_streams_def stream_count_def with_host_def direction_defs)
  show "stream_messages [sample_turn] = replicate (unat (expected_streams (with_host []))) TestEnd"
    by (simp add: e stream_messages_def turn_messages_def sample_turn_def hear_def)
  show "delivers [RxData [13], RxData [0, 0], RxData [0, 0]] (message_code ExchangeResults # frame [])"
    by (simp add: delivers_def rx_closed_def frame_def u32_to_be_bytes_def nat_be_numeral)
  show "dec_server_results sample_client_env [] = Some results_empty"
    using results_json_parse [of results_empty] by (simp add: dec_server_results_def sample_client_env_def)
qed (simp_all add: delivers_def rx_closed_def connect_def new_tcp_def tcp_set_nonblocking_def send_cookie_def
    io_bind_def tcp_send_def sample_conn_def with_host_def enc_client_options_def enc_client_results_def
    sample_client_env_def sample_turn_def hear_def)

text \<open>
  (C33) The client does not notice that the server is gone: once the server has closed the control
  connection, after any messages the client does not act on, \<open>ServerError\<close> and \<open>ServerTerminate\<close> among
  them, the loop does not end, for any number of rounds and whatever the stream threads do.
\<close>

theorem client_never_gives_up:
  assumes "ts_control t = Some s"
    and "tcp_rx s = map (\<lambda>m. RxData [message_code m]) ms @ [RxData []]"
    and "\<forall>m\<in>set ms. m \<in> {TestEnd, ServerTerminate, ClientTerminate, ServerError}"
  shows "client_loop cts t = Unfinished"
proof -
  from assms(2,3) have "hangs_up ms s" by (auto simp: hangs_up_def ignored_def list_all_iff)
  with assms(1) have "deserted (cs_test (fresh t))" by (auto simp: deserted_def)
  from deserted_rounds [OF this, of cts] show ?thesis
    by (auto simp: client_loop_def split: prod.splits bool.splits)
qed

theorem client_never_gives_up_witness:
  "client_loop (replicate 100 sample_turn)
     ((test_new (with_host []) (\<lambda>_. 0))\<lparr>ts_control :=
        Some (sample_conn\<lparr>tcp_rx := [RxData [message_code ServerError], RxData []]\<rparr>)\<rparr>) = Unfinished"
  by (rule client_never_gives_up [of _ "sample_conn\<lparr>tcp_rx := [RxData [message_code ServerError], RxData []]\<rparr>"
        "[ServerError]"]) simp_all

end
