(* ===== verification/Omit_Report.thy ===== *)
theory Omit_Report
  imports Client_Properties
begin

text \<open>
  The two rates of the client's report when the first seconds of a test are omitted: the sender's bytes
  are those of the measured window, the receiver's are all bytes of the server's results, and both are
  divided by the length of the measured window.
\<close>

lemma unat_sum_list:
  fixes f :: "'a \<Rightarrow> 'w::len word"
  shows "(\<Sum>x\<leftarrow>xs. unat (f x)) < 2 ^ LENGTH('w) \<Longrightarrow> unat (\<Sum>x\<leftarrow>xs. f x) = (\<Sum>x\<leftarrow>xs. unat (f x))"
proof (induction xs)
  case (Cons x xs)
  then have "unat (\<Sum>x\<leftarrow>xs. f x) = (\<Sum>x\<leftarrow>xs. unat (f x))" by simp
  with Cons.prems show ?case by (simp add: unat_word_ariths(1))
qed simp

lemma measured_plus_omitted:
  assumes "(\<Sum>r\<leftarrow>rs. unat (cr_bytes_sent r)) < 2 ^ 64" and "\<forall>r\<in>set rs. cr_bytes_omit r \<le> cr_bytes_sent r"
  shows "unat (sum_list (map client_bytes_measured rs)) + (\<Sum>r\<leftarrow>rs. unat (cr_bytes_omit r)) =
    unat (sum_list (map cr_bytes_sent rs))"
proof -
  have s: "(\<Sum>r\<leftarrow>rs. unat (client_bytes_measured r)) + (\<Sum>r\<leftarrow>rs. unat (cr_bytes_omit r)) =
      (\<Sum>r\<leftarrow>rs. unat (cr_bytes_sent r))"
    using assms(2) by (induction rs) (auto simp: client_bytes_measured_def unat_saturating_sub word_le_nat_alt)
  then have "(\<Sum>r\<leftarrow>rs. unat (client_bytes_measured r)) < 2 ^ 64" using assms(1) by linarith
  with s assms(1) show ?thesis by (simp add: unat_sum_list)
qed

text \<open>
  (C31) The receiver's rate includes the omitted bytes. When all bytes arrive and part of them was sent in
  the omitted seconds, the JSON report of the client gives the receiver a higher rate than the sender,
  by the omitted bytes over the measured window, although it received no more than was sent.
\<close>

theorem omit_inflates_receiver:
  assumes "cf_json (ts_config t)" and "0 < cf_omit (ts_config t)"
    and "client_measured_duration (ts_receipts t) \<noteq> 0"
    and "(\<Sum>r\<leftarrow>ts_receipts t. unat (cr_bytes_sent r)) < 2 ^ 64"
    and "\<forall>r\<in>set (ts_receipts t). cr_bytes_omit r \<le> cr_bytes_sent r"
    and all: "sum_list (map sr_bytes (re_streams server)) = sum_list (map cr_bytes_sent (ts_receipts t))"
  shows "\<exists>j. report_lines env t server = [JsonReport j] \<and>
    js_bits_per_second (je_sum_received (jo_end j)) = js_bits_per_second (je_sum_sent (jo_end j)) +
      real (\<Sum>r\<leftarrow>ts_receipts t. unat (cr_bytes_omit r)) * 8 /
        max (as_secs_f64 (client_measured_duration (ts_receipts t))) (1 / 1000000)"
proof -
  let ?rs = "ts_receipts t"
  have "real (unat (sum_list (map cr_bytes_sent ?rs))) =
      real (unat (sum_list (map client_bytes_measured ?rs))) + real (\<Sum>r\<leftarrow>?rs. unat (cr_bytes_omit r))"
    using measured_plus_omitted [OF assms(4,5)] by linarith
  then show ?thesis
    using assms(1-3) all
    by (simp add: report_lines_def sender_summary_def Let_def json_report_def json_sum_new_def add_divide_distrib
        distrib_right)
qed

definition sample_omit_test :: test where
  "sample_omit_test = (test_new ((with_host [])\<lparr>cf_json := True, cf_omit := 1\<rparr>) (\<lambda>_. 0))
     \<lparr>ts_receipts := [(client_receipt_empty 1)\<lparr>cr_bytes_sent := 3000, cr_bytes_omit := 1000, cr_first_send_at := Some 0,
        cr_first_measured_at := Some (from_secs 1), cr_last_send_at := Some (from_secs 2)\<rparr>]\<rparr>"

theorem omit_inflates_receiver_witness:
  "\<exists>j. report_lines sample_client_env sample_omit_test (results_empty\<lparr>re_streams := [\<lparr>sr_id = 1, sr_bytes = 3000, sr_retransmits = 0,
      sr_jitter = 0, sr_errors = 0, sr_packets = 0\<rparr>]\<rparr>) = [JsonReport j] \<and>
    js_bits_per_second (je_sum_received (jo_end j)) = js_bits_per_second (je_sum_sent (jo_end j)) + 8000"
proof -
  have d: "client_measured_duration (ts_receipts sample_omit_test) = from_secs 1"
    by (simp add: client_measured_duration_def sample_omit_test_def min_of_def max_of_def span_def from_secs_def)
  then have s: "max (as_secs_f64 (client_measured_duration (ts_receipts sample_omit_test))) (1 / 1000000) = 1"
    by (simp add: as_secs_f64_def from_secs_def)
  show ?thesis
    using omit_inflates_receiver [of sample_omit_test "results_empty\<lparr>re_streams := [\<lparr>sr_id = 1, sr_bytes = 3000,
      sr_retransmits = 0, sr_jitter = 0, sr_errors = 0, sr_packets = 0\<rparr>]\<rparr>" sample_client_env] d unfolding s
    by (simp add: sample_omit_test_def test_new_def with_host_def from_secs_def word_le_nat_alt)
qed

end
