(* ===== verification/Tcp_End_To_End.thy ===== *)
theory Tcp_End_To_End
  imports Server_Protocol
begin

text \<open>
  A TCP stream seen from both ends: the stream thread of the client (\<open>Stream::start\<close>,
  \<open>Stream::start_recv\<close>) and the thread of the server that reads or fills the same connection
  (\<open>recv_stream_bytes\<close>, \<open>run_tcp_send_streams\<close>).
\<close>

section \<open>Rows of a sender\<close>

context byte_meter
begin

lemma meter_tick_reporter: "mt_reporter (meter_tick tick om n t m) = None \<longleftrightarrow> mt_reporter m = None"
  by (auto simp: meter_tick_def report_bytes_def split: option.splits prod.splits)

lemma send_loop_rows:
  assumes "tcp_send_loop total tick timer dur om len mb bl ts s m = Finished (m', s')" and "rows_ok m"
  shows "rows_ok m' \<and> (mt_reporter m' = None \<longleftrightarrow> mt_reporter m = None)"
  using assms
proof (induction ts arbitrary: s m)
  case (Cons t ts)
  obtain r s1 where r: "tcp_send (build_payload len) s = (r, s1)" by fastforce
  show ?case
  proof (cases "m' = m")
    case True
    with Cons.prems(2) show ?thesis by simp
  next
    case False
    show ?thesis
    proof (cases "\<exists>n. r = Inr n \<and> 0 < n")
      case True
      then obtain n where n: "r = Inr n" "0 < n" by blast
      then have "tcp_send_loop total tick timer dur om len mb bl ts s1 (meter_tick tick om n (st_sent t) m) = Finished (m', s')"
        using Cons.prems(1) False r by (auto split: if_splits)
      from Cons.IH [OF this meter_tick_rows [OF Cons.prems(2)]] show ?thesis by (simp add: meter_tick_reporter)
    next
      case no: False
      then have "tcp_send_loop total tick timer dur om len mb bl ts s1 m = Finished (m', s')"
        using Cons.prems(1) False r by (cases r) (auto split: if_splits)
      from Cons.IH [OF this Cons.prems(2)] show ?thesis .
    qed
  qed
qed simp

end

section \<open>The client's ends of a stream\<close>

lemma client_meter_init:
  "client_meter.rows_ok \<lparr>mt_receipt = client_receipt_empty sid, mt_reporter = reporter_for json sid, mt_rows = []\<rparr>"
  by (auto simp: client_meter.rows_ok_def reporter_for_def reporter_new_inv client_receipt_empty_def)
    (simp add: reporter_new_def)

text \<open>What a sending stream has put on the wire, and what it reports.\<close>

lemma stream_start_counts:
  assumes "stream_start c cookie sid conn t0 turns retr = Finished (f, Some s')" and "connect conn cookie = Some s"
  shows "\<exists>k. tcp_out s' = tcp_out s @ replicate k 1 \<and> cr_bytes_sent (sf_receipt f) = of_nat k \<and>
    sf_message f = TestEnd \<and> (\<not> cf_json c \<longrightarrow> (\<Sum>row\<leftarrow>sf_rows f. is_bytes row) = of_nat k)"
proof -
  let ?s = "snd (tcp_apply_tuning (tuning_of_config c) (snd (tcp_set_nonblocking False s)))"
  let ?m = "\<lparr>mt_receipt = client_receipt_empty sid, mt_reporter = reporter_for (cf_json c) sid, mt_rows = []\<rparr>"
  from assms obtain m where run: "tcp_send_loop cr_bytes_sent client_tick (timer_new t0)
      (stream_duration (cf_time c) (cf_omit c)) (from_secs (unat (cf_omit c)))
      (unat (cf_len c)) (cf_total_bytes c) (cf_total_blocks c) turns ?s ?m = Finished (m, s')"
    and f: "f = emit_stream_finished ((mt_receipt m)\<lparr>cr_retransmits := (case retr of Inl _ \<Rightarrow> 0 | Inr n \<Rightarrow> n)\<rparr>)
      (mt_rows (meter_flush cr_last_send_at m))"
    by (auto simp: stream_start_def Let_def split: run.splits)
  have z: "tcp_out ?s = tcp_out s" "cr_bytes_sent (mt_receipt ?m) = 0"
    by (simp_all add: tcp_apply_tuning_def tcp_set_nonblocking_def client_receipt_empty_def)
  from client_meter.send_loop_counts [OF run] z obtain k where
    k: "tcp_out s' = tcp_out s @ replicate k 1" "cr_bytes_sent (mt_receipt m) = of_nat k" by auto
  note ok = client_meter.send_loop_rows [OF run client_meter_init]
  have "(\<Sum>row\<leftarrow>sf_rows f. is_bytes row) = of_nat k" if "\<not> cf_json c"
  proof -
    from ok that obtain rep where "mt_reporter m = Some rep" by (auto simp: reporter_for_def)
    with ok k(2) show ?thesis by (simp add: f emit_stream_finished_def client_meter.flush_rows)
  qed
  with k show ?thesis by (auto simp: f emit_stream_finished_def)
qed

lemma stream_start_ends:
  assumes "connect conn cookie = Some s" and "0 < unat (cf_len c)" and "t \<in> set turns"
    and "stream_duration (cf_time c) (cf_omit c) \<le> st_head t - t0"
  shows "\<exists>f s'. stream_start c cookie sid conn t0 turns retr = Finished (f, Some s')"
proof -
  from assms(3) obtain pre post where ts: "turns = pre @ t # post" by (meson split_list)
  have stop: "should_stop (timer_new t0) (st_head t) (stream_duration (cf_time c) (cf_omit c))"
    using assms(4)
    by (simp add: should_stop_def timer_is_elapsed_def timer_elapsed_def timer_new_def duration_since_def)
  obtain m' s' where "tcp_send_loop cr_bytes_sent client_tick (timer_new t0)
      (stream_duration (cf_time c) (cf_omit c)) (from_secs (unat (cf_omit c)))
      (unat (cf_len c)) (cf_total_bytes c) (cf_total_blocks c) turns
      (snd (tcp_apply_tuning (tuning_of_config c) (snd (tcp_set_nonblocking False s))))
      \<lparr>mt_receipt = client_receipt_empty sid, mt_reporter = reporter_for (cf_json c) sid, mt_rows = []\<rparr> =
      Finished (m', s')"
    using client_meter.send_loop_ends [OF stop assms(2)] unfolding ts by blast
  with assms(1) show ?thesis by (simp add: stream_start_def Let_def)
qed

text \<open>A receiving stream counts what it read: everything, unless its timer ends it before.\<close>

lemma start_recv_loop_bytes:
  assumes "rx_ok (tcp_rx s)" and "0 < buf"
  shows "\<exists>j\<le>length (rx_bytes (tcp_rx s)).
    cr_bytes_sent (mt_receipt (start_recv_loop dur om timer buf clk i s m)) = cr_bytes_sent (mt_receipt m) + of_nat j \<and>
    ((\<forall>i. \<not> should_stop timer (clk i) dur) \<longrightarrow> j = length (rx_bytes (tcp_rx s)))"
  using assms
proof (induction dur om timer buf clk i s m rule: start_recv_loop.induct)
  case (1 dur om timer buf clk i s m)
  show ?case
  proof (cases "should_stop timer (clk i) dur")
    case True
    then show ?thesis by (intro exI [of _ 0]) (auto simp: start_recv_loop.simps [of dur om timer buf clk i s])
  next
    case go: False
    show ?thesis
    proof (cases "rx_bytes (tcp_rx s) = []")
      case True
      from rx_ok_pending_Nil [OF "1.prems"(1) True] True go show ?thesis
        by (subst start_recv_loop.simps) (auto simp: tcp_recv_def)
    next
      case False
      from tcp_recv_chunk [OF "1.prems" False] obtain d s' where
        d: "tcp_recv buf s = (Inr d, s')" "d \<noteq> []" "rx_bytes (tcp_rx s) = d @ rx_bytes (tcp_rx s')"
          "rx_ok (tcp_rx s')" by blast
      let ?m = "meter_tick client_tick om (length d) (clk (i + 1)) m"
      have step: "start_recv_loop dur om timer buf clk i s m = start_recv_loop dur om timer buf clk (i + 2) s' ?m"
        using d(1,2) go by (simp add: start_recv_loop.simps [of dur om timer buf clk i s])
      from "1.IH"(2) [OF go d(1) [symmetric] refl d(2,4) "1.prems"(2)] obtain j where
        "j \<le> length (rx_bytes (tcp_rx s'))"
        "cr_bytes_sent (mt_receipt (start_recv_loop dur om timer buf clk (i + 2) s' ?m)) =
          cr_bytes_sent (mt_receipt ?m) + of_nat j"
        "(\<forall>i. \<not> should_stop timer (clk i) dur) \<longrightarrow> j = length (rx_bytes (tcp_rx s'))" by blast
      with d(3) show ?thesis
        by (intro exI [of _ "length d + j"]) (simp add: step client_meter.tick_total)
    qed
  qed
qed

lemma start_recv_loop_rows:
  "client_meter.rows_ok m \<Longrightarrow> client_meter.rows_ok (start_recv_loop dur om timer buf clk i s m) \<and>
     (mt_reporter (start_recv_loop dur om timer buf clk i s m) = None \<longleftrightarrow> mt_reporter m = None)"
proof (induction dur om timer buf clk i s m rule: start_recv_loop.induct)
  case (1 dur om timer buf clk i s m)
  note unroll = start_recv_loop.simps [of dur om timer buf clk i s]
  obtain r s' where r: "tcp_recv buf s = (r, s')" by fastforce
  show ?case
  proof (cases "should_stop timer (clk i) dur")
    case True
    with "1.prems" show ?thesis by (simp add: unroll)
  next
    case go: False
    show ?thesis
    proof (cases r)
      case (Inl k)
      with "1.IH"(1) [OF go r [symmetric] Inl _ "1.prems"] "1.prems" r go show ?thesis by (simp add: unroll)
    next
      case (Inr d)
      with "1.IH"(2) [OF go r [symmetric] Inr _ client_meter.meter_tick_rows [OF "1.prems"]] "1.prems" r go
      show ?thesis by (simp add: unroll client_meter.meter_tick_reporter)
    qed
  qed
qed

text \<open>The server's sending thread reports what the kernel took.\<close>

lemma tcp_send_stream_counts:
  assumes "tcp_send_stream opts sid t0 turns s = Finished (m, s')"
  shows "\<exists>k. tcp_out s' = tcp_out s @ replicate k 1 \<and> rc_bytes (mt_receipt m) = of_nat k"
proof -
  have "tcp_out (snd (tcp_apply_tuning q (snd (tcp_set_nonblocking False s)))) = tcp_out s" for q
    by (simp add: tcp_apply_tuning_def tcp_set_nonblocking_def)
  with server_meter.send_loop_counts [OF assms [unfolded tcp_send_stream_def Let_def]] show ?thesis
    by (simp add: stream_receipt_empty_def)
qed

section \<open>Properties\<close>

text \<open>
  (C9) What is sent is what is counted. A sending stream of the client ends once a round finds its time
  over; it has then written its cookie and \<open>k\<close> bytes of payload, and both its receipt and its interval
  rows report \<open>k\<close>. A server that is brought those bytes, in any pieces, accepts the stream by its cookie,
  and the receipt and the interval rows of its reader report the same \<open>k\<close>.
\<close>

theorem tcp_stream_end_to_end:
  assumes conn: "connect conn cookie = Some s" "tcp_out s = cookie" "length cookie = COOKIE_LEN"
    and len: "0 < unat (cf_len c)"
    and over: "t \<in> set turns" "stream_duration (cf_time c) (cf_omit c) \<le> st_head t - t0"
    and timeout: "timeout \<noteq> Some 0"
  shows "\<exists>f s' k. stream_start c cookie sid conn t0 turns retr = Finished (f, Some s') \<and>
    tcp_out s' = cookie @ replicate k 1 \<and> sf_message f = TestEnd \<and>
    cr_bytes_sent (sf_receipt f) = of_nat k \<and> (\<not> cf_json c \<longrightarrow> (\<Sum>row\<leftarrow>sf_rows f. is_bytes row) = of_nat k) \<and>
    (\<forall>l d omit clk sid' iv. l 0 = Inr d \<longrightarrow> tcp.chan (tcp_out s') [] d \<longrightarrow>
      (\<exists>d' l'. accept_stream cookie timeout l = (Inr d', l') \<and>
        rc_bytes (mt_receipt (recv_stream_bytes omit clk d' (Some (reporter_new sid' iv)))) = of_nat k \<and>
        (\<Sum>row\<leftarrow>mt_rows (recv_stream_bytes omit clk d' (Some (reporter_new sid' iv))). is_bytes row) = of_nat k))"
proof -
  from stream_start_ends [OF conn(1) len over] obtain f s' where
    run: "stream_start c cookie sid conn t0 turns retr = Finished (f, Some s')" by blast
  from stream_start_counts [OF run conn(1)] conn(2) obtain k where
    k: "tcp_out s' = cookie @ replicate k 1" "cr_bytes_sent (sf_receipt f) = of_nat k" "sf_message f = TestEnd"
      "\<not> cf_json c \<longrightarrow> (\<Sum>row\<leftarrow>sf_rows f. is_bytes row) = of_nat k" by auto
  have "\<exists>d' l'. accept_stream cookie timeout l = (Inr d', l') \<and>
      rc_bytes (mt_receipt (recv_stream_bytes omit clk d' (Some (reporter_new sid' iv)))) = of_nat k \<and>
      (\<Sum>row\<leftarrow>mt_rows (recv_stream_bytes omit clk d' (Some (reporter_new sid' iv))). is_bytes row) = of_nat k"
    if l: "l 0 = Inr d" "tcp.chan (tcp_out s') [] d" for l d omit clk sid' iv
  proof -
    from l(2) have "tcp.chan (cookie @ replicate k 1) [] d" by (simp add: k(1))
    from accept_stream_ok [where inp = "replicate k 1" and cookie = cookie and l = l, OF l(1) this conn(3) timeout] obtain d' where
      "accept_stream cookie timeout l = (Inr d', \<lambda>i. l (Suc i))" "tcp.chan (replicate k 1) [] d'" by blast
    with recv_stream_bytes_exact [of d' omit clk sid' iv] show ?thesis by (auto simp: tcp.chan_def)
  qed
  with run k show ?thesis by blast
qed

theorem tcp_stream_end_to_end_witness:
  "\<exists>f s' k. stream_start (with_host []) (generate_cookie (\<lambda>_. 0)) 1 (Inr ((sample_tcp [])\<lparr>tcp_tx := []\<rparr>)) 0
      [sample_turn 5, sample_turn (from_secs 10)] (Inr 0) = Finished (f, Some s') \<and>
    tcp_out s' = generate_cookie (\<lambda>_. 0) @ replicate k 1 \<and> cr_bytes_sent (sf_receipt f) = of_nat k"
proof -
  let ?cookie = "generate_cookie (\<lambda>_. 0)"
  have "connect (Inr ((sample_tcp [])\<lparr>tcp_tx := []\<rparr>)) ?cookie = Some ((sample_tcp [])\<lparr>tcp_tx := [], tcp_nonblocking := True, tcp_out := ?cookie\<rparr>)"
    by (simp add: connect_def new_tcp_def tcp_set_nonblocking_def send_cookie_def io_bind_def tcp_send_def sample_tcp_def)
  from tcp_stream_end_to_end [OF this, of "with_host []" "sample_turn (from_secs 10)"
      "[sample_turn 5, sample_turn (from_secs 10)]" 0 "Some 5" 1 "Inr 0"]
  obtain f s' k where "stream_start (with_host []) ?cookie 1 (Inr ((sample_tcp [])\<lparr>tcp_tx := []\<rparr>)) 0
      [sample_turn 5, sample_turn (from_secs 10)] (Inr 0) = Finished (f, Some s')"
    "tcp_out s' = ?cookie @ replicate k 1" "cr_bytes_sent (sf_receipt f) = of_nat k"
    by (auto simp: with_host_def DEFAULT_TCP_LEN_def sample_turn_def stream_duration_def from_secs_def)
  then show ?thesis by blast
qed

text \<open>
  (C10) The reverse direction. The server's sending thread has filled the connection with \<open>k\<close> bytes and reports
  \<open>k\<close>. The client's receiving stream, brought those bytes in any pieces, reports in its receipt and its
  interval rows the number \<open>j\<close> it has read: at most \<open>k\<close>, and \<open>k\<close> unless its own timer, which runs since the
  connection was asked for, ended it before.
\<close>

theorem tcp_reverse_stream_end_to_end:
  assumes server: "tcp_send_stream opts sid t0 turns d = Finished (m, d')" "tcp_out d = []"
    and client: "connect conn cookie = Some s" "rx_ok (tcp_rx s)" "rx_bytes (tcp_rx s) = tcp_out d'"
  shows "\<exists>j k. tcp_out d' = replicate k 1 \<and> rc_bytes (mt_receipt m) = of_nat k \<and> j \<le> k \<and>
    cr_bytes_sent (sf_receipt (stream_start_recv c cookie sid' conn t1 clk)) = of_nat j \<and>
    (\<not> cf_json c \<longrightarrow> (\<Sum>row\<leftarrow>sf_rows (stream_start_recv c cookie sid' conn t1 clk). is_bytes row) = of_nat j) \<and>
    ((\<forall>i. \<not> should_stop (timer_new t1) (clk i) (stream_duration (cf_time c) (cf_omit c))) \<longrightarrow> j = k)"
proof -
  obtain k where k: "tcp_out d' = replicate k 1" "rc_bytes (mt_receipt m) = of_nat k"
    using tcp_send_stream_counts [OF server(1)] server(2) by auto
  let ?s = "snd (tcp_apply_tuning (tuning_of_config c) (snd (tcp_set_nonblocking False s)))"
  let ?i = "\<lparr>mt_receipt = client_receipt_empty sid', mt_reporter = reporter_for (cf_json c) sid', mt_rows = []\<rparr>"
  let ?m = "start_recv_loop (stream_duration (cf_time c) (cf_omit c)) (from_secs (unat (cf_omit c)))
    (timer_new t1) (max (unat (cf_len c)) 65536) clk 0 ?s ?i"
  have f: "stream_start_recv c cookie sid' conn t1 clk =
      emit_stream_finished (mt_receipt ?m) (mt_rows (meter_flush cr_last_send_at ?m))"
    by (simp add: stream_start_recv_def client(1) Let_def)
  have s: "tcp_rx ?s = tcp_rx s" "cr_bytes_sent (mt_receipt ?i) = 0"
    by (simp_all add: tcp_apply_tuning_def tcp_set_nonblocking_def client_receipt_empty_def)
  have "rx_ok (tcp_rx ?s)" "0 < max (unat (cf_len c)) 65536" using client(2) s by simp_all
  from start_recv_loop_bytes [OF this] s client(3) k(1) obtain j where
    j: "j \<le> k" "cr_bytes_sent (mt_receipt ?m) = of_nat j"
      "(\<forall>i. \<not> should_stop (timer_new t1) (clk i) (stream_duration (cf_time c) (cf_omit c))) \<longrightarrow> j = k"
    by (metis add_0 length_replicate)
  have ok: "client_meter.rows_ok ?m" "mt_reporter ?m = None \<longleftrightarrow> mt_reporter ?i = None"
    using start_recv_loop_rows [OF client_meter_init] by blast+
  have "(\<Sum>row\<leftarrow>mt_rows (meter_flush cr_last_send_at ?m). is_bytes row) = of_nat j" if "\<not> cf_json c"
  proof -
    have "mt_reporter ?i \<noteq> None" using that by (simp add: reporter_for_def)
    then have "mt_reporter ?m \<noteq> None" unfolding ok(2) .
    with ok(1) j(2) client_meter.flush_rows [of ?m] show ?thesis by auto
  qed
  with j k show ?thesis by (auto simp: f emit_stream_finished_def)
qed

text \<open>A limit of five bytes, taken as three and two.\<close>

lemma sample_sender:
  "\<exists>m d'. tcp_send_stream sample_send_opts 1 0 (map sample_turn [1, 3, 5]) (sample_tcp []) = Finished (m, d') \<and> tcp_out d' = replicate 3 1 @ replicate 2 1"
  by (simp add: tcp_send_stream_def sample_send_opts_def tcp_defaults_def sample_turn_def sample_tcp_def Let_def
      stream_duration_def from_secs_def should_stop_def timer_is_elapsed_def timer_elapsed_def timer_new_def
      duration_since_def tcp_set_nonblocking_def tcp_apply_tuning_def tcp_send_def build_payload_def
      server_meter.tick_total stream_receipt_empty_def)

theorem tcp_reverse_stream_end_to_end_witness:
  "cr_bytes_sent (sf_receipt (stream_start_recv (with_host []) [7] 1
      (Inr ((sample_tcp [RxData [1, 1, 1, 1], RxData [1], RxData []])\<lparr>tcp_tx := []\<rparr>)) 0 (\<lambda>_. 5))) = 5"
proof -
  let ?c = "(sample_tcp [RxData [1, 1, 1, 1], RxData [1], RxData []])\<lparr>tcp_tx := []\<rparr>"
  from sample_sender obtain m d' where
    d: "tcp_send_stream sample_send_opts 1 0 (map sample_turn [1, 3, 5]) (sample_tcp []) = Finished (m, d')" "tcp_out d' = replicate 3 1 @ replicate 2 1" by blast
  then have out: "tcp_out d' = [1, 1, 1, 1, 1]" by (simp add: numeral_eq_Suc)
  have c: "connect (Inr ?c) [7] = Some (?c\<lparr>tcp_nonblocking := True, tcp_out := [7]\<rparr>)"
    by (simp add: connect_def new_tcp_def tcp_set_nonblocking_def send_cookie_def io_bind_def tcp_send_def sample_tcp_def)
  have t: "\<not> should_stop (timer_new 0) 5 (stream_duration (cf_time (with_host [])) (cf_omit (with_host [])))"
    by (simp add: should_stop_def timer_is_elapsed_def timer_elapsed_def timer_new_def duration_since_def
        stream_duration_def with_host_def from_secs_def)
  have o: "tcp_out (sample_tcp []) = []"
    "rx_ok (tcp_rx (?c\<lparr>tcp_nonblocking := True, tcp_out := [7]\<rparr>))"
    "rx_bytes (tcp_rx (?c\<lparr>tcp_nonblocking := True, tcp_out := [7]\<rparr>)) = tcp_out d'"
    by (simp_all add: sample_tcp_def out)
  from tcp_reverse_stream_end_to_end [OF d(1) o(1) c o(2,3), of "with_host []" 1 0 "\<lambda>_. 5"] t out
  obtain k where "replicate k (1 :: u8) = [1, 1, 1, 1, 1]"
    "cr_bytes_sent (sf_receipt (stream_start_recv (with_host []) [7] 1 (Inr ?c) 0 (\<lambda>_. 5))) = of_nat k" by auto
  moreover from this(1) have "k = length [1 :: u8, 1, 1, 1, 1]" by (metis length_replicate)
  ultimately show ?thesis by simp
qed

end
