(* ===== verification/Udp_End_To_End.thy ===== *)
theory Udp_End_To_End
  imports Streams "HOL-Library.Multiset"
begin

text \<open>
  A UDP test seen from both ends: the packets of the client's stream thread
  (\<open>Stream::start_udp\<close>), a network that loses and reorders them, and the receipt of the server's
  receiver (\<open>run_udp_receiver\<close>); and who can register as a sender.
\<close>

section \<open>Packets that are missing\<close>

lemma late_0_sorted: "late m js = 0 \<Longrightarrow> sorted js \<and> (\<forall>j\<in>set js. m < int j)"
  by (induction m js rule: late.induct) (force split: if_splits)+

lemma late_upt: "late (int a - 1) [a..<b] = 0"
proof (induction "b - a" arbitrary: a)
  case (Suc n)
  then have "late (int (Suc a) - 1) [Suc a..<b] = 0" by (intro Suc(1)) simp
  with Suc(2) show ?case by (simp add: upt_conv_Cons)
qed simp

text \<open>The packets below the highest one received that never came.\<close>

definition missing :: "nat list \<Rightarrow> nat set" where
  "missing js = {i. i < nat (highest (- 1) js + 1)} - set js"

lemma missing_card:
  assumes "distinct js"
  shows "card (missing js) + length js = nat (highest (- 1) js + 1)"
proof -
  have "set js \<subseteq> {i. i < nat (highest (- 1) js + 1)}"
    using highest_Max [of js "- 1"] Max_ge [of "set js"] by (cases "js = []") (auto simp: nat_add_distrib less_Suc_eq_le)
  moreover from this have "length js \<le> nat (highest (- 1) js + 1)"
    using card_mono [of "{i. i < nat (highest (- 1) js + 1)}" "set js"] assms by (simp add: distinct_card)
  ultimately show ?thesis using assms by (simp add: missing_def card_Diff_subset distinct_card)
qed

lemma no_loss_iff:
  assumes "distinct js"
  shows "late (- 1) js + card (missing js) = 0 \<longleftrightarrow> js = [0..<length js]"
proof
  assume "late (- 1) js + card (missing js) = 0"
  then have s: "sorted js" and m: "card (missing js) = 0" using late_0_sorted [of "- 1" js] by simp_all
  let ?h = "nat (highest (- 1) js + 1)"
  have "missing js = {}" using m by (simp add: missing_def)
  then have "{i. i < ?h} \<subseteq> set js" by (auto simp: missing_def)
  moreover have "card (set js) = ?h" using missing_card [OF assms] m assms by (simp add: distinct_card)
  ultimately have "set js = {i. i < ?h}" by (metis card_Collect_less_nat card_subset_eq List.finite_set)
  then have "js = sorted_list_of_set {0..<?h}"
    using s assms sorted_list_of_set.idem_if_sorted_distinct [of js] by (simp add: atLeast0LessThan lessThan_def)
  then show "js = [0..<length js]" using missing_card [OF assms] m by simp
next
  assume js: "js = [0..<length js]"
  have "late (- 1) [0..<length js] = 0" using late_upt [of 0 "length js"] by simp
  then have l: "late (- 1) js = 0" using js by simp
  have "nat (highest (- 1) js + 1) \<le> length js"
  proof (cases "js = []")
    case False
    then have "Max (set js) < length js" using js Max_in [of "set js"] by (metis List.finite_set atLeastLessThan_iff set_empty set_upt)
    then have "int (Max (set js)) + 1 \<le> int (length js)" by linarith
    with highest_Max [OF False, of "- 1"] show ?thesis by (simp only: nat_le_iff)
  qed simp
  with missing_card [OF assms] l show "late (- 1) js + card (missing js) = 0" by simp
qed

lemma udp_losses:
  assumes "length ps < 2 ^ 64" and "distinct (seqs ps)"
  shows "unat (rc_lost (ss_receipt (udp_packets om ps stream_state_new))) =
    late (- 1) (seqs ps) + card (missing (seqs ps))"
proof -
  let ?st = "udp_packets om ps stream_state_new"
  have l: "length (filter is_data (map fst ps)) = length (seqs ps)" by (simp add: seqs_def)
  then have k: "length (seqs ps) < 2 ^ 64"
    using assms(1) length_filter_le [of is_data "map fst ps"] by (simp only: length_map)
  from udp_packets_count [OF udp_count_new, of ps om] k l
  have c: "unat (rc_lost (ss_receipt ?st)) + length (seqs ps) =
      unat (rc_ooo (ss_receipt ?st)) + nat (sint (ss_max_seq ?st) + 1)"
    by (simp add: udp_count_def seq_inv_def)
  have "unat (rc_ooo (ss_receipt stream_state_new)) + length ps < 2 ^ 64"
    using assms(1) by (simp add: stream_state_new_def stream_receipt_empty_def)
  note t = udp_packets_track [OF this, of om]
  have n: "sint (ss_max_seq stream_state_new) = - 1" "unat (rc_ooo (ss_receipt stream_state_new)) = 0"
    by (simp_all add: stream_state_new_def stream_receipt_empty_def)
  from c missing_card [OF assms(2)] show ?thesis unfolding t n by simp
qed

section \<open>What the sender sends\<close>

lemma seq_packet_data:
  assumes "seq_packet len i d" and "i < 2 ^ 63"
  shows "is_data d \<and> nat (dgram_seq d) = i \<and> length d = len"
proof -
  have "sint (of_nat i :: i64) = sint (word_of_int (int i) :: i64)" by simp
  also have "\<dots> = signed_take_bit 63 (int i)" by (subst sint_sbintrunc') simp
  also have "\<dots> = int i" using assms(2) by (intro signed_take_bit_int_eq_self) simp_all
  finally show ?thesis using assms(1) by (auto simp: seq_packet_def is_data_def is_sentinel_def dgram_seq_def)
qed

lemma start_udp_sends:
  assumes "stream_start_udp c cookie sid peer (Inr sock) (Inr ()) t0 t1 turns fin = Finished (f, Some sock')"
    and "us_tx sock = []" and "16 \<le> unat (cf_len c)"
  shows "\<exists>ds sentinel. us_out sock' = us_out sock @ map (\<lambda>d. (d, peer)) (cookie # ds @ [sentinel]) \<and>
    (\<forall>i<length ds. seq_packet (unat (cf_len c)) i (ds ! i)) \<and> \<not> is_data sentinel \<and>
    cr_bytes_sent (sf_receipt f) = of_nat (unat (cf_len c) * length ds)"
proof -
  let ?len = "unat (cf_len c)"
  define sock1 where "sock1 = sock\<lparr>us_out := us_out sock @ [(cookie, peer)]\<rparr>"
  have s1: "udp_send_to cookie peer sock = (Inr (length cookie), sock1)" "us_tx sock1 = []"
    using assms(2) by (simp_all add: udp_send_to_ok sock1_def)
  from assms(1,3) s1(1) obtain u where
    run: "udp_send_loop cr_bytes_sent client_udp_tick (timer_new t0)
        (stream_duration (cf_time c) (cf_omit c)) (from_secs (unat (cf_omit c))) ?len
        (cf_total_bytes c) (cf_total_blocks c) peer turns
        \<lparr>up_meter = \<lparr>mt_receipt = client_receipt_empty sid, mt_reporter = None, mt_rows = []\<rparr>,
         up_bucket = bucket_new (cf_bandwidth c) t1, up_seq = 0, up_packet = replicate ?len 1, up_sock = sock1\<rparr> = Finished u"
    and f: "f = emit_stream_finished (mt_receipt (up_meter u)) []"
    and s': "sock' = send_sentinel (fst fin) (snd fin) peer (up_sock u)"
    by (auto simp: stream_start_udp_def Let_def UDP_HEADER_LEN_def split: run.splits)
  from udp_send_loop_sequence [OF run assms(3), of 0] s1(2) obtain ds where
    ds: "us_out (up_sock u) = us_out sock1 @ map (\<lambda>d. (d, peer)) ds" "us_tx (up_sock u) = []"
        "\<forall>i<length ds. seq_packet ?len i (ds ! i)"
        "cr_bytes_sent (mt_receipt (up_meter u)) = cr_bytes_sent (client_receipt_empty sid) + of_nat (?len * length ds)"
    by (auto simp: client_udp_meter.tick_total)
  let ?h = "stamped (fst fin) (snd fin) (- 1)"
  obtain pkt where p: "udp_encode ?h (replicate UDP_HEADER_LEN 0) = Inr pkt" "udp_decode pkt = Inr ?h" "length pkt = 16"
    using udp_decode_encode [of "uh_tv_sec ?h" "uh_tv_usec ?h" "uh_seq ?h" "[]"]
    by (simp add: udp_encode_def UDP_HEADER_LEN_def)
  have "us_out sock' = us_out (up_sock u) @ [(pkt, peer)]"
    by (simp add: s' send_sentinel_def p udp_send_to_ok [OF ds(2)])
  moreover have "\<not> is_data pkt" using p(2,3) by (simp add: is_data_def is_sentinel_def stamped_def UDP_HEADER_LEN_def)
  ultimately show ?thesis
    using ds by (intro exI [of _ ds] exI [of _ pkt])
      (simp add: sock1_def f emit_stream_finished_def client_receipt_empty_def)
qed

section \<open>What the network may do\<close>

lemma distinct_submset:
  assumes "mset xs \<subseteq># mset ys" and "distinct ys"
  shows "distinct xs"
proof -
  from assms(1) obtain zs where "mset ys = mset (xs @ zs)"
    by (metis ex_mset mset_append mset_subset_eq_exists_conv)
  with assms(2) have "distinct (xs @ zs)" by (metis mset_eq_imp_distinct_iff)
  then show ?thesis by simp
qed

lemma arrivals:
  assumes "\<forall>i<length ds. seq_packet len i (ds ! i)" and "length ds < 2 ^ 63" and "\<not> is_data sentinel"
    and "mset (map fst ps) \<subseteq># mset (ds @ [sentinel])"
  shows "distinct (seqs ps)" and "set (seqs ps) \<subseteq> {..<length ds}"
    and "sum_list (map length (filter is_data (map fst ps))) = len * length (seqs ps)"
proof -
  have d: "is_data (ds ! i) \<and> nat (dgram_seq (ds ! i)) = i \<and> length (ds ! i) = len" if "i < length ds" for i
    using assms(1,2) that by (intro seq_packet_data) auto
  have "filter is_data ds = ds" using d by (auto simp: filter_id_conv in_set_conv_nth)
  then have "mset (filter is_data (ds @ [sentinel])) = mset ds" using assms(3) by simp
  with multiset_filter_mono [OF assms(4), of is_data]
  have sub: "mset (filter is_data (map fst ps)) \<subseteq># mset ds" by (simp only: mset_filter)
  have "map (nat \<circ> dgram_seq) ds = [0..<length ds]" using d by (auto intro: nth_equalityI)
  then have m: "mset (seqs ps) \<subseteq># mset [0..<length ds]"
    using image_mset_subseteq_mono [OF sub, of "nat \<circ> dgram_seq"] by (simp only: seqs_def mset_map [symmetric])
  then show "distinct (seqs ps)" by (rule distinct_submset) simp
  show "set (seqs ps) \<subseteq> {..<length ds}" using set_mset_mono [OF m] by (simp add: atLeast0LessThan)
  have l: "length x = len" if "x \<in> set (filter is_data (map fst ps))" for x
  proof -
    from that set_mset_mono [OF sub] have "x \<in> set ds" by auto
    then obtain i where "i < length ds" "x = ds ! i" by (auto simp: in_set_conv_nth)
    with d show ?thesis by simp
  qed
  have "map length (filter is_data (map fst ps)) = map (\<lambda>_. len) (filter is_data (map fst ps))"
    by (rule map_cong [OF refl]) (rule l)
  then show "sum_list (map length (filter is_data (map fst ps))) = len * length (seqs ps)"
    by (simp only: seqs_def sum_list_triv length_map mult.commute of_nat_id)
qed

lemma receiver_receipt:
  assumes "run_udp_receiver order om ts = Some rs" and "distinct order" and "i < length order"
  obtains seen t rest where "turns_seen order [] ts = Some seen" and "ts = seen @ t # rest"
    and "rs ! i = ss_receipt (udp_packets om (datagrams_from (order ! i) seen) stream_state_new)"
proof -
  let ?s = "\<lparr>ul_states = udp_states_init order, ul_deadline = None, ul_short_timeout_set = False,
       ul_read_timeout = Some (from_millis 100)\<rparr>"
  from assms(1) obtain s' where s': "udp_loop order om ts ?s = Some s'"
    and rs: "rs = take_receipts order (ul_states s')"
    by (auto simp: run_udp_receiver_def)
  have "loop_at order om [] ?s" by (simp add: loop_at_def option.map_id option.map_ident)
  from udp_loop_seen [OF this, of ts] s' obtain seen where seen: "turns_seen order [] ts = Some seen"
    "\<And>a. ul_states s' a = map_option (udp_packets om (datagrams_from a seen)) (udp_states_init order a)"
    by auto
  from turns_seen_prefix [OF seen(1)] obtain t rest where "ts = seen @ t # rest" by auto
  with seen assms(3) show ?thesis
    by (intro that [of seen t rest]) (simp_all add: rs take_receipts_distinct [OF assms(2)] udp_states_init_def)
qed

section \<open>Properties\<close>

text \<open>
  (C7) The loss a UDP test reports, from the client's send loop to the server's receipt. Over a network
  that drops and reorders datagrams but does not duplicate them, the receipt counts every packet that
  arrived before the turn that ended the receiver with all its bytes, and reports as lost the packets missing below
  the highest one received \<^emph>\<open>plus\<close> every packet that arrived behind a higher one. So it reports no loss
  exactly when the packets arrived in order without a gap: losses at the end of the test are invisible,
  and reordering alone is reported as loss.
\<close>

theorem udp_loss_end_to_end:
  assumes send: "stream_start_udp c cookie sid peer (Inr sock) (Inr ()) t0 t1 turns fin = Finished (f, Some sock')"
      "us_tx sock = []" "us_out sock = []" "16 \<le> unat (cf_len c)" "length (us_out sock') < 2 ^ 63"
    and network: "mset (map fst (datagrams_from (order ! i) rturns)) \<subseteq># mset (map fst (tl (us_out sock')))"
    and recv: "run_udp_receiver order omit rturns = Some rs" "distinct order" "i < length order"
  shows "\<exists>seen js. turns_seen order [] rturns = Some seen \<and> js = seqs (datagrams_from (order ! i) seen) \<and> distinct js \<and>
    set js \<subseteq> {..<length (us_out sock') - 2} \<and> unat (rc_packets (rs ! i)) = length js \<and>
    rc_bytes (rs ! i) = of_nat (unat (cf_len c) * length js) \<and>
    unat (rc_lost (rs ! i)) = late (- 1) js + card (missing js) \<and>
    (rc_lost (rs ! i) = 0 \<longleftrightarrow> js = [0..<length js])"
proof -
  obtain ds sentinel where ds: "us_out sock' = map (\<lambda>d. (d, peer)) (cookie # ds @ [sentinel])"
    "\<forall>i<length ds. seq_packet (unat (cf_len c)) i (ds ! i)" "\<not> is_data sentinel"
    using start_udp_sends [OF send(1,2,4)] send(3) by auto
  obtain seen t rest where turns: "turns_seen order [] rturns = Some seen" and r: "rturns = seen @ t # rest"
    "rs ! i = ss_receipt (udp_packets omit (datagrams_from (order ! i) seen) stream_state_new)"
    using recv by (rule receiver_receipt)
  let ?ps = "datagrams_from (order ! i) seen"
  have "mset (map fst ?ps) \<subseteq># mset (map fst (datagrams_from (order ! i) rturns))"
    by (simp add: r(1) datagrams_from_append del: datagrams_from.simps)
  also note network
  also have "mset (map fst (tl (us_out sock'))) = mset (ds @ [sentinel])" by (simp add: ds(1) comp_def)
  finally have sub: "mset (map fst ?ps) \<subseteq># mset (ds @ [sentinel])" .
  from send(5) have n: "length ds < 2 ^ 63" by (simp add: ds(1))
  from size_mset_mono [OF sub] send(5) have l: "length ?ps < 2 ^ 64" by (simp add: ds(1))
  note a = arrivals [OF ds(2) n ds(3) sub]
  have "length (filter is_data (map fst ?ps)) = length (seqs ?ps)" by (simp add: seqs_def)
  moreover from this have "length (seqs ?ps) < 2 ^ 64"
    using l length_filter_le [of is_data "map fst ?ps"] by (simp only: length_map)
  ultimately have "udp_count (length (seqs ?ps)) (unat (cf_len c) * length (seqs ?ps)) (udp_packets omit ?ps stream_state_new)"
    using udp_packets_count [OF udp_count_new, of ?ps omit] by (simp add: a(3))
  then have c: "unat (rc_packets (rs ! i)) = length (seqs ?ps)" "rc_bytes (rs ! i) = of_nat (unat (cf_len c) * length (seqs ?ps))"
    using \<open>length (seqs ?ps) < 2 ^ 64\<close> by (simp_all add: udp_count_def r(2) unat_of_nat)
  have lost: "unat (rc_lost (rs ! i)) = late (- 1) (seqs ?ps) + card (missing (seqs ?ps))"
    unfolding r(2) by (rule udp_losses [OF l a(1)])
  then have "rc_lost (rs ! i) = 0 \<longleftrightarrow> seqs ?ps = [0..<length (seqs ?ps)]"
    by (simp only: no_loss_iff [OF a(1), symmetric] unat_eq_zero [symmetric])
  with turns a(1,2) c lost show ?thesis by (intro exI [of _ seen] exI [of _ "seqs ?ps"]) (simp add: ds(1))
qed

text \<open>The concrete test: packets 0 and 1 are sent and only packet 1 arrives.\<close>

definition sample_udp_config :: config where
  "sample_udp_config = (with_host [])\<lparr>cf_time := 1, cf_len := 20\<rparr>"

definition sample_udp_turns :: "bytes \<Rightarrow> udp_turn list" where
  "sample_udp_turns d =
     [\<lparr>ut_stop = False, ut_clock_deadline = 0, ut_clock_check = 0, ut_recv = Inr (d, (1, 2)),
       ut_clock_recv = 5, ut_stop_after = False\<rparr>,
      \<lparr>ut_stop = True, ut_clock_deadline = 6, ut_clock_check = from_millis 501, ut_recv = Inl TimedOut,
       ut_clock_recv = 7, ut_stop_after = True\<rparr>]"

theorem udp_loss_end_to_end_witness:
  "\<exists>f sock' rs seen js. stream_start_udp sample_udp_config [7] 1 (7, 9) (Inr sample_udp_sock) (Inr ()) 0 0
      (map sample_packet_turn [1, 2, from_secs 1]) (9, 0) = Finished (f, Some sock') \<and>
    run_udp_receiver [(1, 2)] 0 (sample_udp_turns (fst (us_out sock' ! 2))) = Some rs \<and>
    turns_seen [(1, 2)] [] (sample_udp_turns (fst (us_out sock' ! 2))) = Some seen \<and>
    js = seqs (datagrams_from (1, 2) seen) \<and> unat (rc_packets (rs ! 0)) = length js \<and>
    unat (rc_lost (rs ! 0)) = late (- 1) js + card (missing js)"
proof -
  obtain f sock' where r: "stream_start_udp sample_udp_config [7] 1 (7, 9) (Inr sample_udp_sock) (Inr ()) 0 0
      (map sample_packet_turn [1, 2, from_secs 1]) (9, 0) = Finished (f, Some sock')" and len: "length (us_out sock') = 4"
    by (simp add: stream_start_udp_def sample_udp_config_def with_host_def sample_packet_turn_def sample_udp_sock_def
        should_stop_def timer_is_elapsed_def timer_elapsed_def timer_new_def duration_since_def
        stream_duration_def from_secs_def bucket_wait_def bucket_new_def bucket_record_def
        udp_encode_def udp_send_to_def send_sentinel_def UDP_HEADER_LEN_def Let_def)
  let ?d = "fst (us_out sock' ! 2)"
  have c: "us_tx sample_udp_sock = []" "us_out sample_udp_sock = []" "16 \<le> unat (cf_len sample_udp_config)"
    by (simp_all add: sample_udp_sock_def sample_udp_config_def)
  have "?d \<in> set (map fst (tl (us_out sock')))" using len by (cases "us_out sock'") (auto simp: numeral_2_eq_2)
  then have net: "mset (map fst (datagrams_from ([(1, 2)] ! 0) (sample_udp_turns ?d))) \<subseteq># mset (map fst (tl (us_out sock')))"
    by (simp add: sample_udp_turns_def)
  obtain rs where rs: "run_udp_receiver [(1, 2)] 0 (sample_udp_turns ?d) = Some rs"
    by (simp add: run_udp_receiver_def sample_udp_turns_def udp_loop_head_def Let_def from_millis_def)
  have "length (us_out sock') < 2 ^ 63" "distinct [(1::nat, 2::u16)]" "0 < length [(1::nat, 2::u16)]"
    by (simp_all add: len)
  from udp_loss_end_to_end [OF r c this(1) net rs this(2,3)] obtain seen js where
    "turns_seen [(1, 2)] [] (sample_udp_turns ?d) = Some seen" "js = seqs (datagrams_from ([(1, 2)] ! 0) seen)"
    "unat (rc_packets (rs ! 0)) = length js" "unat (rc_lost (rs ! 0)) = late (- 1) js + card (missing js)"
    by blast
  with r rs show ?thesis by (simp only: nth_Cons_0) blast
qed

lemma accept_udp_loop_init:
  assumes "us_rx s = map (\<lambda>a. Inr (UDP_STREAM_INIT, a)) as @ rest" and "us_tx s = []"
    and "distinct as" and "set as \<inter> set addrs = {}" and "n = length addrs + length as"
  shows "\<exists>s'. accept_udp_loop cookie n addrs (set addrs) s = (Inr (addrs @ as), s') \<and>
    us_out s' = us_out s @ map (\<lambda>a. (UDP_STREAM_ACK, a)) as \<and> us_rx s' = rest"
  using assms
proof (induction as arbitrary: s addrs)
  case Nil
  then show ?case by (simp add: accept_udp_loop_full)
next
  case (Cons a as)
  let ?s = "s\<lparr>us_rx := map (\<lambda>a. Inr (UDP_STREAM_INIT, a)) as @ rest, us_tx := [],
    us_out := us_out s @ [(UDP_STREAM_ACK, a)]\<rparr>"
  have "accept_udp_loop cookie n addrs (set addrs) s = accept_udp_loop cookie n (addrs @ [a]) (set (addrs @ [a])) ?s"
    using Cons.prems
    by (subst accept_udp_loop.simps) (auto simp: udp_recv_from_def is_valid_init_def udp_send_to_def UDP_STREAM_INIT_def)
  moreover obtain s' where "accept_udp_loop cookie n (addrs @ [a]) (set (addrs @ [a])) ?s = (Inr ((addrs @ [a]) @ as), s')"
    "us_out s' = us_out ?s @ map (\<lambda>a. (UDP_STREAM_ACK, a)) as" "us_rx s' = rest"
    using Cons.IH [of ?s "addrs @ [a]"] Cons.prems by auto
  ultimately show ?case by simp
qed



end
