(* ===== verification/Pacing_Bounds.thy ===== *)
theory Pacing_Bounds
  imports Streams
begin

text \<open>
  The bandwidth limit of the sending threads: how much a paced sender may have sent by a given moment.
  The bucket is that of \<^verbatim>\<open>src/common/pacing.rs\<close>, the threads are \<open>Stream::start_udp\<close> and
  those of \<open>run_udp_send_streams\<close>; the TCP threads have no bucket.
\<close>

section \<open>The bucket\<close>

lemma unsigned_real_nonneg [simp]: "0 \<le> (unsigned (w :: 'a::len word) :: real)"
  by (metis of_nat_0_le_iff of_nat_unat)

text \<open>
  By the moment \<open>T\<close> a bucket of rate \<open>r\<close> has let through at most what the rate allows and one packet.
\<close>

definition in_budget :: "instant \<Rightarrow> nat \<Rightarrow> token_bucket \<Rightarrow> bool" where
  "in_budget T len b \<longleftrightarrow>
     8 * real (unat (tb_bytes_sent b)) \<le> real (unat (tb_rate_bps b)) * as_secs_f64 (T - tb_start b) + 8 * real len"

lemma in_budget_new: "in_budget T len (bucket_new r t1)"
  by (simp add: in_budget_def bucket_new_def)

lemma in_budget_record:
  assumes "tb_rate_bps b \<noteq> 0" and "bucket_wait b now = None" and "now \<le> T"
  shows "in_budget T len (bucket_record (of_nat len) b)"
proof -
  let ?r = "real (unat (tb_rate_bps b))"
  from assms(1,2) have "8 * real (unat (tb_bytes_sent b)) \<le> ?r * as_secs_f64 (now - tb_start b)"
    unfolding bucket_wait_None_iff [OF assms(1)] duration_since_def by (simp add: field_simps)
  also have "\<dots> \<le> ?r * as_secs_f64 (T - tb_start b)"
    using assms(3) by (intro mult_left_mono as_secs_f64_mono) simp_all
  finally have "8 * real (unat (tb_bytes_sent b)) \<le> ?r * as_secs_f64 (T - tb_start b)" .
  moreover have "unat (saturating_add (tb_bytes_sent b) (of_nat len)) \<le> unat (tb_bytes_sent b) + len"
    by (simp add: unat_saturating_add unat_of_nat min.coboundedI1)
  then have "real (unat (saturating_add (tb_bytes_sent b) (of_nat len))) \<le> real (unat (tb_bytes_sent b)) + real len"
    by (simp only: flip: of_nat_add of_nat_le_iff [where 'a = real])
  ultimately show ?thesis by (simp add: in_budget_def bucket_record_def)
qed

section \<open>The datagram send loop\<close>

context byte_meter
begin

text \<open>The receipt never counts more than the bucket: its counter wraps where that of the bucket saturates.\<close>

lemma tick_below_bucket:
  assumes "unat (total r) \<le> unat (tb_bytes_sent b)"
  shows "unat (total (tick om n t r)) \<le> unat (tb_bytes_sent (bucket_record (of_nat n) b))"
proof -
  have "unat (total r + of_nat n) \<le> unat (total r) + unat (of_nat n :: u64)"
    by (simp add: unat_word_ariths(1))
  moreover have "unat (total r + of_nat n) \<le> 2 ^ 64 - 1"
    using unsigned_less [of "total r + of_nat n", where ?'a = nat] by simp
  ultimately show ?thesis
    using assms by (simp add: tick_total bucket_record_def unat_saturating_add)
qed

lemma udp_send_loop_budget:
  assumes "udp_send_loop total tick timer dur om len mb bl peer ts u = Finished u'"
    and "\<forall>t\<in>set ts. pt_now t \<le> T" and "tb_rate_bps (up_bucket u) \<noteq> 0" and "length (up_packet u) = len"
    and "16 \<le> len" and "in_budget T len (up_bucket u)"
    and "unat (total (mt_receipt (up_meter u))) \<le> unat (tb_bytes_sent (up_bucket u))"
  shows "in_budget T len (up_bucket u') \<and> tb_rate_bps (up_bucket u') = tb_rate_bps (up_bucket u) \<and>
    tb_start (up_bucket u') = tb_start (up_bucket u) \<and>
    unat (total (mt_receipt (up_meter u'))) \<le> unat (tb_bytes_sent (up_bucket u'))"
  using assms(1-4,6,7)
proof (induction ts arbitrary: u)
  case (Cons t ts)
  show ?case
  proof (cases "up_bucket u' = up_bucket u \<and> up_meter u' = up_meter u")
    case True
    with Cons.prems show ?thesis by simp
  next
    case False
    show ?thesis
    proof (cases "bucket_wait (up_bucket u) (pt_now t) = None")
      case wait: False
      have "udp_send_loop total tick timer dur om len mb bl peer ts u = Finished u'"
        using Cons.prems(1) False wait by (auto split: if_splits)
      then show ?thesis using Cons.IH Cons.prems(2-6) by simp
    next
      case go: True
      let ?h = "stamped (pt_epoch_secs t) (pt_epoch_micros t) (up_seq u)"
      obtain hdr where hdr: "udp_encode ?h (take UDP_HEADER_LEN (up_packet u)) = Inr hdr"
        and l: "length (hdr @ drop UDP_HEADER_LEN (up_packet u)) = len"
        using encode_packet [of "up_packet u" ?h] assms(5) Cons.prems(4) by auto
      let ?p = "hdr @ drop UDP_HEADER_LEN (up_packet u)"
      obtain r sock where r: "udp_send_to ?p peer (up_sock u) = (r, sock)" by fastforce
      have n: "n = len" if "r = Inr n" for n
        using r that l by (auto simp: udp_send_to_def split: list.splits option.splits)
      let ?u = "\<lparr>up_meter = meter_tick tick om len (pt_sent t) (up_meter u),
        up_bucket = bucket_record (of_nat len) (up_bucket u), up_seq = up_seq u + 1, up_packet = ?p, up_sock = sock\<rparr>"
      have "udp_send_loop total tick timer dur om len mb bl peer ts ?u = Finished u'"
        using Cons.prems(1) False go hdr r n assms(5) by (auto simp: Let_def split: if_splits sum.splits)
      from Cons.IH [OF this] show ?thesis
        using Cons.prems(2-6) in_budget_record [OF Cons.prems(3) go] l tick_below_bucket
        by (simp add: bucket_record_def del: length_append)
    qed
  qed
qed simp

text \<open>A whole run, from an empty receipt and a new bucket.\<close>

lemma udp_send_loop_rate:
  assumes "udp_send_loop total tick timer dur om len mb bl peer ts u = Finished u'"
    and "\<forall>t\<in>set ts. pt_now t \<le> T" and "up_bucket u = bucket_new r t1" and "r \<noteq> 0"
    and "up_packet u = replicate len 1" and "UDP_HEADER_LEN \<le> len" and "total (mt_receipt (up_meter u)) = 0"
  shows "8 * real (unat (total (mt_receipt (up_meter u')))) \<le> real (unat r) * as_secs_f64 (T - t1) + 8 * real len"
proof -
  have b: "tb_rate_bps (up_bucket u) = r" "tb_start (up_bucket u) = t1" by (simp_all add: assms(3) bucket_new_def)
  have "tb_rate_bps (up_bucket u) \<noteq> 0" "length (up_packet u) = len" "16 \<le> len" "in_budget T len (up_bucket u)"
    "unat (total (mt_receipt (up_meter u))) \<le> unat (tb_bytes_sent (up_bucket u))"
    unfolding b(1) using assms(3-7) in_budget_new by (simp_all add: UDP_HEADER_LEN_def)
  from udp_send_loop_budget [OF assms(1,2) this] b
  have i: "8 * real (unat (tb_bytes_sent (up_bucket u'))) \<le> real (unat r) * as_secs_f64 (T - t1) + 8 * real len"
    and "unat (total (mt_receipt (up_meter u'))) \<le> unat (tb_bytes_sent (up_bucket u'))"
    unfolding in_budget_def by metis+
  from this(2) have "real (unat (total (mt_receipt (up_meter u')))) \<le> real (unat (tb_bytes_sent (up_bucket u')))"
    by (simp only: of_nat_le_iff)
  with i show ?thesis by linarith
qed

end

section \<open>Properties\<close>

text \<open>
  (C11) The rate limit holds. By the moment \<open>T\<close> of its last look at the bucket, a UDP thread of the client or
  of the server with a limit of \<open>r\<close> bits per second has reported at most \<open>r\<close> times the seconds since its
  bucket was created, and one packet, whatever the network and the clocks do. The limit means nothing to
  TCP: the client's TCP thread is the same function for every bandwidth.
\<close>

theorem sending_rate_bounded:
  assumes "\<forall>t\<in>set turns. pt_now t \<le> T"
  shows "(\<forall>f x. cf_bandwidth c \<noteq> 0 \<longrightarrow>
      stream_start_udp c cookie sid peer bound conn_res t0 t1 turns fin = Finished (f, x) \<longrightarrow>
      8 * real (unat (cr_bytes_sent (sf_receipt f))) \<le>
        real (unat (cf_bandwidth c)) * as_secs_f64 (T - t1) + 8 * real (unat (cf_len c))) \<and>
    (\<forall>m x. co_bandwidth opts \<noteq> 0 \<longrightarrow>
      udp_send_stream opts sid peer t0 t1 turns fin sock = Finished (m, x) \<longrightarrow>
      8 * real (unat (rc_bytes (mt_receipt m))) \<le>
        real (unat (co_bandwidth opts)) * as_secs_f64 (T - t1) + 8 * real (max (unat (co_len opts)) UDP_HEADER_LEN)) \<and>
    stream_start (c\<lparr>cf_bandwidth := r\<rparr>) cookie sid conn t0 sturns retr = stream_start c cookie sid conn t0 sturns retr"
proof (intro conjI allI impI)
  fix f x
  assume r: "cf_bandwidth c \<noteq> 0"
    and run: "stream_start_udp c cookie sid peer bound conn_res t0 t1 turns fin = Finished (f, x)"
  from run [unfolded stream_start_udp_def Let_def] consider
      "sf_receipt f = client_receipt_empty sid"
    | u sock' where "UDP_HEADER_LEN \<le> unat (cf_len c)" "sf_receipt f = mt_receipt (up_meter u)"
      "udp_send_loop cr_bytes_sent client_udp_tick (timer_new t0) (stream_duration (cf_time c) (cf_omit c))
        (from_secs (unat (cf_omit c))) (unat (cf_len c)) (cf_total_bytes c) (cf_total_blocks c) peer turns
        \<lparr>up_meter = \<lparr>mt_receipt = client_receipt_empty sid, mt_reporter = None, mt_rows = []\<rparr>,
         up_bucket = bucket_new (cf_bandwidth c) t1, up_seq = 0, up_packet = replicate (unat (cf_len c)) 1,
         up_sock = sock'\<rparr> = Finished u"
    by (auto simp: emit_stream_finished_def not_less split: sum.splits prod.splits if_splits run.splits)
  then show "8 * real (unat (cr_bytes_sent (sf_receipt f))) \<le>
      real (unat (cf_bandwidth c)) * as_secs_f64 (T - t1) + 8 * real (unat (cf_len c))"
  proof cases
    case 1
    then show ?thesis by (simp add: client_receipt_empty_def)
  next
    case 2
    show ?thesis
      unfolding 2(2)
      by (rule client_udp_meter.udp_send_loop_rate [OF 2(3) assms]) (simp_all add: r 2(1) client_receipt_empty_def)
  qed
next
  fix m x
  assume r: "co_bandwidth opts \<noteq> 0"
    and run: "udp_send_stream opts sid peer t0 t1 turns fin sock = Finished (m, x)"
  let ?len = "max (unat (co_len opts)) UDP_HEADER_LEN"
  from run obtain u where
    "udp_send_loop rc_bytes receipt_udp_tick (timer_new t0) (stream_duration (co_time opts) (co_omit opts))
        (from_secs (unat (co_omit opts))) ?len None None peer turns
        \<lparr>up_meter = \<lparr>mt_receipt = stream_receipt_empty, mt_reporter = Some (reporter_new sid (from_secs 1)), mt_rows = []\<rparr>,
         up_bucket = bucket_new (co_bandwidth opts) t1, up_seq = 0, up_packet = replicate ?len 1, up_sock = sock\<rparr>
        = Finished u" and m: "m = up_meter u"
    by (auto simp: udp_send_stream_def Let_def split: run.splits)
  from server_udp_meter.udp_send_loop_rate [OF this(1) assms] show "8 * real (unat (rc_bytes (mt_receipt m))) \<le>
      real (unat (co_bandwidth opts)) * as_secs_f64 (T - t1) + 8 * real ?len"
    by (simp add: m r stream_receipt_empty_def)
next
  show "stream_start (c\<lparr>cf_bandwidth := r\<rparr>) cookie sid conn t0 sturns retr = stream_start c cookie sid conn t0 sturns retr"
    by (cases "connect conn cookie") (simp_all add: stream_start_def tuning_of_config_def Let_def)
qed

text \<open>At 800 bits per second the second look at the bucket finds the sender a packet ahead.\<close>

theorem sending_rate_bounded_witness:
  "\<exists>f x. stream_start_udp ((with_host [])\<lparr>cf_bandwidth := 800, cf_len := 20\<rparr>) [7] 1 (7, 9)
      (Inr sample_udp_sock) (Inr ()) 0 0 (map sample_packet_turn [1, 2, from_secs 10]) (9, 0) = Finished (f, x) \<and>
    8 * real (unat (cr_bytes_sent (sf_receipt f))) \<le> 8160"
proof -
  let ?c = "(with_host [])\<lparr>cf_bandwidth := 800, cf_len := 20\<rparr>"
  obtain f x where r: "stream_start_udp ?c [7] 1 (7, 9)
      (Inr sample_udp_sock) (Inr ()) 0 0 (map sample_packet_turn [1, 2, from_secs 10]) (9, 0) = Finished (f, x)"
    by (simp add: stream_start_udp_def with_host_def sample_packet_turn_def sample_udp_sock_def
        should_stop_def timer_is_elapsed_def timer_elapsed_def timer_new_def duration_since_def
        stream_duration_def from_secs_def bucket_wait_def bucket_new_def bucket_record_def saturating_add_def
        udp_encode_def udp_send_to_def send_sentinel_def UDP_HEADER_LEN_def Let_def as_secs_f64_def)
  have "\<forall>t\<in>set (map sample_packet_turn [1, 2, from_secs 10]). pt_now t \<le> from_secs 10"
    by (simp add: sample_packet_turn_def from_secs_def)
  from sending_rate_bounded [OF this, of ?c] r show ?thesis by fastforce
qed

end
