(* ===== verification/Report_Properties.thy ===== *)
theory Report_Properties
  imports Report_Text
begin

text \<open>
  What can be read off the printed text: a reader for interval rows recovers the figures of a run from
  the rows of \<open>Report_Text\<close>, up to the rounding of two decimals.
\<close>

section \<open>Reading printed figures\<close>

text \<open>
  A reader for the rows: the number of the stream, the two ends of the interval, the size in bytes and
  the rate in bits per second, each of these with the unit it is printed in.
\<close>

definition digits_value :: "rstr \<Rightarrow> nat" where
  "digits_value s = foldl (\<lambda>a c. a * 10 + (c - 48)) 0 s"

definition read_decimal :: "rstr \<Rightarrow> f64" where
  "read_decimal s = real (digits_value (takeWhile (\<lambda>c. c \<noteq> 46) s)) +
     real (digits_value (drop 1 (dropWhile (\<lambda>c. c \<noteq> 46) s))) / 100"

definition scale_of :: "rstr \<Rightarrow> f64 option" where
  "scale_of = map_of
     [(lit ''Bytes'', 1), (lit ''KBytes'', 2 ^ 10), (lit ''MBytes'', 2 ^ 20), (lit ''GBytes'', 2 ^ 30),
      (lit ''TBytes'', 2 ^ 40), (lit ''bits/sec'', 1), (lit ''Kbits/sec'', 10 ^ 3),
      (lit ''Mbits/sec'', 10 ^ 6), (lit ''Gbits/sec'', 10 ^ 9), (lit ''Tbits/sec'', 10 ^ 12)]"

definition read_scaled :: "rstr \<Rightarrow> rstr \<Rightarrow> (f64 \<times> f64) option" where
  "read_scaled num unit = map_option (\<lambda>f. (read_decimal num * f, f)) (scale_of unit)"

fun read_fields :: "rstr list \<Rightarrow> (f64 \<times> f64 \<times> (f64 \<times> f64) \<times> (f64 \<times> f64)) option" where
  "read_fields [iv, sec, n, u, m, v] =
     (case (read_scaled n u, read_scaled m v) of
        (Some b, Some r) \<Rightarrow>
          Some (read_decimal (takeWhile (\<lambda>c. c \<noteq> 45) iv), read_decimal (drop 1 (dropWhile (\<lambda>c. c \<noteq> 45) iv)), b, r)
      | _ \<Rightarrow> None)"
| "read_fields _ = None"

definition read_row :: "rstr \<Rightarrow> (nat \<times> f64 \<times> f64 \<times> (f64 \<times> f64) \<times> (f64 \<times> f64)) option" where
  "read_row row =
     (let r = drop 1 row
      in map_option (Pair (digits_value (trim_start (takeWhile (\<lambda>c. c \<noteq> 93) r))))
           (read_fields (split_whitespace (drop 1 (dropWhile (\<lambda>c. c \<noteq> 93) r)))))"

text \<open>The largest of the five units, powers of \<open>base\<close>, that is not above \<open>x\<close>; the plain one for what is smaller.\<close>

definition unit_for :: "f64 \<Rightarrow> f64 \<Rightarrow> f64 \<Rightarrow> bool" where
  "unit_for base x f \<longleftrightarrow>
     (\<exists>i\<le>4. f = base ^ i \<and> (0 < i \<longrightarrow> base ^ i \<le> x) \<and> (i < 4 \<longrightarrow> x < base ^ Suc i))"

section \<open>Lemmas\<close>

lemma round_half_even_close: "\<bar>of_int (round_half_even x) - x\<bar> \<le> 1 / 2"
proof -
  have "of_int \<lfloor>x\<rfloor> \<le> x" "x < of_int \<lfloor>x\<rfloor> + 1" by linarith+
  then show ?thesis
    by (cases "x - of_int \<lfloor>x\<rfloor> < 1 / 2 \<or> x - of_int \<lfloor>x\<rfloor> = 1 / 2 \<and> even \<lfloor>x\<rfloor>")
      (simp_all only: round_half_even_def Let_def if_True if_False, auto simp: abs_le_iff)
qed

lemma round_half_even_nonneg: "0 \<le> x \<Longrightarrow> 0 \<le> round_half_even x"
  by (simp add: round_half_even_def Let_def)

lemma hundredths_close:
  assumes "0 \<le> x"
  shows "\<bar>real (hundredths x) / 100 - x\<bar> \<le> 1 / 200"
proof -
  have "0 \<le> round_half_even (x * 100)" using assms by (intro round_half_even_nonneg) simp
  then have "real (hundredths x) = of_int (round_half_even (x * 100))" using assms by (simp add: hundredths_def)
  with round_half_even_close [of "x * 100"] show ?thesis by (simp add: abs_le_iff field_simps)
qed

lemma digits_value_snoc: "digits_value (s @ [c]) = digits_value s * 10 + (c - 48)"
  by (simp add: digits_value_def)

lemma digits_value_dec [simp]: "digits_value (dec n) = n"
proof (induction n rule: dec.induct)
  case (1 n)
  show ?case
  proof (cases "n < 10")
    case True
    then show ?thesis by (simp add: dec.simps [of n] digits_value_def)
  next
    case False
    with 1 have "digits_value (dec (n div 10)) = n div 10" by simp
    with False show ?thesis by (simp add: dec.simps [of n] digits_value_snoc)
  qed
qed

lemma dec_takeWhile:
  assumes "c < 48 \<or> 57 < c"
  shows "takeWhile (\<lambda>x. x \<noteq> c) (dec n @ c # t) = dec n" "dropWhile (\<lambda>x. x \<noteq> c) (dec n @ c # t) = c # t"
proof -
  have "\<And>x. x \<in> set (dec n) \<Longrightarrow> x \<noteq> c" using dec_digits assms by fastforce
  then show "takeWhile (\<lambda>x. x \<noteq> c) (dec n @ c # t) = dec n" "dropWhile (\<lambda>x. x \<noteq> c) (dec n @ c # t) = c # t"
    by (simp_all add: takeWhile_append2 dropWhile_append2)
qed

lemma show_fixed2_pos: "0 \<le> x \<Longrightarrow> show_fixed2 x =
    dec (hundredths x div 100) @ 46 # [48 + hundredths x div 10 mod 10, 48 + hundredths x mod 10]"
  by (simp add: show_fixed2_def Let_def lit_def)

lemma read_show_fixed2:
  assumes "0 \<le> x"
  shows "read_decimal (show_fixed2 x) = real (hundredths x) / 100"
proof -
  let ?h = "hundredths x"
  have m: "?h div 10 mod 10 * 10 + ?h mod 10 = ?h mod 100"
    using mod_mult2_eq [of ?h 10 10] by simp
  have "real ?h = real (?h div 100 * 100 + ?h mod 100)" by (simp only: div_mult_mod_eq)
  also have "\<dots> = real (?h div 100) * 100 + real (?h mod 100)"
    by (simp only: of_nat_add of_nat_mult of_nat_numeral)
  finally have "real (?h div 100) + real (?h mod 100) / 100 = real ?h / 100" by linarith
  with m show ?thesis
    by (simp add: read_decimal_def show_fixed2_pos [OF assms] dec_takeWhile digits_value_def [of "[_, _]"])
qed

lemma read_dec [simp]: "read_decimal (dec n) = real n"
proof -
  have "\<forall>x\<in>set (dec n). x \<noteq> 46" using dec_digits [of _ n] by fastforce
  then have "takeWhile (\<lambda>c. c \<noteq> 46) (dec n) = dec n" "dropWhile (\<lambda>c. c \<noteq> 46) (dec n) = []"
    by (simp_all add: takeWhile_eq_all_conv dropWhile_eq_Nil_conv)
  then show ?thesis by (simp only: read_decimal_def digits_value_dec) (simp add: digits_value_def)
qed

text \<open>The characters of printed figures.\<close>

definition figure :: "rstr \<Rightarrow> bool" where
  "figure s \<longleftrightarrow> s \<noteq> [] \<and> (\<forall>c\<in>set s. c = 46 \<or> 48 \<le> c \<and> c \<le> 57)"

lemma figure_dec [simp]: "figure (dec n)"
  using dec_digits by (auto simp: figure_def)

lemma figure_fixed2: "0 \<le> x \<Longrightarrow> figure (show_fixed2 x)"
  using figure_dec [of "hundredths x div 100"] by (auto simp: figure_def show_fixed2_pos)

lemma figure_word: "figure s \<Longrightarrow> list_all (\<lambda>c. \<not> is_whitespace c) s"
  by (auto simp: figure_def list_all_iff is_whitespace_def)

text \<open>A figure with its unit, and what it stands for.\<close>

definition measure_text :: "rstr \<Rightarrow> rstr \<Rightarrow> rstr \<Rightarrow> f64 \<Rightarrow> f64 \<Rightarrow> bool" where
  "measure_text t num unit base x \<longleftrightarrow> t = num @ 32 # unit \<and> figure num \<and> unit \<noteq> [] \<and>
     list_all (\<lambda>c. \<not> is_whitespace c) unit \<and>
     (\<exists>y f. read_scaled num unit = Some (y, f) \<and> unit_for base x f \<and> \<bar>y - x\<bar> \<le> f / 200)"

lemma measure_textI:
  assumes "0 \<le> x" "0 < f" "unit_for base x f" "scale_of (lit u) = Some f" "u \<noteq> []"
    and "list_all (\<lambda>c. \<not> is_whitespace c) (lit u)"
  shows "measure_text (show_fixed2 (x / f) @ lit (CHR 0x20 # u)) (show_fixed2 (x / f)) (lit u) base x"
proof -
  have p: "0 \<le> x / f" using assms(1,2) by simp
  have "real (hundredths (x / f)) / 100 * f - x = (real (hundredths (x / f)) / 100 - x / f) * f"
    using assms(2) by (simp add: left_diff_distrib)
  then have "\<bar>real (hundredths (x / f)) / 100 * f - x\<bar> = \<bar>real (hundredths (x / f)) / 100 - x / f\<bar> * f"
    using assms(2) by (simp only: abs_mult abs_of_pos)
  also have "\<dots> \<le> 1 / 200 * f"
    using hundredths_close [OF p] assms(2) by (intro mult_right_mono) simp_all
  finally have "\<bar>real (hundredths (x / f)) / 100 * f - x\<bar> \<le> f / 200" by simp
  moreover have "read_scaled (show_fixed2 (x / f)) (lit u) = Some (real (hundredths (x / f)) / 100 * f, f)"
    using assms(4) by (simp add: read_scaled_def read_show_fixed2 [OF p])
  moreover have "lit (CHR 0x20 # u) = 32 # lit u" "lit u \<noteq> []" using assms(5) by (simp_all add: lit_def)
  ultimately show ?thesis using assms(3,6) figure_fixed2 [OF p] unfolding measure_text_def by metis
qed

lemma unit_forI:
  "i \<le> 4 \<Longrightarrow> 0 < i \<Longrightarrow> base ^ i \<le> x \<Longrightarrow> i = 4 \<or> x < base ^ Suc i \<Longrightarrow> unit_for base x (base ^ i)"
  "x < base \<Longrightarrow> unit_for base x 1"
  by (auto simp: unit_for_def intro: exI [of _ i] exI [of _ "0 :: nat"])

lemma byte_units:
  "1099511627776 \<le> x \<Longrightarrow> unit_for 1024 x 1099511627776"
  "1073741824 \<le> x \<Longrightarrow> x < 1099511627776 \<Longrightarrow> unit_for 1024 x 1073741824"
  "1048576 \<le> x \<Longrightarrow> x < 1073741824 \<Longrightarrow> unit_for 1024 x 1048576"
  "1024 \<le> x \<Longrightarrow> x < 1048576 \<Longrightarrow> unit_for 1024 x 1024"
  using unit_forI(1) [of 4 1024 x] unit_forI(1) [of 3 1024 x] unit_forI(1) [of 2 1024 x] unit_forI(1) [of 1 1024 x]
  by simp_all

lemma rate_units:
  "1000000000000 \<le> x \<Longrightarrow> unit_for 1000 x 1000000000000"
  "1000000000 \<le> x \<Longrightarrow> x < 1000000000000 \<Longrightarrow> unit_for 1000 x 1000000000"
  "1000000 \<le> x \<Longrightarrow> x < 1000000000 \<Longrightarrow> unit_for 1000 x 1000000"
  "1000 \<le> x \<Longrightarrow> x < 1000000 \<Longrightarrow> unit_for 1000 x 1000"
  using unit_forI(1) [of 4 1000 x] unit_forI(1) [of 3 1000 x] unit_forI(1) [of 2 1000 x] unit_forI(1) [of 1 1000 x]
  by simp_all

lemma scale_units:
  "scale_of (lit ''Bytes'') = Some 1" "scale_of (lit ''KBytes'') = Some 1024"
  "scale_of (lit ''MBytes'') = Some 1048576" "scale_of (lit ''GBytes'') = Some 1073741824"
  "scale_of (lit ''TBytes'') = Some 1099511627776" "scale_of (lit ''bits/sec'') = Some 1"
  "scale_of (lit ''Kbits/sec'') = Some 1000" "scale_of (lit ''Mbits/sec'') = Some 1000000"
  "scale_of (lit ''Gbits/sec'') = Some 1000000000" "scale_of (lit ''Tbits/sec'') = Some 1000000000000"
  by (simp_all add: scale_of_def)

lemma unit_words:
  "list_all (\<lambda>c. \<not> is_whitespace c) (lit u)" if "u \<in> {''Bytes'', ''KBytes'', ''MBytes'', ''GBytes'',
    ''TBytes'', ''bits/sec'', ''Kbits/sec'', ''Mbits/sec'', ''Gbits/sec'', ''Tbits/sec''}"
  using that by (auto simp: lit_def is_whitespace_def)

text \<open>Sizes below the first unit are printed without rounding.\<close>

lemma format_bytes_measure:
  "\<exists>num unit. measure_text (format_bytes n) num unit 1024 (real (unat n)) \<and>
     (unat n < 1024 \<longrightarrow> read_scaled num unit = Some (real (unat n), 1))"
proof -
  define v where "v = unat n"
  let ?x = "real v"
  have f: "format_bytes n = (if 1099511627776 \<le> v then show_fixed2 (?x / 1099511627776) @ lit '' TBytes''
      else if 1073741824 \<le> v then show_fixed2 (?x / 1073741824) @ lit '' GBytes''
      else if 1048576 \<le> v then show_fixed2 (?x / 1048576) @ lit '' MBytes''
      else if 1024 \<le> v then show_fixed2 (?x / 1024) @ lit '' KBytes'' else dec v @ lit '' Bytes'')"
    by (simp add: format_bytes_def Let_def v_def del: of_nat_unat)
  have small: "measure_text (dec v @ lit '' Bytes'') (dec v) (lit ''Bytes'') 1024 ?x \<and>
      read_scaled (dec v) (lit ''Bytes'') = Some (?x, 1)" if "v < 1024"
    using that unit_forI(2) [of ?x 1024]
    by (simp add: measure_text_def read_scaled_def scale_units unit_words) (simp add: lit_def)
  consider "1099511627776 \<le> v" | "v < 1099511627776" "1073741824 \<le> v" | "v < 1073741824" "1048576 \<le> v"
    | "v < 1048576" "1024 \<le> v" | "v < 1024" by linarith
  then have "\<exists>num unit. measure_text (format_bytes n) num unit 1024 ?x \<and>
      (v < 1024 \<longrightarrow> read_scaled num unit = Some (?x, 1))"
  proof cases
    case 1
    with measure_textI [of ?x 1099511627776 1024 "''TBytes''"] show ?thesis
      by (auto simp: f scale_units unit_words byte_units)
  next
    case 2
    with measure_textI [of ?x 1073741824 1024 "''GBytes''"] show ?thesis
      by (auto simp: f scale_units unit_words byte_units)
  next
    case 3
    with measure_textI [of ?x 1048576 1024 "''MBytes''"] show ?thesis
      by (auto simp: f scale_units unit_words byte_units)
  next
    case 4
    with measure_textI [of ?x 1024 1024 "''KBytes''"] show ?thesis
      by (auto simp: f scale_units unit_words byte_units)
  next
    case 5
    with small show ?thesis by (auto simp: f)
  qed
  then show ?thesis by (simp add: v_def)
qed

lemma format_bitrate_measure: 
  assumes "0 \<le> b"
  shows "\<exists>num unit. measure_text (format_bitrate_bps b) num unit 1000 b"
proof -
  consider "1000000000000 \<le> b" | "b < 1000000000000" "1000000000 \<le> b" | "b < 1000000000" "1000000 \<le> b"
    | "b < 1000000" "1000 \<le> b" | "b < 1000" by linarith
  then show ?thesis
  proof cases
    case 1
    with measure_textI [of b 1000000000000 1000 "''Tbits/sec''"] show ?thesis
      by (auto simp: format_bitrate_bps_def Let_def scale_units unit_words rate_units unit_forI(2))
  next
    case 2
    with measure_textI [of b 1000000000 1000 "''Gbits/sec''"] show ?thesis
      by (auto simp: format_bitrate_bps_def Let_def scale_units unit_words rate_units unit_forI(2))
  next
    case 3
    with measure_textI [of b 1000000 1000 "''Mbits/sec''"] show ?thesis
      by (auto simp: format_bitrate_bps_def Let_def scale_units unit_words rate_units unit_forI(2))
  next
    case 4
    with measure_textI [of b 1000 1000 "''Kbits/sec''"] show ?thesis
      by (auto simp: format_bitrate_bps_def Let_def scale_units unit_words rate_units unit_forI(2))
  next
    case 5
    with assms measure_textI [of b 1 1000 "''bits/sec''"] show ?thesis
      by (auto simp: format_bitrate_bps_def Let_def scale_units unit_words rate_units unit_forI(2))
  qed
qed

lemma blank: "is_whitespace 32"
  by (simp add: is_whitespace_def)

lemma split_ws_blanks [simp]: "split_ws [] (replicate k 32 @ s) = split_ws [] s"
  by (induction k) (simp_all add: blank)

lemma split_ws_next:
  assumes "list_all (\<lambda>c. \<not> is_whitespace c) w" and "w \<noteq> []"
  shows "split_ws [] (w @ replicate k 32 @ 32 # s) = w # split_ws [] s"
proof -
  have "replicate k 32 @ 32 # s = 32 # (replicate k 32 @ s)" for s :: rstr by (induction k) simp_all
  moreover have "split_ws [] (w @ 32 # (replicate k 32 @ s)) = w # split_ws [] s"
    using split_ws_word [OF assms(1) blank, of "[]"] assms(2) by simp
  ultimately show ?thesis by (simp only:)
qed

lemma split_ws_last: "list_all (\<lambda>c. \<not> is_whitespace c) w \<Longrightarrow> acc \<noteq> [] \<or> w \<noteq> [] \<Longrightarrow> split_ws acc w = [rev acc @ w]"
  by (induction w arbitrary: acc) auto

lemma trim_pad_dec: "trim_start (pad_left k (dec n)) = dec n"
proof -
  obtain c t where "dec n = c # t" by (cases "dec n") auto
  moreover from this have "\<not> is_whitespace c" using dec_digits [of c n] by (auto simp: is_whitespace_def)
  moreover have "dropWhile is_whitespace (replicate j 32 @ s) = dropWhile is_whitespace s" for j s
    by (induction j) (simp_all add: is_whitespace_def)
  ultimately show ?thesis by (simp add: trim_start_def pad_left_def)
qed

lemma figure_span:
  assumes "figure s"
  shows "takeWhile (\<lambda>c. c \<noteq> 45) (s @ 45 # t) = s" "dropWhile (\<lambda>c. c \<noteq> 45) (s @ 45 # t) = 45 # t"
proof -
  have "\<And>c. c \<in> set s \<Longrightarrow> c \<noteq> 45" using assms by (auto simp: figure_def)
  then show "takeWhile (\<lambda>c. c \<noteq> 45) (s @ 45 # t) = s" "dropWhile (\<lambda>c. c \<noteq> 45) (s @ 45 # t) = 45 # t"
    by (simp_all add: takeWhile_append2 dropWhile_append2)
qed

lemma interval_row_fields:
  assumes "0 \<le> a" "0 \<le> e" and b: "measure_text (format_bytes n) num unit p x"
    and r: "measure_text (format_bitrate_bps (real (unat n) * 8 / max (e - a) (1 / 1000000))) num' unit' q y"
  shows "split_whitespace (drop 1 (dropWhile (\<lambda>c. c \<noteq> 93) (drop 1 (format_interval_row sid a e n)))) =
    [show_fixed2 a @ 45 # show_fixed2 e, lit ''sec'', num, unit, num', unit']"
proof -
  note f = figure_fixed2 [OF assms(1)] figure_fixed2 [OF assms(2)]
  let ?t = "pad_left 14 (num' @ 32 # unit')"
  let ?iv = "show_fixed2 a @ 45 # show_fixed2 e"
  have row: "drop 1 (format_interval_row sid a e n) = pad_left 3 (dec (unat sid)) @ 93 #
      (32 # replicate (6 - length (show_fixed2 a)) 32 @ ?iv @ replicate (5 - length (show_fixed2 e)) 32 @ 32 #
        lit ''sec'' @ replicate 1 32 @ 32 # replicate (10 - length (num @ 32 # unit)) 32 @ num @ replicate 0 32 @ 32 #
        unit @ replicate 1 32 @ 32 # ?t)"
    using b r by (simp add: format_interval_row_def Let_def measure_text_def pad_left_def [of 10] pad_left_def [of 6]
      pad_right_def show_word_def lit_def)
  have "\<And>c. c \<in> set (pad_left 3 (dec (unat sid))) \<Longrightarrow> c \<noteq> 93"
    using dec_digits by (fastforce simp: pad_left_def)
  then have d: "drop 1 (dropWhile (\<lambda>c. c \<noteq> 93) (pad_left 3 (dec (unat sid)) @ 93 # t)) = t" for t
    by (simp add: dropWhile_append2)
  have w: "list_all (\<lambda>c. \<not> is_whitespace c) ?iv" "?iv \<noteq> []"
    using figure_word [OF f(1)] figure_word [OF f(2)] by (simp_all add: is_whitespace_def)
  have sec: "list_all (\<lambda>c. \<not> is_whitespace c) (lit ''sec'')" "lit ''sec'' \<noteq> []"
    by (simp_all add: lit_def is_whitespace_def)
  have nu: "list_all (\<lambda>c. \<not> is_whitespace c) num" "num \<noteq> []" "list_all (\<lambda>c. \<not> is_whitespace c) unit" "unit \<noteq> []"
    using b figure_word by (auto simp: measure_text_def figure_def)
  have nu': "list_all (\<lambda>c. \<not> is_whitespace c) num'" "num' \<noteq> []" "list_all (\<lambda>c. \<not> is_whitespace c) unit'" "unit' \<noteq> []"
    using r figure_word by (auto simp: measure_text_def figure_def)
  have "split_ws [] ?t = [num', unit']"
    using split_ws_next [OF nu'(1,2), of 0 unit'] split_ws_last [OF nu'(3), of "[]"] nu'(4)
    by (simp add: pad_left_def)
  then show ?thesis
    unfolding row d split_whitespace_def
    by (simp only: split_ws_skip [OF blank] split_ws_blanks
      split_ws_next [OF w] split_ws_next [OF sec] split_ws_next [OF nu(1,2)] split_ws_next [OF nu(3,4)])
qed

text \<open>
  Rows have two decimals and no fixed width: the row the comment on \<open>format_interval_row\<close> gives as
  \<^verbatim>\<open>[  5]   0.00-1.00   sec  128 MBytes   1.07 Gbits/sec\<close> reads differently, and a size just below a unit
  is rounded up to 1024 of the smaller one.
\<close>

lemma dec_small: "n < 10 \<Longrightarrow> dec n = [48 + n]" "n < 100 \<Longrightarrow> 10 \<le> n \<Longrightarrow> dec n = [48 + n div 10, 48 + n mod 10]"
  by (simp_all add: dec.simps [of n] dec.simps [of "n div 10"])

lemma interval_row_example:
  "format_interval_row 5 0 1 134217728 = lit ''[  5]   0.00-1.00  sec  128.00 MBytes  1.07 Gbits/sec''"
  "format_bytes 1048575 = lit ''1024.00 KBytes''"
proof -
  have h: "hundredths 0 = 0" "hundredths 1 = 100" "hundredths 128 = 12800" "hundredths (2097152 / 1953125) = 107"
    "hundredths (1048575 / 1024) = 102400"
    by (simp_all add: hundredths_def round_half_even_def Let_def floor_divide_of_nat_eq)
  have two: "replicate 2 x = [x, x]" for x :: nat by (simp add: numeral_2_eq_2)
  have d: "dec 128 = lit ''128''" "dec 1024 = lit ''1024''"
    by (simp_all add: dec.simps [of "numeral _"] dec_small lit_def)
  show "format_interval_row 5 0 1 134217728 = lit ''[  5]   0.00-1.00  sec  128.00 MBytes  1.07 Gbits/sec''"
    by (simp add: format_interval_row_def format_bytes_def format_bitrate_bps_def Let_def show_fixed2_def h d
        dec_small pad_left_def pad_right_def show_word_def lit_def two)
  show "format_bytes 1048575 = lit ''1024.00 KBytes''"
    by (simp add: format_bytes_def Let_def show_fixed2_def h d lit_def)
qed

section \<open>Properties\<close>

text \<open>
  (C24) The rows say what was measured: from the text of an interval row the number of the stream can be
  read back exactly, both ends of the interval to half a hundredth of a second, and the size and the
  rate to half a hundredth of the unit they are printed in, which is the largest one not above the
  figure. Sizes below 1024 bytes are read back exactly.
\<close>

theorem interval_row_readable:
  assumes "0 \<le> a" and "a \<le> e"
  shows "\<exists>a' e' b f r g. read_row (format_interval_row sid a e n) = Some (unat sid, a', e', (b, f), (r, g)) \<and>
    \<bar>a' - a\<bar> \<le> 1 / 200 \<and> \<bar>e' - e\<bar> \<le> 1 / 200 \<and>
    unit_for 1024 (real (unat n)) f \<and> \<bar>b - real (unat n)\<bar> \<le> f / 200 \<and> (unat n < 1024 \<longrightarrow> b = real (unat n)) \<and>
    (let rate = real (unat n) * 8 / max (e - a) (1 / 1000000)
     in unit_for 1000 rate g \<and> \<bar>r - rate\<bar> \<le> g / 200)"
proof -
  let ?rate = "real (unat n) * 8 / max (e - a) (1 / 1000000)"
  have e: "0 \<le> e" using assms by simp
  have "0 \<le> ?rate" by (intro divide_nonneg_nonneg mult_nonneg_nonneg of_nat_0_le_iff) simp_all
  obtain num unit where b: "measure_text (format_bytes n) num unit 1024 (real (unat n))"
    and small: "unat n < 1024 \<longrightarrow> read_scaled num unit = Some (real (unat n), 1)"
    using format_bytes_measure by blast
  obtain num' unit' where r: "measure_text (format_bitrate_bps ?rate) num' unit' 1000 ?rate"
    using format_bitrate_measure [OF \<open>0 \<le> ?rate\<close>] by blast
  from b obtain y f where y: "read_scaled num unit = Some (y, f)" "unit_for 1024 (real (unat n)) f"
      "\<bar>y - real (unat n)\<bar> \<le> f / 200"
    by (auto simp: measure_text_def)
  from r obtain z g where z: "read_scaled num' unit' = Some (z, g)" "unit_for 1000 ?rate g" "\<bar>z - ?rate\<bar> \<le> g / 200"
    by (auto simp: measure_text_def)
  from small y(1) have exact: "unat n < 1024 \<longrightarrow> y = real (unat n)" by (metis option.inject prod.inject)
  have "\<And>c. c \<in> set (pad_left 3 (dec (unat sid))) \<Longrightarrow> c \<noteq> 93"
    using dec_digits by (fastforce simp: pad_left_def)
  then have t: "takeWhile (\<lambda>c. c \<noteq> 93) (drop 1 (format_interval_row sid a e n)) = pad_left 3 (dec (unat sid))"
    by (simp add: format_interval_row_def Let_def lit_def show_word_def takeWhile_append2)
  have "read_row (format_interval_row sid a e n) =
      Some (unat sid, real (hundredths a) / 100, real (hundredths e) / 100, (y, f), (z, g))"
    unfolding read_row_def Let_def t interval_row_fields [OF assms(1) e b r] trim_pad_dec
    using y(1) z(1) by (simp add: figure_span [OF figure_fixed2 [OF assms(1)]] read_show_fixed2 assms(1) e)
  with hundredths_close [OF assms(1)] hundredths_close [OF e] y(2,3) z(2,3) exact show ?thesis
    unfolding Let_def by blast
qed

theorem interval_row_readable_witness:
  "\<exists>a' e' b f r g. read_row (format_interval_row 5 0 1 134217728) = Some (5, a', e', (b, f), (r, g)) \<and> \<bar>e' - 1\<bar> \<le> 1 / 200 \<and>
    unit_for 1024 134217728 f \<and> \<bar>b - 134217728\<bar> \<le> f / 200 \<and> unit_for 1000 1073741824 g \<and> \<bar>r - 1073741824\<bar> \<le> g / 200"
  using interval_row_readable [of 0 1 5 134217728] by auto

end
