(* ===== verification/Dyn_Sockets.thy ===== *)
theory Dyn_Sockets
  imports Wire Udp
begin

text \<open>
  The trait object of \<^verbatim>\<open>src/common/protocol.rs\<close>: the UDP implementation of \<open>Socket\<close>, the defaults
  of the trait, the dispatch of a \<open>Box<dyn Socket>\<close> over its three implementations, and the
  constructors of \<open>Protocol\<close>. The dispatched operations implement the byte channel of the framing
  layer, so what is proved of frames holds for whatever socket is in the box.
\<close>

section \<open>The UDP socket of the trait\<close>

text \<open>
  A \<open>UdpSocket\<close> with its default destination, which only \<open>connect\<close> sets. \<open>send\<close> without one fails
  with an error that has no kind of its own.
\<close>

record udp_endpoint =
  ud_socket :: udp_sock
  ud_peer :: "sock_addr option"
  ud_nonblocking :: bool

definition udp_new :: "udp_sock \<Rightarrow> udp_endpoint" where
  "udp_new s = \<lparr>ud_socket = s, ud_peer = None, ud_nonblocking = False\<rparr>"

definition on_udp :: "(udp_sock, 'a) io \<Rightarrow> (udp_endpoint, 'a) io" where
  "on_udp m u = (case m (ud_socket u) of (r, s') \<Rightarrow> (r, u\<lparr>ud_socket := s'\<rparr>))"

definition udp_recv :: "nat \<Rightarrow> (udp_endpoint, bytes) io" where
  "udp_recv n = io_bind (on_udp (udp_recv_from n)) (\<lambda>(d, _). io_return d)"

definition udp_send :: "bytes \<Rightarrow> (udp_endpoint, nat) io" where
  "udp_send buf u =
     (case ud_peer u of None \<Rightarrow> (Inl OtherKind, u) | Some a \<Rightarrow> on_udp (udp_send_to buf a) u)"

definition udp_set_nonblocking :: "bool \<Rightarrow> (udp_endpoint, unit) io" where
  "udp_set_nonblocking b u = (Inr (), u\<lparr>ud_nonblocking := b\<rparr>)"

definition udp_tcp_retransmits :: "u32 io_result" where
  "udp_tcp_retransmits = Inl Unsupported"

section \<open>The remaining operations of the mock\<close>

definition mock_with_send_error :: "io_kind \<Rightarrow> mock_socket \<Rightarrow> mock_socket" where
  "mock_with_send_error e m = m\<lparr>send_err := Some e\<rparr>"

definition mock_set_nonblocking :: "bool \<Rightarrow> (mock_socket, unit) io" where
  "mock_set_nonblocking b m = (Inr (), m\<lparr>mock_nonblocking := Some b\<rparr>)"

definition mock_set_read_timeout :: "duration option \<Rightarrow> (mock_socket, unit) io" where
  "mock_set_read_timeout t m = (Inr (), m\<lparr>mock_read_timeout := Some t\<rparr>)"

definition mock_tcp_retransmits :: "u32 io_result" where
  "mock_tcp_retransmits = Inr 0"

section \<open>Retransmissions and clones of a TCP stream\<close>

text \<open>
  \<open>total_retrans\<close>: the outcome of the \<open>getsockopt\<close> call is the argument, an error of the operating
  system or the structure it filled. A clone is a second handle of the same stream; whether the
  operating system grants it is the argument.
\<close>

record tcp_info =
  tcpi_total_retrans :: u32

definition total_retrans :: "tcp_info io_result \<Rightarrow> u32 io_result" where
  "total_retrans info = map_sum id tcpi_total_retrans info"

definition tcp_try_clone :: "unit io_result \<Rightarrow> tcp \<Rightarrow> tcp io_result" where
  "tcp_try_clone granted s = (case granted of Inl k \<Rightarrow> Inl k | Inr _ \<Rightarrow> Inr s)"

section \<open>The defaults of the trait\<close>

definition default_set_write_timeout :: "duration option \<Rightarrow> ('s, unit) io" where
  "default_set_write_timeout t = io_return ()"

definition default_try_clone_tcp :: "'s \<Rightarrow> 'b io_result" where
  "default_try_clone_tcp s = Inl Unsupported"

definition default_apply_tuning :: "tuning_opts \<Rightarrow> ('s, unit) io" where
  "default_apply_tuning opts = io_return ()"

section \<open>A boxed socket\<close>

datatype socket = TcpBox tcp | UdpBox udp_endpoint | MockBox mock_socket

text \<open>A virtual call: the operation of the implementation in the box.\<close>

definition dispatch ::
  "(tcp, 'a) io \<Rightarrow> (udp_endpoint, 'a) io \<Rightarrow> (mock_socket, 'a) io \<Rightarrow> (socket, 'a) io" where
  "dispatch t u m b =
     (case b of
        TcpBox s \<Rightarrow> map_prod id TcpBox (t s)
      | UdpBox s \<Rightarrow> map_prod id UdpBox (u s)
      | MockBox s \<Rightarrow> map_prod id MockBox (m s))"

definition sock_recv :: "nat \<Rightarrow> (socket, bytes) io" where
  "sock_recv n = dispatch (tcp_recv n) (udp_recv n) (mock_recv n)"

definition sock_send :: "bytes \<Rightarrow> (socket, nat) io" where
  "sock_send buf = dispatch (tcp_send buf) (udp_send buf) (mock_send buf)"

definition sock_set_nonblocking :: "bool \<Rightarrow> (socket, unit) io" where
  "sock_set_nonblocking b = dispatch (tcp_set_nonblocking b) (udp_set_nonblocking b) (mock_set_nonblocking b)"

definition sock_set_read_timeout :: "duration option \<Rightarrow> (socket, unit) io" where
  "sock_set_read_timeout t =
     dispatch (tcp_set_read_timeout t) (on_udp (udp_set_read_timeout t)) (mock_set_read_timeout t)"

definition sock_set_write_timeout :: "duration option \<Rightarrow> (socket, unit) io" where
  "sock_set_write_timeout t =
     dispatch (tcp_set_write_timeout t) (default_set_write_timeout t) (default_set_write_timeout t)"

definition sock_apply_tuning :: "tuning_opts \<Rightarrow> (socket, unit) io" where
  "sock_apply_tuning opts =
     dispatch (tcp_apply_tuning opts) (default_apply_tuning opts) (default_apply_tuning opts)"

definition sock_tcp_retransmits :: "tcp_info io_result \<Rightarrow> socket \<Rightarrow> u32 io_result" where
  "sock_tcp_retransmits info b =
     (case b of TcpBox _ \<Rightarrow> total_retrans info | UdpBox _ \<Rightarrow> udp_tcp_retransmits | MockBox _ \<Rightarrow> mock_tcp_retransmits)"

definition sock_try_clone_tcp :: "unit io_result \<Rightarrow> socket \<Rightarrow> socket io_result" where
  "sock_try_clone_tcp granted b =
     (case b of
        TcpBox s \<Rightarrow> map_sum id TcpBox (tcp_try_clone granted s)
      | UdpBox s \<Rightarrow> default_try_clone_tcp s
      | MockBox s \<Rightarrow> default_try_clone_tcp s)"

text \<open>\<open>Protocol::new_udp\<close> and the server's \<open>tcp_protocol\<close>.\<close>

definition new_udp :: "udp_sock io_result \<Rightarrow> socket option" where
  "new_udp bound = (case bound of Inl _ \<Rightarrow> None | Inr s \<Rightarrow> Some (UdpBox (udp_new s)))"

definition tcp_protocol :: "tcp \<Rightarrow> socket" where
  "tcp_protocol stream = TcpBox stream"

text \<open>The struct \<open>Stream\<close>: it holds a boxed socket once it is connected.\<close>

record stream =
  st_protocol :: "socket option"

definition stream_new :: stream where
  "stream_new = \<lparr>st_protocol = None\<rparr>"

definition send_data :: "bytes \<Rightarrow> (stream, nat) io" where
  "send_data buf st =
     (case st_protocol st of
        Some b \<Rightarrow> (case sock_send buf b of (r, b') \<Rightarrow> (r, st\<lparr>st_protocol := Some b'\<rparr>))
      | None \<Rightarrow> (Inr 0, st))"

section \<open>The boxed socket is a byte channel\<close>

text \<open>
  Datagrams have boundaries, so a UDP socket is no source of bytes; a connected one whose sends
  succeed is a sink.
\<close>

fun sock_pending :: "socket \<Rightarrow> bytes" where
  "sock_pending (TcpBox s) = rx_bytes (tcp_rx s)"
| "sock_pending (UdpBox s) = []"
| "sock_pending (MockBox s) = concat (recv_queue s)"

fun sock_live :: "socket \<Rightarrow> bool" where
  "sock_live (TcpBox s) = rx_ok (tcp_rx s)"
| "sock_live (UdpBox s) = False"
| "sock_live (MockBox s) = (\<forall>c\<in>set (recv_queue s). length c = 1)"

fun sock_closed :: "socket \<Rightarrow> bool" where
  "sock_closed (TcpBox s) = rx_closed (tcp_rx s)"
| "sock_closed (UdpBox s) = False"
| "sock_closed (MockBox s) = False"

fun sock_sent :: "socket \<Rightarrow> bytes" where
  "sock_sent (TcpBox s) = tcp_out s"
| "sock_sent (UdpBox s) = concat (map fst (us_out (ud_socket s)))"
| "sock_sent (MockBox s) = written s"

fun sock_writable :: "socket \<Rightarrow> bool" where
  "sock_writable (TcpBox s) = tx_ok (tcp_tx s)"
| "sock_writable (UdpBox s) = (ud_peer s \<noteq> None \<and> set (us_tx (ud_socket s)) \<subseteq> {None})"
| "sock_writable (MockBox s) = (send_err s = None)"

lemma dispatch_simps [simp]:
  "dispatch t u m (TcpBox a) = (fst (t a), TcpBox (snd (t a)))"
  "dispatch t u m (UdpBox b) = (fst (u b), UdpBox (snd (u b)))"
  "dispatch t u m (MockBox c) = (fst (m c), MockBox (snd (m c)))"
  by (simp_all add: dispatch_def map_prod_def split_beta)

lemma udp_recv_frame: "udp_recv n u = (r, u') \<Longrightarrow>
    us_out (ud_socket u') = us_out (ud_socket u) \<and> us_tx (ud_socket u') = us_tx (ud_socket u) \<and> ud_peer u' = ud_peer u"
  by (auto simp: udp_recv_def io_bind_def io_return_def on_udp_def udp_recv_from_def
      split: prod.splits sum.splits list.splits)

lemma udp_send_some:
  assumes "ud_peer u \<noteq> None" and "set (us_tx (ud_socket u)) \<subseteq> {None}"
  shows "fst (udp_send buf u) = Inr (length buf) \<and> sock_writable (UdpBox (snd (udp_send buf u))) \<and>
    sock_sent (UdpBox (snd (udp_send buf u))) = sock_sent (UdpBox u) @ buf"
  using assms
  by (cases "us_tx (ud_socket u)")
    (auto simp: udp_send_def on_udp_def udp_send_to_def split: option.splits prod.splits)

interpretation boxed: byte_channel sock_recv sock_pending sock_live sock_closed sock_send sock_sent sock_writable
proof unfold_locales
  fix s and n :: nat
  assume "sock_live s" "0 < n" "sock_pending s \<noteq> []"
  then show "\<exists>c s'. sock_recv n s = (Inr c, s') \<and> c \<noteq> [] \<and> length c \<le> n \<and>
      sock_pending s = c @ sock_pending s' \<and> sock_live s' \<and> sock_closed s' = sock_closed s"
    using tcp.rcv_chunk [of _ n] mock.rcv_chunk [of _ n]
    by (cases s) (fastforce simp: sock_recv_def)+
next
  fix s and n :: nat
  assume "sock_live s" "0 < n" "sock_pending s = []" "sock_closed s"
  then show "\<exists>s'. sock_recv n s = (Inr [], s')"
    using tcp.rcv_eof [of _ n] by (cases s) (fastforce simp: sock_recv_def)+
next
  fix s and buf :: bytes
  assume s: "sock_writable s" "buf \<noteq> []"
  show "\<exists>n s'. sock_send buf s = (Inr n, s') \<and> 0 < n \<and> n \<le> length buf \<and>
      sock_sent s' = sock_sent s @ take n buf \<and> sock_writable s'"
  proof (cases s)
    case (TcpBox t)
    with s tcp.snd_some [of t buf] show ?thesis by (fastforce simp: sock_send_def)
  next
    case (UdpBox u)
    with s udp_send_some [of u buf] show ?thesis by (auto simp: sock_send_def)
  next
    case (MockBox m)
    with s mock.snd_some [of m buf] show ?thesis by (fastforce simp: sock_send_def)
  qed
next
  fix n s r s'
  assume r: "sock_recv n s = (r, s')"
  show "sock_sent s' = sock_sent s \<and> sock_writable s' = sock_writable s"
  proof (cases s)
    case (TcpBox t)
    with r tcp.rcv_frame [of n t, OF prod.collapse [symmetric]] show ?thesis by (auto simp: sock_recv_def)
  next
    case (UdpBox u)
    with r udp_recv_frame [of n u, OF prod.collapse [symmetric]] show ?thesis by (auto simp: sock_recv_def)
  next
    case (MockBox m)
    with r mock.rcv_frame [of n m, OF prod.collapse [symmetric]] show ?thesis by (auto simp: sock_recv_def)
  qed
next
  fix b s q s'
  assume r: "sock_send b s = (q, s')"
  show "sock_pending s' = sock_pending s \<and> sock_live s' = sock_live s \<and> sock_closed s' = sock_closed s"
  proof (cases s)
    case (TcpBox t)
    with r tcp.snd_frame [of b t, OF prod.collapse [symmetric]] show ?thesis by (auto simp: sock_send_def)
  next
    case (UdpBox u)
    with r show ?thesis by (auto simp: sock_send_def)
  next
    case (MockBox m)
    with r mock.snd_frame [of b m, OF prod.collapse [symmetric]] show ?thesis by (auto simp: sock_send_def)
  qed
qed

section \<open>Properties\<close>

text \<open>
  (C4) A JSON value framed by one peer arrives at the other, whatever sockets they use: however the
  kernel splits the writes of the sender and the reads of the receiver, the receiver gets the value
  and the bytes behind the frame stay unread. \<open>enc\<close> and \<open>dec'\<close> are the JSON encoder and decoder.
\<close>

theorem framed_json_roundtrip:
  assumes "enc v = Some body" and "dec' body = Some v"
    and "length body \<le> MAX_JSON_FRAME_LEN"
    and "sock_writable a"
  shows "\<exists>a' w. send_framed_json enc sock_send v a = (Inr (), a') \<and> sock_sent a' = sock_sent a @ w \<and>
      (\<forall>b rest. sock_live b \<longrightarrow> sock_pending b = w @ rest \<longrightarrow>
        (\<exists>b'. recv_framed_json dec' sock_recv b = (Inr v, b') \<and> sock_pending b' = rest))"
proof -
  from assms(3) have "length body < 2 ^ 32" by (simp add: MAX_JSON_FRAME_LEN_def)
  from boxed.send_framed_ok [of enc, OF assms(1) this assms(4)] obtain a' where
    "send_framed_json enc sock_send v a = (Inr (), a')" "sock_sent a' = sock_sent a @ frame body" by blast
  moreover have "\<exists>b'. recv_framed_json dec' sock_recv b = (Inr v, b') \<and> sock_pending b' = rest"
    if "sock_live b" and "sock_pending b = frame body @ rest" for b rest
    using boxed.recv_framed_ok [of dec', OF assms(2,3) that] by blast
  ultimately show ?thesis by blast
qed

theorem framed_json_roundtrip_witness:
  "\<exists>a' w. send_framed_json Some sock_send [123, 125] (TcpBox (sample_tcp [])) = (Inr (), a') \<and>
     sock_sent a' = sock_sent (TcpBox (sample_tcp [])) @ w \<and>
     (\<forall>b rest. sock_live b \<longrightarrow> sock_pending b = w @ rest \<longrightarrow>
       (\<exists>b'. recv_framed_json Some sock_recv b = (Inr [123, 125], b') \<and> sock_pending b' = rest))"
  by (rule framed_json_roundtrip [of Some "[123, 125]" "[123, 125]" Some])
    (simp_all add: MAX_JSON_FRAME_LEN_def sample_tcp_def)

text \<open>
  \<open>Protocol::new_udp\<close> binds a socket and never connects it, so the socket it returns cannot send:
  every write of at least one byte fails and nothing leaves the machine, whatever calls were made on
  the socket before.
\<close>

inductive udp_call :: "udp_endpoint \<Rightarrow> udp_endpoint \<Rightarrow> bool" where
  "udp_recv n u = (r, u') \<Longrightarrow> udp_call u u'"
| "udp_send b u = (r, u') \<Longrightarrow> udp_call u u'"
| "udp_set_nonblocking b u = (r, u') \<Longrightarrow> udp_call u u'"
| "on_udp (udp_set_read_timeout t) u = (r, u') \<Longrightarrow> udp_call u u'"

lemma udp_call_unconnected:
  assumes "udp_call u u'" and "ud_peer u = None"
  shows "ud_peer u' = None \<and> us_out (ud_socket u') = us_out (ud_socket u)"
  using assms
proof cases
  case (1 n r)
  with assms(2) udp_recv_frame show ?thesis by simp
qed (auto simp: udp_send_def udp_set_nonblocking_def on_udp_def udp_set_read_timeout_def split: prod.splits if_splits)

lemma udp_calls_unconnected:
  "udp_call\<^sup>*\<^sup>* u u' \<Longrightarrow> ud_peer u = None \<Longrightarrow> ud_peer u' = None \<and> us_out (ud_socket u') = us_out (ud_socket u)"
  by (induction rule: rtranclp_induct) (auto dest: udp_call_unconnected)

lemma udp_protocol_cannot_send:
  assumes "new_udp (Inr s) = Some (UdpBox u)" and "udp_call\<^sup>*\<^sup>* u u'" and "buf \<noteq> []"
  shows "fst (write_all sock_send buf (UdpBox u')) = Inl OtherKind \<and> us_out (ud_socket u') = us_out s"
proof -
  from assms(1) have "ud_peer u = None" "ud_socket u = s" by (auto simp: new_udp_def udp_new_def)
  with udp_calls_unconnected [OF assms(2)] have "ud_peer u' = None" "us_out (ud_socket u') = us_out s" by auto
  with assms(3) show ?thesis by (simp add: write_all.simps sock_send_def udp_send_def)
qed

text \<open>
  A \<open>Stream\<close> without a socket takes no bytes and says so, which \<open>write_all\<close> turns into an error; with
  one it is as good a sink as the socket.
\<close>

lemma unconnected_stream_refuses: "buf \<noteq> [] \<Longrightarrow> write_all send_data buf stream_new = (Inl WriteZero, stream_new)"
  by (simp add: write_all.simps send_data_def stream_new_def)

interpretation data_stream: byte_sink send_data "\<lambda>st. case st_protocol st of None \<Rightarrow> [] | Some b \<Rightarrow> sock_sent b"
  "\<lambda>st. \<exists>b. st_protocol st = Some b \<and> sock_writable b"
proof unfold_locales
  fix st :: stream and buf :: bytes
  assume "\<exists>b. st_protocol st = Some b \<and> sock_writable b" and n: "buf \<noteq> []"
  then obtain b where b: "st_protocol st = Some b" "sock_writable b" by blast
  from boxed.snd_some [OF b(2) n] obtain k b' where
    "sock_send buf b = (Inr k, b')" "0 < k" "k \<le> length buf" "sock_sent b' = sock_sent b @ take k buf" "sock_writable b'"
    by blast
  with b(1) show "\<exists>n s'. send_data buf st = (Inr n, s') \<and> 0 < n \<and> n \<le> length buf \<and>
      (case st_protocol s' of None \<Rightarrow> [] | Some b \<Rightarrow> sock_sent b) =
        (case st_protocol st of None \<Rightarrow> [] | Some b \<Rightarrow> sock_sent b) @ take n buf \<and>
      (\<exists>b. st_protocol s' = Some b \<and> sock_writable b)"
    by (auto simp: send_data_def)
qed

text \<open>Every deadline the trait sets is refused as zero by the real sockets and by no other check.\<close>

lemma sock_set_read_timeout_zero:
  "fst (sock_set_read_timeout t b) = (if t = Some 0 \<and> (\<forall>m. b \<noteq> MockBox m) then Inl InvalidInput else Inr ())"
  by (cases b) (auto simp: sock_set_read_timeout_def tcp_set_read_timeout_def udp_set_read_timeout_def
      mock_set_read_timeout_def on_udp_def split: prod.splits if_splits)

end
