(* ===== verification/Replay.thy ===== *)
theory Replay
  imports Auth
begin

text \<open>
  What the replay cache of \<^verbatim>\<open>src/common/auth.rs\<close> promises, as a specification over the history of
  accepted tokens, and that the cache with its eviction of expired entries implements it: a forward
  simulation between the cache and the history.
\<close>

section \<open>Specification: the history of accepted tokens\<close>

type_synonym history = "(instant \<times> bytes) list"

definition recently_accepted :: "duration \<Rightarrow> instant \<Rightarrow> bytes \<Rightarrow> history \<Rightarrow> bool" where
  "recently_accepted ttl now d h \<longleftrightarrow> list_ex (\<lambda>(t, d'). d' = d \<and> now < t + ttl) h"

fun history_run :: "duration \<Rightarrow> (instant \<times> bytes) list \<Rightarrow> history \<Rightarrow> bool list" where
  "history_run ttl [] h = []"
| "history_run ttl ((now, d) # calls) h =
     (if recently_accepted ttl now d h then False # history_run ttl calls h
      else True # history_run ttl calls (h @ [(now, d)]))"

section \<open>Implementation: a sequence of calls on the cache\<close>

fun cache_run :: "(bytes \<Rightarrow> bytes) \<Rightarrow> (instant \<times> bytes) list \<Rightarrow> nonce_cache \<Rightarrow> bool list" where
  "cache_run sha256 [] c = []"
| "cache_run sha256 ((now, token) # calls) c =
     (case check_and_record sha256 now token c of
        (r, c') \<Rightarrow> (r = Inr ()) # cache_run sha256 calls c')"

section \<open>Simulation\<close>

text \<open>
  From \<open>now\<close> on, the cache holds an unexpired deadline for a digest exactly when the history shows a
  recent acceptance of it.
\<close>

definition cache_sim :: "instant \<Rightarrow> nonce_cache \<Rightarrow> history \<Rightarrow> bool" where
  "cache_sim now c h \<longleftrightarrow> (\<forall>d u. now \<le> u \<longrightarrow>
     ((\<exists>dl. nc_seen c d = Some dl \<and> u < dl) \<longleftrightarrow> recently_accepted (nc_ttl c) u d h))"

lemma recently_accepted_mono:
  "recently_accepted ttl u d h \<Longrightarrow> now \<le> u \<Longrightarrow> recently_accepted ttl now d h"
  by (induction h) (auto simp: recently_accepted_def)

lemma recently_accepted_snoc:
  "recently_accepted ttl u d (h @ [(t, d')]) \<longleftrightarrow> recently_accepted ttl u d h \<or> d' = d \<and> u < t + ttl"
  by (simp add: recently_accepted_def)

lemma retain_live_iff: "retain_live now seen d = Some dl \<longleftrightarrow> seen d = Some dl \<and> now < dl"
  by (auto simp: retain_live_def split: option.splits)

lemma cache_sim_init: "cache_sim now (with_ttl ttl) []"
  by (simp add: cache_sim_def with_ttl_def recently_accepted_def)

lemma cache_sim_retain:
  assumes "cache_sim now c h" and "now \<le> t"
  shows "cache_sim t (c\<lparr>nc_seen := retain_live t (nc_seen c)\<rparr>) h"
  unfolding cache_sim_def
proof (intro allI impI)
  fix d u assume u: "t \<le> u"
  have "(\<exists>dl. (nc_seen c d = Some dl \<and> t < dl) \<and> u < dl) \<longleftrightarrow> (\<exists>dl. nc_seen c d = Some dl \<and> u < dl)"
    using u by (auto intro: le_less_trans)
  also have "\<dots> \<longleftrightarrow> recently_accepted (nc_ttl c) u d h"
    using assms u unfolding cache_sim_def by (meson le_trans)
  finally show "(\<exists>dl. nc_seen (c\<lparr>nc_seen := retain_live t (nc_seen c)\<rparr>) d = Some dl \<and> u < dl) \<longleftrightarrow>
      recently_accepted (nc_ttl (c\<lparr>nc_seen := retain_live t (nc_seen c)\<rparr>)) u d h"
    by (simp add: retain_live_iff)
qed

lemma cache_sim_step:
  assumes "cache_sim now c h" and "now \<le> t" and "check_and_record sha256 t token c = (r, c')"
  shows "(r = Inr () \<longleftrightarrow> \<not> recently_accepted (nc_ttl c) t (sha256 token) h) \<and> nc_ttl c' = nc_ttl c \<and>
    cache_sim t c' (if r = Inr () then h @ [(t, sha256 token)] else h)"
proof -
  let ?c = "c\<lparr>nc_seen := retain_live t (nc_seen c)\<rparr>" and ?d = "sha256 token"
  note sim = cache_sim_retain [OF assms(1,2)]
  have seen: "(\<exists>dl. nc_seen ?c ?d = Some dl) \<longleftrightarrow> recently_accepted (nc_ttl c) t ?d h"
    using sim by (auto simp: cache_sim_def retain_live_iff)
  show ?thesis
  proof (cases "nc_seen ?c ?d")
    case None
    with assms(3) have r: "r = Inr ()" "c' = ?c\<lparr>nc_seen := (nc_seen ?c)(?d \<mapsto> t + nc_ttl c)\<rparr>"
      by (auto simp: check_and_record_def Let_def)
    from None seen have old: "\<not> recently_accepted (nc_ttl c) t ?d h" by simp
    then have "\<not> recently_accepted (nc_ttl c) u ?d h" if "t \<le> u" for u
      using that recently_accepted_mono by blast
    with sim have "cache_sim t c' (h @ [(t, ?d)])"
      by (auto simp: cache_sim_def r(2) recently_accepted_snoc)
    with old r show ?thesis by simp
  next
    case (Some dl)
    with assms(3) have "r = Inl Replayed" "c' = ?c"
      by (auto simp: check_and_record_def Let_def)
    with Some seen sim show ?thesis by simp
  qed
qed

lemma cache_run_sim:
  assumes "cache_sim now c h" and "sorted (now # map fst calls)"
  shows "cache_run sha256 calls c = history_run (nc_ttl c) (map (\<lambda>(t, token). (t, sha256 token)) calls) h"
  using assms
proof (induction calls arbitrary: now c h)
  case (Cons a calls)
  obtain t token where a: "a = (t, token)" by fastforce
  obtain r c' where r: "check_and_record sha256 t token c = (r, c')" by fastforce
  have "now \<le> t" "sorted (t # map fst calls)" using Cons.prems(2) by (simp_all add: a)
  from cache_sim_step [OF Cons.prems(1) this(1) r] Cons.IH [OF _ this(2)] show ?case
    by (auto simp: a r split: if_splits)
qed simp

section \<open>Property\<close>

text \<open>
  (C13) The replay cache implements its specification: on every sequence of calls with a clock that
  does not run backwards, it accepts a token exactly when no token with the same digest was accepted
  within the time to live. Evicting expired entries is not observable.
\<close>

theorem nonce_cache_refines_history:
  assumes "sorted (map fst calls)"
  shows "cache_run sha256 calls (with_ttl ttl) =
    history_run ttl (map (\<lambda>(t, token). (t, sha256 token)) calls) []"
proof -
  have "sorted (0 # map fst calls)" using assms by simp
  from cache_run_sim [OF cache_sim_init this, of sha256 ttl] show ?thesis by (simp add: with_ttl_def)
qed

theorem nonce_cache_refines_history_witness:
  "cache_run (\<lambda>b. b) [(0, [1]), (5, [1]), (7, [2]), (10, [1])] (with_ttl 10) = [True, False, True, True]"
  using nonce_cache_refines_history [of "[(0, [1]), (5, [1]), (7, [2]), (10, [1])]" "\<lambda>b. b" 10]
  by (simp add: recently_accepted_def)

end
