(* ===== verification/Program.thy ===== *)
theory Program
  imports Cli_Config Report_Text
begin

text \<open>
  The process around client and server: \<^verbatim>\<open>src/main.rs\<close>,
  \<^verbatim>\<open>src/common/affinity.rs\<close> on Linux and \<open>into_mode\<close> of
  \<^verbatim>\<open>src/cli.rs\<close>. The command line is given parsed; opening the log file and \<open>dup2\<close> are arguments.
\<close>

section \<open>Affinity\<close>

text \<open>The processor passed to \<open>sched_setaffinity\<close>, if the call is made; its failure is only logged.\<close>

definition set_affinity :: "rstr \<Rightarrow> u64 option" where
  "set_affinity spec = parse_u64 spec"

section \<open>Start-up\<close>

record process =
  pc_title :: "rstr option"
  pc_affinity :: "u64 option"
  pc_stdout :: "rstr option"

datatype launch = Exit nat | RunClient config | RunServer config

fun mode_config :: "mode \<Rightarrow> config" where
  "mode_config (Client c) = c"
| "mode_config (Server c) = c"

definition into_mode :: "cli \<Rightarrow> nat + mode" where
  "into_mode c = (case try_into_mode c of None \<Rightarrow> Inl 2 | Some m \<Rightarrow> Inr m)"

text \<open>Title and affinity come before the redirection of the output.\<close>

definition prepare :: "config \<Rightarrow> process \<Rightarrow> process" where
  "prepare c p = p
     \<lparr>pc_title := (case cf_title c of None \<Rightarrow> pc_title p | Some t \<Rightarrow> set_title t (pc_title p)),
      pc_affinity := (case cf_affinity c of None \<Rightarrow> pc_affinity p | Some spec \<Rightarrow>
        (case set_affinity spec of None \<Rightarrow> pc_affinity p | Some cpu \<Rightarrow> Some cpu))\<rparr>"

text \<open>
  \<open>redirect_stdout_to_file\<close>: the outcomes of opening the file and of \<open>dup2\<close> are arguments. The output
  is redirected only when both succeed.
\<close>

definition redirect_stdout_to_file ::
  "(rstr \<Rightarrow> unit io_result) \<Rightarrow> unit io_result \<Rightarrow> rstr \<Rightarrow> (process, unit) io" where
  "redirect_stdout_to_file opened dup2 path p =
     (case opened path of
        Inl k \<Rightarrow> (Inl k, p)
      | Inr _ \<Rightarrow> (case dup2 of Inl k \<Rightarrow> (Inl k, p) | Inr _ \<Rightarrow> (Inr (), p\<lparr>pc_stdout := Some path\<rparr>)))"

definition main ::
  "(rstr \<Rightarrow> unit io_result) \<Rightarrow> unit io_result \<Rightarrow> cli \<Rightarrow> process \<Rightarrow> launch \<times> process" where
  "main opened dup2 cli p =
     (case into_mode cli of
        Inl code \<Rightarrow> (Exit code, p)
      | Inr mode \<Rightarrow>
          let c = mode_config mode; p1 = prepare c p;
              run = (case mode of Client c \<Rightarrow> RunClient c | Server c \<Rightarrow> RunServer c)
          in case cf_logfile c of
               None \<Rightarrow> (run, p1)
             | Some path \<Rightarrow>
                 (case redirect_stdout_to_file opened dup2 path p1 of
                    (Inl _, p2) \<Rightarrow> (Exit 2, p2)
                  | (Inr _, p2) \<Rightarrow> (run, p2)))"

section \<open>Lemmas\<close>

lemma set_title_once [simp]: "set_title u (set_title t cell) = set_title t cell"
  by (simp add: set_title_def split: option.splits)

text \<open>A processor number is read back from its decimal form; lists and ranges are refused.\<close>

lemma set_affinity_number: "set_affinity (show_word (cpu :: u64)) = Some cpu"
  by (simp add: set_affinity_def)

lemma set_affinity_lists: "set_affinity (lit ''0-3'') = None" "set_affinity (lit ''0,1'') = None"
  by (simp_all add: set_affinity_def parse_u64_def from_str_radix_def lit_def to_digit_def)

text \<open>
  A program that reaches client or server has installed the title of its configuration, unless one was
  installed before, and its output goes to the log file if there is one.
\<close>

lemma main_runs:
  assumes "main opened dup2 cli p = (r, p')" and "r = RunClient c \<or> r = RunServer c"
  shows "\<exists>mode. try_into_mode cli = Some mode \<and> mode_config mode = c \<and>
    (cf_title c \<noteq> None \<longrightarrow> pc_title p = None \<longrightarrow> pc_title p' = cf_title c) \<and>
    (\<forall>path. cf_logfile c = Some path \<longrightarrow> opened path = Inr () \<and> dup2 = Inr () \<and> pc_stdout p' = Some path)"
proof -
  from assms obtain mode where m: "try_into_mode cli = Some mode"
    by (auto simp: main_def into_mode_def split: option.splits)
  with assms show ?thesis
    by (cases mode)
      (auto simp: main_def into_mode_def Let_def prepare_def set_title_def redirect_stdout_to_file_def split: option.splits sum.splits)
qed

end
