(* ===== verification/Spec2Isabelle.thy ===== *)
theory Spec2Isabelle
  imports Server_Trace Server_Contrasts Omit_Report Tcp_End_To_End Udp_End_To_End Pacing_Bounds
    Report_Properties Dyn_Sockets Replay Program
begin

text \<open>
  A verification development for rPerf3, an iPerf3-compatible network throughput tool (the sources
  are under \<^verbatim>\<open>src/src/\<close> of the repository; the paths below omit that prefix).

  \<^bold>\<open>The program.\<close> A client (\<^verbatim>\<open>client.rs\<close>) opens a TCP control connection to a server
  (\<^verbatim>\<open>server.rs\<close>), identifies itself with a 37-byte cookie, and the two go through a fixed sequence
  of one-byte messages and framed JSON payloads. The data streams, TCP or UDP, are opened in between
  with the same cookie, run in threads of their own on both sides (\<^verbatim>\<open>common/stream.rs\<close>,
  \<^verbatim>\<open>common/udp_session.rs\<close>) and leave receipts, from which both sides compute the results they
  exchange. The server runs one session at a time or several at once (\<^verbatim>\<open>common/session.rs\<close>), and
  may demand an RSA-encrypted token (\<^verbatim>\<open>common/auth.rs\<close>).

  \<^bold>\<open>Conventions.\<close> A fallible operation on a socket or on the server's state is a function from the
  state to a result and a new state; \<open>Inl\<close> is an error kind. What the operating system, the clocks and
  the other threads do is data: a socket carries the script of what its reads and writes will find, pauses
  of the peer included (\<open>RxIdle\<close>, which a blocking read waits through unless the socket's deadline comes first), a
  timed loop runs over the clock readings of its rounds, a client round lists what arrives during it.
  Every statement is for all such scripts, so it covers every chunking, failure and interleaving. A
  loop that outlives its script is \<open>Unfinished\<close>; statements that a loop ends are proved as such.
  Machine integers are words of their width and wrap, \<open>f64\<close> is a real number, strings are lists of
  code points; a line on the terminal is a value of the type \<open>line\<close>, and \<open>line_text\<close> is its text.

  \<^bold>\<open>Theories.\<close>
  \<^item> \<open>Rperf_Prelude\<close>: error kinds, fallible stateful operations, and triples \<open>io_ok\<close> to compose them.
  \<^item> \<open>Rust_Words\<close>, \<open>Rust_Time\<close>, \<open>Rust_Strings\<close>: what the code uses of the Rust standard library:
    integers, instants and the stopwatch of \<^verbatim>\<open>common/timer.rs\<close>, strings, UTF-8 and number parsing.
  \<^item> \<open>Sockets\<close> (\<^verbatim>\<open>common/protocol.rs\<close>, \<open>read_exact\<close> and \<open>write_all\<close> of \<^verbatim>\<open>common/wire.rs\<close>): the TCP
    socket, the mock socket and the interfaces \<open>byte_source\<close>, \<open>byte_sink\<close> and \<open>byte_channel\<close>, each
    interpreted on both sockets. \<open>Dyn_Sockets\<close>: the UDP socket, the defaults of the trait and the
    dispatch of a boxed socket, which is a byte channel again.
  \<^item> \<open>Messages\<close> (\<^verbatim>\<open>common/mod.rs\<close>, \<^verbatim>\<open>common/cookie.rs\<close>): control messages, cookies, opening a connection.
  \<^item> \<open>Wire\<close>, \<open>Payload_Json\<close> (\<^verbatim>\<open>common/wire.rs\<close>): framing over any byte channel, and the two payloads with
    the field rules of their serde attributes. JSON text itself is a parameter.
  \<^item> \<open>Meters\<close>, \<open>Reporting\<close>: receipts behind the interface \<open>byte_meter\<close>, the interval reporter, pacing,
    jitter, processor usage and the sums of the JSON report (\<^verbatim>\<open>common/interval.rs\<close>,
    \<^verbatim>\<open>common/pacing.rs\<close>, \<^verbatim>\<open>common/jitter.rs\<close>, \<^verbatim>\<open>common/cpu.rs\<close>, \<^verbatim>\<open>common/json_output.rs\<close>).
  \<^item> \<open>Report_Text\<close>, \<open>Report_Properties\<close> (\<^verbatim>\<open>common/format.rs\<close>, the row functions of \<^verbatim>\<open>common/stream.rs\<close>,
    \<^verbatim>\<open>common/json_output.rs\<close>): the text of byte counts, rates and rows with the rounding to two decimals,
    the JSON value of a report, and a reader for interval rows.
  \<^item> \<open>Udp\<close> (\<^verbatim>\<open>common/udp_header.rs\<close>, \<^verbatim>\<open>common/udp_session.rs\<close>): datagram header, admission of senders,
    the receiver loop with its loss, order and jitter accounting. \<open>Udp_End_To_End\<close>: the client's packets,
    a lossy network and the server's receipt together.
  \<^item> \<open>Cli_Config\<close>, \<open>Program\<close> (\<^verbatim>\<open>cli.rs\<close>, \<^verbatim>\<open>common/bandwidth.rs\<close>, \<^verbatim>\<open>common/test.rs\<close>, \<^verbatim>\<open>main.rs\<close>,
    \<^verbatim>\<open>common/affinity.rs\<close>): from parsed arguments to a configuration and to the start of a program.
  \<^item> \<open>Auth\<close>, \<open>Replay\<close> (\<^verbatim>\<open>common/auth.rs\<close>): tokens, the users file, the server's check; the replay cache
    against a specification that remembers every call.
  \<^item> \<open>Streams\<close> (\<^verbatim>\<open>common/stream.rs\<close> and the stream threads of \<^verbatim>\<open>server.rs\<close>): the sending and receiving
    loops of both sides. \<open>Tcp_End_To_End\<close>: the two threads at the ends of one TCP stream. \<open>Pacing_Bounds\<close>:
    what a thread with a bandwidth limit may send.
  \<^item> \<open>Sessions\<close> (\<^verbatim>\<open>common/session.rs\<close>, \<open>run_concurrent_accept_loop\<close>): the concurrent server as a step
    relation between its accept loop and its session threads, every step labelled with its event
    (a round of the loop, a thread that takes a stream, returns, unregisters, exits or panics, the end of the
    process); the per-address counter behind the interface \<open>slot_pool\<close>.
  \<^item> \<open>Server_Protocol\<close>, \<open>Server\<close>, \<open>Server_Properties\<close> (\<^verbatim>\<open>server.rs\<close>): option limits, the authentication gate,
    accepting connections, and whole sessions: \<open>serve_one_session\<close> with its TCP and UDP branches,
    \<open>serve_session_from_channel\<close>, \<open>run_server_loop\<close>, \<open>run_server\<close>. The record \<open>server\<close> is the state of a
    session (listener, channel of streams, control connection, replay cache, printed lines),
    \<open>session_env\<close> what its surroundings contribute. \<open>Addresses\<close>: the standard library's parser of IP
    addresses and \<open>is_loopback_bind\<close>. \<open>Server_Trace\<close>: the language of what a session writes,
    and what it takes to be admitted. \<open>Stream_Delivery\<close>: the way of a data connection through the concurrent
    server's accept loop and queue into a session, compared with the sequential one. \<open>Server_Contrasts\<close>:
    where the two servers differ.
  \<^item> \<open>Client\<close>, \<open>Client_Properties\<close> (\<^verbatim>\<open>client.rs\<close>, \<open>Test\<close> of \<^verbatim>\<open>common/test.rs\<close>, \<^verbatim>\<open>common/json_output.rs\<close>): the
    record \<open>test\<close>, one definition per handler, one round of the main loop, and \<open>run_client\<close>.
    \<open>Omit_Report\<close>: its two rates when seconds are omitted.

  \<^bold>\<open>What is shown.\<close> Round trips: framed JSON over any socket, both payloads, tokens, interval rows read
  back. Accounting: receipts and interval rows account for every byte; the UDP receiver returns at the first
  turn that ends it, and its receipts are those of all the datagrams of each address before that turn, with
  packet, byte, order and loss counters determined by the sequence numbers received; the same from the
  sender's loop over any network without duplication;
  the two ends of a TCP stream count the same bytes in either direction; a paced sender stays within its
  rate and one packet; datagrams and connections reach the stream they belong to. Sessions: the exact transcript of a
  forward and of a reverse TCP test; the language of everything a session may write under any failure;
  a server without authentication warns unless it is bound to a loopback address; a refused,
  unauthenticated or foreign peer gets nothing; a session of a \<open>--require-auth\<close> server, sequential or
  concurrent, had a valid token on its own control connection or was turned away; validated options rule
  out wrap-around and panics; from any reachable state of the concurrent server a session agrees with the
  sequential one on the same connections, as long as these are never silent for the handshake deadline; limits
  hold under every interleaving. Client: over every run, whatever becomes of its writes, it says at most one
  \<open>TestEnd\<close>, and only when every stream has ended; it completes a test. Together (this theory): each program and each of its stream threads fed with what the other side
  writes, both end and agree on the number of bytes sent and received; a client with the right credentials is admitted. Some statements describe behaviour that
  is not intended: the client that never gives up, the connections a bidirectional test leaves
  behind for the next session, the replay at the end of the cache's lifetime, the slot lost by a panic, the deadline left on
  the data streams of the concurrent server and its end on an error of \<open>accept\<close>, the partial result
  frame nobody notices, the rate that includes omitted bytes, reordering reported as loss, the
  datagram that registers any sender, and the bandwidth that TCP ignores.

  \<^bold>\<open>Bounds.\<close> No definition uses fuel: loops over sockets end with the finite script of their socket, with
  \<open>termination\<close> proofs where the recursion is not structural. \<open>client_completes\<close> gives the loop, after
  the rounds in which the streams report, one quiet round per stream: a round handles one
  report, so that is enough to handle all of them.

  \<^bold>\<open>Not modelled.\<close> Third-party code (the JSON text layer, RSA, base64, SHA-256, the flag parser, the
  password prompt, the JSON pretty printer) is a parameter. The outcomes of \<open>getsockopt\<close>, of cloning and
  binding sockets and of opening the log file are arguments. Log texts on the error stream have no
  effect on the state and are left out, but for the messages of \<open>run_server\<close>, which are the values of the
  type \<open>notice\<close>. Code for other platforms than Linux, and the unit tests, are left
  out; the former only prints or returns \<open>Unsupported\<close>. Switching a TCP socket between blocking and
  non-blocking does not fail in the model, so the branches that only log such a failure are not reached. Time
  passes only as the clock readings and the pauses of the read scripts say. A read on an exhausted script
  returns \<open>WouldBlock\<close>, which is what a socket with a deadline does; a peer that closes is end of stream in
  the script, and the statements that a loop over a socket ends with all bytes demand it. A write deadline that passes is an error in the
  script of the writes. Rounding of \<open>f64\<close> is not modelled.
\<close>

section \<open>Client and server together\<close>

lemma client_options_sent_fields:
  "co_parallel (client_options_sent env c) = cf_parallel c"
  "co_udp (client_options_sent env c) = is_udp (cf_transport c)"
  "co_reverse (client_options_sent env c) = is_reverse (cf_direction c)"
  "co_bidirectional (client_options_sent env c) = is_bidirectional (cf_direction c)"
  "co_authtoken (client_options_sent env c) = client_token env c"
  by (simp_all add: client_options_sent_def options_of_config_def Let_def tcp_defaults_def)

lemma stream_count_parallel:
  assumes "0 < unat (cf_parallel c)"
  shows "stream_count c = cf_parallel c"
proof -
  from assms have "1 \<le> cf_parallel c" by (simp add: word_le_nat_alt)
  then show ?thesis by (simp add: stream_count_def max_def)
qed

text \<open>The line or the JSON entry in which the client reports what the server received.\<close>

definition reports_received :: "config \<Rightarrow> u64 \<Rightarrow> line list \<Rightarrow> bool" where
  "reports_received c n ls \<longleftrightarrow>
     (if cf_json c then \<exists>r. JsonReport r \<in> set ls \<and> js_bytes (je_sum_received (jo_end r)) = n
      else \<exists>secs. SummaryRow secs n (server_role (cf_direction c)) \<in> set ls)"

lemma report_lines_received:
  "reports_received (ts_config t) (sum_list (map sr_bytes (re_streams server))) (report_lines env t server)"
proof -
  obtain b d where "sender_summary (ts_config t) (ts_receipts t) = (b, d)" by fastforce
  moreover have "js_bytes (je_sum_received (jo_end (json_report c sb n secs))) = n" for c sb n secs
    by (simp add: json_report_def json_sum_new_def)
  ultimately show ?thesis by (simp add: reports_received_def report_lines_def Let_def)
qed

lemma reports_received_mono: "reports_received c n ls \<Longrightarrow> set ls \<subseteq> set ls' \<Longrightarrow> reports_received c n ls'"
  by (auto simp: reports_received_def split: if_splits)

text \<open>The line or the JSON entry in which the client reports what it sent itself.\<close>

definition reports_sent :: "config \<Rightarrow> u64 \<Rightarrow> line list \<Rightarrow> bool" where
  "reports_sent c n ls \<longleftrightarrow>
     (if cf_json c then \<exists>r. JsonReport r \<in> set ls \<and> js_bytes (je_sum_sent (jo_end r)) = n
      else \<exists>secs. SummaryRow secs n (client_role (cf_direction c)) \<in> set ls)"

lemma summary_sent:
  assumes "cf_omit (ts_config t) = 0" and "set (summary_lines t @ report_lines env t server) \<subseteq> set ls"
  shows "reports_sent (ts_config t) (sum_list (map cr_bytes_sent (ts_receipts t))) ls"
proof -
  have "js_bytes (je_sum_sent (jo_end (json_report c n sb secs))) = n" for c sb n secs
    by (simp add: json_report_def json_sum_new_def)
  with assms show ?thesis
    by (auto simp: reports_sent_def summary_lines_def report_lines_def sender_summary_def Let_def split: if_splits)
qed

lemma client_side:
  assumes "connect conn (generate_cookie sample) = Some s0" "tcp_rx s0 = []" "tx_ok (tcp_tx s0)"
    and "unat (cf_parallel c) < 2 ^ 31"
    and "ce_print ce (JObj (client_options_fields (client_options_sent ce c))) = Some obody" "length obody < 2 ^ 32"
    and "delivers e1 [message_code ParamExchange]" "delivers e2 [message_code CreateStreams]"
      "delivers e3 [message_code TestStart]" "delivers e4 [message_code TestRunning]"
    and "\<forall>w\<in>set ws. ct_net w = []" "stream_messages ws = replicate (unat (expected_streams c)) TestEnd"
    and "enc_client_results ce (build_client_results (stream_receipts ws)
        (cpu_usage_between (ce_sysconf ce) start (ce_cpu ce) (session_or_zero (stream_receipts ws)))) = Some cbody"
      "length cbody < 2 ^ 32"
    and "dec_server_results ce sbody = Some r" "length sbody \<le> MAX_JSON_FRAME_LEN"
      "delivers e5 (message_code ExchangeResults # frame sbody)" "delivers e6 [message_code DisplayResults]"
  shows "\<exists>t s1. run_client c sample conn start (map (hear ce) [e1, e2, e3, e4] @ ws @
      replicate (unat (expected_streams c)) (hear ce []) @ map (hear ce) [e5, e6]) = Finished t \<and>
    ts_control t = Some s1 \<and>
    tcp_out s1 = tcp_out s0 @ frame obody @ [message_code TestEnd] @ frame cbody @ [message_code IperfDone] \<and>
    reports_received c (sum_list (map sr_bytes (re_streams r))) (ts_lines t) \<and>
    (cf_omit c = 0 \<longrightarrow> reports_sent c (sum_list (map cr_bytes_sent (stream_receipts ws))) (ts_lines t))"
proof -
  from assms(5) have "enc_client_options ce (client_options_sent ce c) = Some obody"
    by (simp add: enc_client_options_def)
  from run_client_completes [OF assms(1-4) this assms(6-18)] obtain t s1 pre where
    t: "run_client c sample conn start (map (hear ce) [e1, e2, e3, e4] @ ws @
        replicate (unat (expected_streams c)) (hear ce []) @ map (hear ce) [e5, e6]) = Finished t"
      "ts_config t = c" "ts_control t = Some s1"
      "tcp_out s1 = tcp_out s0 @ frame obody @ [message_code TestEnd] @ frame cbody @ [message_code IperfDone]"
      "ts_lines t = pre @ summary_lines t @ report_lines ce t r @ (if cf_json c then [] else [DoneLine])"
      "ts_receipts t = stream_receipts ws" by blast
  have "reports_received c (sum_list (map sr_bytes (re_streams r))) (ts_lines t)"
    using report_lines_received [of t r ce] t(2,5) by (auto elim: reports_received_mono)
  moreover have "reports_sent c (sum_list (map cr_bytes_sent (stream_receipts ws))) (ts_lines t)" if "cf_omit c = 0"
  proof -
    have "set (summary_lines t @ report_lines ce t r) \<subseteq> set (ts_lines t)" by (auto simp: t(5))
    from summary_sent [OF _ this] that show ?thesis by (simp add: t(2,6))
  qed
  ultimately show ?thesis using t(1,3,4) by blast
qed

text \<open>
  The same for given payloads and given reports: \<open>pay i\<close> is what data connection \<open>i\<close> brings after the
  cookie, and \<open>ws\<close> are the rounds in which the reports of the streams reach the client's loop.
\<close>

lemma forward_test:
  assumes config: "cf_transport c = Tcp" "cf_direction c = Forward"
      "validate_options (client_options_sent ce c) = Inr ()"
    and conn: "connect conn (generate_cookie sample) = Some s0" "tcp_rx s0 = []" "tx_ok (tcp_tx s0)"
      "tcp_out s0 = generate_cookie sample"
    and options: "ce_print ce (JObj (client_options_fields (client_options_sent ce c))) = Some obody"
      "en_parse en obody = Some (JObj (client_options_fields (client_options_sent ce c)))"
      "length obody \<le> MAX_JSON_FRAME_LEN"
    and results: "enc_client_results ce (build_client_results (stream_receipts ws)
        (cpu_usage_between (ce_sysconf ce) start (ce_cpu ce) (session_or_zero (stream_receipts ws)))) = Some cbody"
      "dec_results en cbody = Some res" "length cbody \<le> MAX_JSON_FRAME_LEN"
    and server_results: "\<And>r. map sr_bytes (re_streams r) = map (\<lambda>i. of_nat (length (pay i))) [0..<unat (cf_parallel c)] \<Longrightarrow>
      \<exists>b r'. enc_results en r = Some b \<and> length b \<le> MAX_JSON_FRAME_LEN \<and> dec_server_results ce b = Some r' \<and>
        map sr_bytes (re_streams r') = map sr_bytes (re_streams r)"
    and streams: "\<forall>w\<in>set ws. ct_net w = []" "stream_messages ws = replicate (unat (cf_parallel c)) TestEnd"
    and control: "sv_listener s 0 = Inr ctl" "rx_ok (tcp_rx ctl)" "tx_ok (tcp_tx ctl)" "tcp_out ctl = []"
      "rx_bytes (tcp_rx ctl) = generate_cookie sample @ frame obody @ [message_code TestEnd] @ frame cbody @
        [message_code IperfDone]"
    and data: "\<And>i. i < unat (cf_parallel c) \<Longrightarrow> \<exists>d. sv_listener s (Suc i) = Inr d \<and>
        rx_ok (tcp_rx d) \<and> rx_closed (tcp_rx d) \<and> tx_ok (tcp_tx d) \<and> tcp_out d = [] \<and>
        rx_bytes (tcp_rx d) = generate_cookie sample @ pay i"
    and server: "timeout \<noteq> Some 0" "auth_passes en (client_options_sent ce c) (sv_nonces s)"
  shows "\<exists>sbody s'. serve_one_session en timeout s =
      (Inr (Finished (of_nat (\<Sum>i<unat (cf_parallel c). length (pay i)))), s') \<and>
    tcp_out (sv_control s') = map message_code [ParamExchange, CreateStreams, TestStart, TestRunning,
      ExchangeResults] @ frame sbody @ [message_code DisplayResults] \<and>
    (\<forall>e1 e2 e3 e4 e5 e6. delivers e1 [message_code ParamExchange] \<longrightarrow> delivers e2 [message_code CreateStreams] \<longrightarrow>
      delivers e3 [message_code TestStart] \<longrightarrow> delivers e4 [message_code TestRunning] \<longrightarrow>
      delivers e5 (message_code ExchangeResults # frame sbody) \<longrightarrow> delivers e6 [message_code DisplayResults] \<longrightarrow>
      (\<exists>t s1. run_client c sample conn start (map (hear ce) [e1, e2, e3, e4] @ ws @
          replicate (unat (cf_parallel c)) (hear ce []) @ map (hear ce) [e5, e6]) = Finished t \<and>
        ts_control t = Some s1 \<and> tcp_out s1 = rx_bytes (tcp_rx ctl) \<and>
        reports_received c (of_nat (\<Sum>i<unat (cf_parallel c). length (pay i))) (ts_lines t) \<and>
        (cf_omit c = 0 \<longrightarrow> reports_sent c (sum_list (map cr_bytes_sent (stream_receipts ws))) (ts_lines t))))"
proof -
  let ?opts = "client_options_sent ce c" and ?n = "unat (cf_parallel c)"
  let ?total = "of_nat (\<Sum>i<unat (cf_parallel c). length (pay i)) :: u64"
  note f = client_options_sent_fields [of ce c]
  from config(3) have n: "0 < ?n" "?n \<le> 128" by (simp_all add: validate_options_iff f)
  have ex: "unat (expected_streams c) = ?n"
    using n config(2) by (simp add: expected_streams_unat stream_count_parallel direction_defs)
  have dec: "dec_options en obody = Some ?opts"
    using options(2) client_options_build_fields [of "[]" ?opts] by (simp add: dec_options_def unknown_keys_def)
  have "\<exists>b. enc_results en r = Some b \<and> length b < 2 ^ 32"
    if "map sr_bytes (re_streams r) = map (\<lambda>i. of_nat (length (pay i))) [0..<?n]" for r
    using server_results [OF that] by (auto simp: MAX_JSON_FRAME_LEN_def)
  then obtain rs sbody s' where serve: "serve_one_session en timeout s = (Inr (Finished ?total), s')"
    "enc_results en (build_server_results rs (session_cpu en rs)) = Some sbody"
    "map rc_bytes rs = map (\<lambda>i. of_nat (length (pay i))) [0..<?n]"
    "tcp_out (sv_control s') = map message_code [ParamExchange, CreateStreams, TestStart, TestRunning,
      ExchangeResults] @ frame sbody @ [message_code DisplayResults]"
    using tcp_session_complete [of s ctl "generate_cookie sample" obody "[]" cbody ?opts pay en res timeout]
      control data dec results(2,3) options(3) server config f
    by (auto simp: direction_defs is_udp_def)
  from server_results [of "build_server_results rs (session_cpu en rs)"] serve(2,3) obtain r where
    r: "length sbody \<le> MAX_JSON_FRAME_LEN" "dec_server_results ce sbody = Some r"
      "map sr_bytes (re_streams r) = map rc_bytes rs" by auto
  have total: "sum_list (map sr_bytes (re_streams r)) = ?total"
    by (simp add: r(3) serve(3) interv_sum_list_conv_sum_set_nat atLeast0LessThan)
  have client: "\<exists>t s1. run_client c sample conn start (map (hear ce) [e1, e2, e3, e4] @ ws @
      replicate ?n (hear ce []) @ map (hear ce) [e5, e6]) = Finished t \<and>
    ts_control t = Some s1 \<and> tcp_out s1 = rx_bytes (tcp_rx ctl) \<and> reports_received c ?total (ts_lines t) \<and>
    (cf_omit c = 0 \<longrightarrow> reports_sent c (sum_list (map cr_bytes_sent (stream_receipts ws))) (ts_lines t))"
    if d: "delivers e1 [message_code ParamExchange]" "delivers e2 [message_code CreateStreams]"
      "delivers e3 [message_code TestStart]" "delivers e4 [message_code TestRunning]"
      "delivers e5 (message_code ExchangeResults # frame sbody)" "delivers e6 [message_code DisplayResults]"
    for e1 e2 e3 e4 e5 e6
    using client_side [OF conn(1-3) _ options(1) _ d(1-4) streams(1) _ results(1) _ r(2,1) d(5,6)]
      n options(3) results(3) streams(2) conn(4) control(5)
    by (simp add: ex total MAX_JSON_FRAME_LEN_def)
  with serve(1,4) show ?thesis by blast
qed

text \<open>
  (C1) A whole forward TCP test, stream threads included, with each program reading what the other wrote.
  The control connection brings the server the bytes the client sends; each data connection brings it what
  one of the client's stream threads wrote, in any order of the streams. Then the server returns the number
  of bytes the threads sent. The client, given what the server wrote in any pieces and the reports of its
  threads in any order, ends having written exactly the bytes the server read, and its report gives this
  same number twice, as sent and as received. \<open>ce_print\<close>, \<open>en_parse\<close> and their counterparts are the JSON
  library: the options and the byte counts of the results survive it.
\<close>

theorem end_to_end:
  assumes config: "cf_transport c = Tcp" "cf_direction c = Forward" "cf_omit c = 0"
      "validate_options (client_options_sent ce c) = Inr ()"
    and conn: "connect conn (generate_cookie sample) = Some s0" "tcp_rx s0 = []" "tx_ok (tcp_tx s0)"
      "tcp_out s0 = generate_cookie sample"
    and options: "ce_print ce (JObj (client_options_fields (client_options_sent ce c))) = Some obody"
      "en_parse en obody = Some (JObj (client_options_fields (client_options_sent ce c)))"
      "length obody \<le> MAX_JSON_FRAME_LEN"
    and results: "enc_client_results ce (build_client_results (stream_receipts ws)
        (cpu_usage_between (ce_sysconf ce) start (ce_cpu ce) (session_or_zero (stream_receipts ws)))) = Some cbody"
      "dec_results en cbody = Some res" "length cbody \<le> MAX_JSON_FRAME_LEN"
    and threads: "\<And>i. i < unat (cf_parallel c) \<Longrightarrow>
        stream_start c (generate_cookie sample) (of_nat (Suc i)) (sconn i) (t0 i) (turns i) (retr i) =
          Finished (fin i, Some (sock i)) \<and>
        (\<exists>x. connect (sconn i) (generate_cookie sample) = Some x \<and> tcp_out x = generate_cookie sample)"
    and order: "bij_betw p {..<unat (cf_parallel c)} {..<unat (cf_parallel c)}"
    and server_results: "\<And>r. map sr_bytes (re_streams r) =
        map (\<lambda>i. cr_bytes_sent (sf_receipt (fin (p i)))) [0..<unat (cf_parallel c)] \<Longrightarrow>
      \<exists>b r'. enc_results en r = Some b \<and> length b \<le> MAX_JSON_FRAME_LEN \<and> dec_server_results ce b = Some r' \<and>
        map sr_bytes (re_streams r') = map sr_bytes (re_streams r)"
    and reports: "\<forall>w\<in>set ws. ct_net w = []"
      "mset (stream_messages ws) = mset (map (\<lambda>i. sf_message (fin i)) [0..<unat (cf_parallel c)])"
      "mset (stream_receipts ws) = mset (map (\<lambda>i. sf_receipt (fin i)) [0..<unat (cf_parallel c)])"
    and control: "sv_listener s 0 = Inr ctl" "rx_ok (tcp_rx ctl)" "tx_ok (tcp_tx ctl)" "tcp_out ctl = []"
      "rx_bytes (tcp_rx ctl) = generate_cookie sample @ frame obody @ [message_code TestEnd] @ frame cbody @
        [message_code IperfDone]"
    and data: "\<And>i. i < unat (cf_parallel c) \<Longrightarrow> \<exists>d. sv_listener s (Suc i) = Inr d \<and>
        rx_ok (tcp_rx d) \<and> rx_closed (tcp_rx d) \<and> tx_ok (tcp_tx d) \<and> tcp_out d = [] \<and>
        rx_bytes (tcp_rx d) = tcp_out (sock (p i))"
    and server: "timeout \<noteq> Some 0" "auth_passes en (client_options_sent ce c) (sv_nonces s)"
  shows "\<exists>total sbody s'. total = (\<Sum>i<unat (cf_parallel c). cr_bytes_sent (sf_receipt (fin i))) \<and>
    serve_one_session en timeout s = (Inr (Finished total), s') \<and>
    tcp_out (sv_control s') = map message_code [ParamExchange, CreateStreams, TestStart, TestRunning,
      ExchangeResults] @ frame sbody @ [message_code DisplayResults] \<and>
    (\<forall>e1 e2 e3 e4 e5 e6. delivers e1 [message_code ParamExchange] \<longrightarrow> delivers e2 [message_code CreateStreams] \<longrightarrow>
      delivers e3 [message_code TestStart] \<longrightarrow> delivers e4 [message_code TestRunning] \<longrightarrow>
      delivers e5 (message_code ExchangeResults # frame sbody) \<longrightarrow> delivers e6 [message_code DisplayResults] \<longrightarrow>
      (\<exists>t s1. run_client c sample conn start (map (hear ce) [e1, e2, e3, e4] @ ws @
          replicate (unat (cf_parallel c)) (hear ce []) @ map (hear ce) [e5, e6]) = Finished t \<and>
        ts_control t = Some s1 \<and> tcp_out s1 = rx_bytes (tcp_rx ctl) \<and>
        reports_received c total (ts_lines t) \<and> reports_sent c total (ts_lines t)))"
proof -
  let ?n = "unat (cf_parallel c)" and ?cookie = "generate_cookie sample"
  have "\<exists>k. tcp_out (sock i) = ?cookie @ replicate k 1 \<and> cr_bytes_sent (sf_receipt (fin i)) = of_nat k \<and>
      sf_message (fin i) = TestEnd" if i: "i < ?n" for i
    using stream_start_counts threads [OF i] by metis
  then obtain k where k: "\<And>i. i < ?n \<Longrightarrow> tcp_out (sock i) = ?cookie @ replicate (k i) 1"
    "\<And>i. i < ?n \<Longrightarrow> cr_bytes_sent (sf_receipt (fin i)) = of_nat (k i)"
    "\<And>i. i < ?n \<Longrightarrow> sf_message (fin i) = TestEnd" by metis
  have p: "p i < ?n" if "i < ?n" for i using bij_betwE [OF order] that by auto
  define total where "total = (\<Sum>i<?n. cr_bytes_sent (sf_receipt (fin i)))"
  have "total = of_nat (\<Sum>i<?n. k i)" by (simp add: total_def k(2))
  also have "(\<Sum>i<?n. k i) = (\<Sum>i<?n. length (replicate (k (p i)) (1 :: u8)))"
    by (simp add: sum.reindex_bij_betw [OF order])
  finally have total: "of_nat (\<Sum>i<?n. length (replicate (k (p i)) (1 :: u8))) = total" by (rule sym)
  have sent: "sum_list (map cr_bytes_sent (stream_receipts ws)) = total"
  proof -
    have "mset (map cr_bytes_sent (stream_receipts ws)) =
        mset (map cr_bytes_sent (map (\<lambda>i. sf_receipt (fin i)) [0..<?n]))"
      by (simp only: mset_map reports(3))
    from arg_cong [OF this, of sum_mset] show ?thesis
      by (simp only: sum_mset_sum_list) (simp add: total_def comp_def interv_sum_list_conv_sum_set_nat atLeast0LessThan)
  qed
  have "set (stream_messages ws) \<subseteq> {TestEnd}" "length (stream_messages ws) = ?n"
    using arg_cong [OF reports(2), of set_mset] arg_cong [OF reports(2), of size] k(3) by auto
  then have ends: "stream_messages ws = replicate ?n TestEnd" by (metis empty_set replicate_eqI singletonD subsetD)
  have bytes: "map (\<lambda>i. of_nat (length (replicate (k (p i)) (1 :: u8)))) [0..<?n] =
      map (\<lambda>i. cr_bytes_sent (sf_receipt (fin (p i)))) [0..<?n]"
    using p k(2) by simp
  have data': "\<exists>d. sv_listener s (Suc i) = Inr d \<and> rx_ok (tcp_rx d) \<and> rx_closed (tcp_rx d) \<and> tx_ok (tcp_tx d) \<and>
      tcp_out d = [] \<and> rx_bytes (tcp_rx d) = ?cookie @ replicate (k (p i)) 1" if "i < ?n" for i
    using data [OF that] k(1) [OF p [OF that]] by simp
  from forward_test [where pay = "\<lambda>i. replicate (k (p i)) 1",
      OF config(1,2,4) conn options results server_results [unfolded bytes [symmetric]] reports(1) ends control data' server]
  show ?thesis unfolding total sent by (intro exI [of _ total]) (simp only: total_def config(3) simp_thms)
qed

text \<open>The two programs of the witness: one stream of three bytes.\<close>

definition interop_client :: "unit client_env" where
  "interop_client = sample_client_env
     \<lparr>ce_print := (\<lambda>j. case j of
          JObj fs \<Rightarrow> Some (if list_ex (\<lambda>f. fst f = lit ''client_version'') fs then [1] else [2]) | _ \<Rightarrow> None),
      ce_parse := (\<lambda>_. Some (JObj (results_fields (results_empty\<lparr>re_streams :=
        [\<lparr>sr_id = 1, sr_bytes = 3, sr_retransmits = 0, sr_jitter = 0, sr_errors = 0, sr_packets = 0\<rparr>]\<rparr>))))\<rparr>"

definition interop_server :: server where
  "interop_server = (sample_server [])\<lparr>sv_listener := (\<lambda>i. Inr (sample_tcp
     (if i = 0 then [RxData (generate_cookie (\<lambda>_. 0) @ frame [1] @ [message_code TestEnd] @ frame [2]),
        RxData [message_code IperfDone]]
      else [RxData (generate_cookie (\<lambda>_. 0) @ [1, 1]), RxData [1], RxData []])))\<rparr>"

abbreviation interop_opts :: client_options where
  "interop_opts \<equiv> client_options_sent interop_client (with_host [])"

lemma interop_json:
  "ce_print interop_client (JObj (client_options_fields p)) = Some [1]"
  "enc_client_results interop_client r = Some [2]"
  "\<exists>r. dec_server_results interop_client b = Some r \<and> map sr_bytes (re_streams r) = [3]"
  using results_json_parse [of "results_empty\<lparr>re_streams :=
      [\<lparr>sr_id = 1, sr_bytes = 3, sr_retransmits = 0, sr_jitter = 0, sr_errors = 0, sr_packets = 0\<rparr>]\<rparr>"]
  by (simp_all add: interop_client_def client_options_fields_def enc_client_results_def results_fields_def
      dec_server_results_def lit_def)

lemma interop_options: "validate_options interop_opts = Inr ()" "co_authtoken interop_opts = None"
  by (simp_all add: validate_options_iff client_options_sent_def options_of_config_def client_token_def
      tcp_defaults_def with_host_def DEFAULT_TCP_LEN_def Let_def)

text \<open>A data connection whose kernel takes the cookie and three bytes of the payload.\<close>

definition interop_data :: tcp where
  "interop_data = sample_conn\<lparr>tcp_tx := [TxAccept 40, TxAccept 3]\<rparr>"

lemma interop_data_connect:
  "connect (Inr interop_data) (generate_cookie (\<lambda>_. 0)) =
     Some (sample_conn\<lparr>tcp_nonblocking := True, tcp_tx := [TxAccept 3], tcp_out := generate_cookie (\<lambda>_. 0)\<rparr>)"
  by (simp add: connect_def new_tcp_def tcp_set_nonblocking_def send_cookie_def io_bind_def tcp_send_def
      interop_data_def sample_conn_def COOKIE_LEN_def)

lemma interop_stream:
  "\<exists>f x. stream_start (with_host []) (generate_cookie (\<lambda>_. 0)) 1 (Inr interop_data) 0
      [Streams.sample_turn 5, Streams.sample_turn (from_secs 10)] (Inr 0) = Finished (f, Some x) \<and>
    cr_bytes_sent (sf_receipt f) = 3 \<and> tcp_out x = generate_cookie (\<lambda>_. 0) @ [1, 1, 1] \<and> sf_message f = TestEnd"
  by (simp add: stream_start_def interop_data_connect Let_def with_host_def sample_conn_def Streams.sample_turn_def
      stream_duration_def from_secs_def should_stop_def timer_is_elapsed_def timer_elapsed_def timer_new_def
      duration_since_def tcp_set_nonblocking_def tcp_apply_tuning_def tcp_send_def build_payload_def DEFAULT_TCP_LEN_def
      client_meter.tick_total client_receipt_empty_def emit_stream_finished_def) (simp add: numeral_eq_Suc)

theorem end_to_end_witness:
  "\<exists>w sbody s' t. serve_one_session (sample_session_env interop_opts) (Some 5) interop_server = (Inr (Finished 3), s') \<and>
    run_client (with_host []) (\<lambda>_. 0) (Inr sample_conn) \<lparr>cpu_user_ticks = 0, cpu_system_ticks = 0\<rparr>
      (map (hear interop_client) [[RxData [9]], [RxData [10]], [RxData [1]], [RxData [2]]] @ [w] @
       [hear interop_client []] @ map (hear interop_client) [[RxData (13 # frame sbody)], [RxData [14]]]) = Finished t \<and>
    reports_sent (with_host []) 3 (ts_lines t) \<and> reports_received (with_host []) 3 (ts_lines t)"
proof -
  let ?c = "with_host [] :: config" and ?cookie = "generate_cookie (\<lambda>_. 0)" and ?en = "sample_session_env interop_opts"
  let ?s0 = "sample_conn\<lparr>tcp_nonblocking := True, tcp_out := ?cookie\<rparr>"
  let ?ctl = "sample_tcp [RxData (?cookie @ frame [1] @ [message_code TestEnd] @ frame [2]), RxData [message_code IperfDone]]"
  have n: "unat (cf_parallel ?c) = 1" by (simp add: with_host_def)
  have config: "cf_transport ?c = Tcp" "cf_direction ?c = Forward" "cf_omit ?c = 0" by (simp_all add: with_host_def)
  from interop_stream obtain f x where
    f: "stream_start ?c ?cookie 1 (Inr interop_data) 0 [Streams.sample_turn 5, Streams.sample_turn (from_secs 10)] (Inr 0) =
        Finished (f, Some x)" "cr_bytes_sent (sf_receipt f) = 3" "tcp_out x = ?cookie @ [1, 1, 1]" "sf_message f = TestEnd"
    by blast
  define w where "w = (hear interop_client [])\<lparr>ct_pre := ([sf_receipt f], [TestEnd])\<rparr>"
  have threads: "stream_start ?c ?cookie (of_nat (Suc i)) (Inr interop_data) 0
      [Streams.sample_turn 5, Streams.sample_turn (from_secs 10)] (Inr 0) = Finished (f, Some x) \<and>
    (\<exists>y. connect (Inr interop_data) ?cookie = Some y \<and> tcp_out y = ?cookie)" if "i < unat (cf_parallel ?c)" for i
    using that f(1) n interop_data_connect by simp
  have order: "bij_betw id {..<unat (cf_parallel ?c)} {..<unat (cf_parallel ?c)}" by simp
  have conn: "connect (Inr sample_conn) ?cookie = Some ?s0" "tcp_rx ?s0 = []" "tx_ok (tcp_tx ?s0)" "tcp_out ?s0 = ?cookie"
    by (simp_all add: connect_def new_tcp_def tcp_set_nonblocking_def send_cookie_def io_bind_def tcp_send_def sample_conn_def)
  have parse: "en_parse ?en [1] = Some (JObj (client_options_fields interop_opts))"
    by (simp add: sample_session_env_def)
  have sizes: "length [1 :: u8] \<le> MAX_JSON_FRAME_LEN" "length [2 :: u8] \<le> MAX_JSON_FRAME_LEN"
    by (simp_all add: MAX_JSON_FRAME_LEN_def)
  have server: "\<exists>b r'. enc_results ?en r = Some b \<and> length b \<le> MAX_JSON_FRAME_LEN \<and>
      dec_server_results interop_client b = Some r' \<and> map sr_bytes (re_streams r') = map sr_bytes (re_streams r)"
    if "map sr_bytes (re_streams r) = map (\<lambda>i. cr_bytes_sent (sf_receipt f)) [0..<unat (cf_parallel ?c)]" for r
    using that n f(2) interop_json(3) [of "[3]"] sample_decodes(3) [of interop_opts r] by (auto simp: MAX_JSON_FRAME_LEN_def)
  have reports: "\<forall>w\<in>set [w]. ct_net w = []"
    "mset (stream_messages [w]) = mset (map (\<lambda>i. sf_message f) [0..<unat (cf_parallel ?c)])"
    "mset (stream_receipts [w]) = mset (map (\<lambda>i. sf_receipt f) [0..<unat (cf_parallel ?c)])"
    by (simp_all add: n w_def stream_messages_def turn_messages_def stream_receipts_def turn_receipts_def hear_def f(4))
  have control: "sv_listener interop_server 0 = Inr ?ctl" "rx_ok (tcp_rx ?ctl)" "tx_ok (tcp_tx ?ctl)" "tcp_out ?ctl = []"
    "rx_bytes (tcp_rx ?ctl) = ?cookie @ frame [1] @ [message_code TestEnd] @ frame [2] @ [message_code IperfDone]"
    by (simp_all add: interop_server_def sample_tcp_def frame_def)
  have data: "\<exists>d. sv_listener interop_server (Suc i) = Inr d \<and> rx_ok (tcp_rx d) \<and> rx_closed (tcp_rx d) \<and>
      tx_ok (tcp_tx d) \<and> tcp_out d = [] \<and> rx_bytes (tcp_rx d) = tcp_out x" for i
    by (simp add: f(3) interop_server_def sample_tcp_def rx_closed_def)
  have auth: "auth_passes ?en interop_opts (sv_nonces interop_server)"
    by (simp add: auth_passes_def sample_session_env_def)
  obtain sbody s' where "serve_one_session ?en (Some 5) interop_server = (Inr (Finished 3), s')"
    and client: "\<forall>e1 e2 e3 e4 e5 e6. delivers e1 [message_code ParamExchange] \<longrightarrow> delivers e2 [message_code CreateStreams] \<longrightarrow>
      delivers e3 [message_code TestStart] \<longrightarrow> delivers e4 [message_code TestRunning] \<longrightarrow>
      delivers e5 (message_code ExchangeResults # frame sbody) \<longrightarrow> delivers e6 [message_code DisplayResults] \<longrightarrow>
      (\<exists>t s1. run_client ?c (\<lambda>_. 0) (Inr sample_conn) \<lparr>cpu_user_ticks = 0, cpu_system_ticks = 0\<rparr>
          (map (hear interop_client) [e1, e2, e3, e4] @ [w] @
          replicate 1 (hear interop_client []) @ map (hear interop_client) [e5, e6]) = Finished t \<and>
        ts_control t = Some s1 \<and> tcp_out s1 = rx_bytes (tcp_rx ?ctl) \<and>
        reports_received ?c 3 (ts_lines t) \<and> reports_sent ?c 3 (ts_lines t))"
    using end_to_end [where timeout = "Some 5" and start = "\<lparr>cpu_user_ticks = 0, cpu_system_ticks = 0\<rparr>" and p = id,
        OF config interop_options(1) conn interop_json(1) parse sizes(1) interop_json(2) sample_decodes(2) sizes(2)
          threads order server reports control data _ auth] f(2) by (auto simp: n)
  moreover have "delivers [RxData (x # y)] (x # y)" for x y by (simp add: delivers_def rx_closed_def)
  ultimately show ?thesis
    by (metis (no_types, lifting) One_nat_def message_code.simps(1,2,9,10,13,14) replicate_Suc replicate_0)
qed

text \<open>
  (C26) A client with the right password gets in: if the public key of the client belongs to the private
  key of the server, the user is listed with the hash of the password, the clocks differ by at most
  ten seconds and the token was not seen before, the token the client puts into its options passes
  the server's check. Decryption is assumed to undo encryption for this one message.
\<close>

theorem client_authenticates:
  assumes config: "cf_rsa_public_key c = Some path" "cf_username c = Some user" "cf_password c = Some pw"
      "load_public_key_pem (ce_pkcs8 ce) (ce_pkcs1 ce) (ce_key_size ce) (ce_fs ce) path = Inr pub"
    and credentials: "valid_str user" "user \<noteq> []" "\<not> list_ex is_control user" "pw \<noteq> []" "\<not> list_ex is_control pw"
    and clocks: "ce_wall ce = Some ts" "abs_diff now ts \<le> 10"
    and crypto: "ce_encrypt ce pub (as_bytes (token_payload ts user (sha256_hex (ce_sha256 ce) pw))) = Some ct"
      "ae_decrypt env key ct = Some (as_bytes (token_payload ts user (sha256_hex (ce_sha256 ce) pw)))"
      "ae_b64_decode env (ce_b64_encode ce ct) = Some ct" "\<And>b. length (ce_sha256 ce b) = 32"
    and server: "load_private_key_pem (ae_pkcs8 env) (ae_pkcs1 env) (ae_key_size env) (ae_fs env) pk = Inr key"
      "load_authorized_users (ae_fs env) up = Inr users"
      "users (to_ascii_lowercase user) = Some (sha256_hex (ce_sha256 ce) pw)"
    and unseen: "\<And>dl. nc_seen n (ae_sha256 env ct) = Some dl \<Longrightarrow> dl \<le> t"
  shows "fst (check_auth_inner env pk up (Some now) t (client_options_sent ce c) n) = Inr ()"
proof -
  let ?hash = "sha256_hex (ce_sha256 ce) pw"
  let ?claim = "\<lparr>ac_timestamp = ts, ac_username = user, ac_password_sha256_hex = ?hash\<rparr>"
  note h = sha256_hex_ok [of "ce_sha256 ce" pw, OF crypto(4)]
  have "validate_credential_field user = Inr ()" "validate_credential_field pw = Inr ()"
    using credentials by (simp_all add: validate_credential_iff)
  then have "client_token ce c = Some (ce_b64_encode ce ct)"
    using config clocks(1) crypto(1) by (simp add: client_token_def build_authtoken_def)
  then have token: "co_authtoken (client_options_sent ce c) = Some (ce_b64_encode ce ct)"
    by (simp add: client_options_sent_fields)
  have claim: "decode_authtoken_bytes (ae_decrypt env key) ct = Inr ?claim"
    by (rule decode_payload [of "ae_decrypt env key", OF crypto(2) credentials(1-3) h(3,1,2)])
  have time: "validate_timestamp (Some now) ?claim TIMESTAMP_SKEW_SECS = Inr ()"
    using clocks(2) by (simp add: validate_timestamp_iff TIMESTAMP_SKEW_SECS_def)
  have "fst (check_and_record (ae_sha256 env) t ct n) = Inr ()"
    using unseen by (auto simp: check_and_record_ok_iff split: option.splits)
  then obtain n' where fresh: "check_and_record (ae_sha256 env) t ct n = (Inr (), n')" by (metis prod.collapse)
  have "authorize ?claim users = Inr ()" using server(3) h(4) by (simp add: authorize_iff)
  with server(1,2) token crypto(3) claim time fresh
  have "check_auth_inner env pk up (Some now) t (client_options_sent ce c) n = (Inr (), n')"
    unfolding check_auth_inner_iff by blast
  then show ?thesis by simp
qed

theorem client_authenticates_witness:
  "fst (check_auth_inner sample_env (lit ''k'') (lit ''u'') (Some 1000) 5 (client_options_sent
     (sample_client_env\<lparr>ce_fs := (\<lambda>_. Some \<lparr>sf_mode = 420, sf_contents = Some []\<rparr>), ce_pkcs8 := (\<lambda>_. Some ()),
        ce_key_size := (\<lambda>_. 256), ce_encrypt := (\<lambda>_. Some), ce_b64_encode := map unat,
        ce_sha256 := (\<lambda>_. replicate 32 0), ce_wall := Some 1003\<rparr>)
     ((with_host [])\<lparr>cf_rsa_public_key := Some [], cf_username := Some (lit ''bob''), cf_password := Some (lit ''pw'')\<rparr>))
   nonce_cache_new) = Inr ()"
proof -
  let ?ce = "sample_client_env\<lparr>ce_fs := (\<lambda>_. Some \<lparr>sf_mode = 420, sf_contents = Some []\<rparr>), ce_pkcs8 := (\<lambda>_. Some ()),
      ce_key_size := (\<lambda>_. 256), ce_encrypt := (\<lambda>_. Some), ce_b64_encode := map unat,
      ce_sha256 := (\<lambda>_. replicate 32 0), ce_wall := Some 1003\<rparr>"
  let ?c = "(with_host [])\<lparr>cf_rsa_public_key := Some [], cf_username := Some (lit ''bob''), cf_password := Some (lit ''pw'')\<rparr>"
  have nul: "from_utf8 [] = Some []" by (simp add: from_utf8_def utf8_decode.simps)
  have low: "to_ascii_lowercase (lit ''bob'') = lit ''bob''"
    by (simp add: to_ascii_lowercase_def ascii_lower_def lit_def)
  have "concat (replicate n [a, a]) = replicate (2 * n) a" for n and a :: nat by (induction n) simp_all
  from this [of 32 48] have hash: "sha256_hex (\<lambda>_. replicate 32 0) x = DUMMY_HASH" for x
    by (simp add: sha256_hex_def hex_digit_def DUMMY_HASH_def)
  have users: "load_authorized_users (ae_fs sample_env) (lit ''u'') = Inr (map_of (map lower_entry [(lit ''bob'', DUMMY_HASH)]))"
    by (intro load_users_file [where md = 384])
      (simp_all add: sample_env_def entry_ok_def dummy_hash lit_def is_whitespace_def valid_char_def)
  show ?thesis
    by (rule client_authenticates [of ?c "[]" "lit ''bob''" "lit ''pw''" ?ce "()" 1003 1000
          "as_bytes (token_payload 1003 (lit ''bob'') DUMMY_HASH)" sample_env "()" "lit ''k''" "lit ''u''"
          "map_of (map lower_entry [(lit ''bob'', DUMMY_HASH)])" nonce_cache_new 5])
      (simp_all only: users,
       simp_all add: hash low dummy_hash load_public_key_pem_def load_private_key_pem_def sample_env_def
        check_secret_file_mode_def read_to_string_def parse_key_def MIN_RSA_KEY_BYTES_def nul lit_def
        valid_char_def is_control_def abs_diff_def comp_def nonce_cache_new_def with_ttl_def)
qed

text \<open>Streams that open a TCP connection to the port of the server.\<close>

fun tcp_job :: "stream_job \<Rightarrow> bool" where
  "tcp_job (TcpSend _ _) = True"
| "tcp_job (TcpRecv _ _) = True"
| "tcp_job _ = False"

lemma create_streams_tcp:
  assumes "cf_transport (ts_config t) = Tcp"
  shows "list_all tcp_job (drop (length (ts_jobs t)) (ts_jobs (create_streams t)))"
  using assms by (auto simp: create_streams_def Let_def is_udp_def list_all_iff)

text \<open>Whatever becomes of a TCP test, its session has taken one connection per announced stream.\<close>

lemma session_listener:
  assumes control: "sv_listener s 0 = Inr c" "rx_ok (tcp_rx c)" "tx_ok (tcp_tx c)" "tcp_out c = []"
      "rx_bytes (tcp_rx c) = cookie @ frame obody @ rest"
    and streams: "\<And>i. i < unat (co_parallel opts) \<Longrightarrow> \<exists>d. sv_listener s (Suc i) = Inr d \<and> tcp.chan (cookie @ pay i) [] d"
    and json: "dec_options env obody = Some opts" "length obody \<le> MAX_JSON_FRAME_LEN"
    and sizes: "length cookie = COOKIE_LEN" "timeout \<noteq> Some 0"
    and opts: "validate_options opts = Inr ()" "\<not> co_udp opts" "auth_passes env opts (sv_nonces s)"
    and run: "serve_one_session env timeout s = (r, s')"
  shows "sv_listener s' = (\<lambda>i. sv_listener s (i + unat (co_parallel opts) + 1))"
proof -
  let ?n = "unat (co_parallel opts)" and ?l = "\<lambda>i. sv_listener s (Suc i)"
  obtain c' where c': "serve_one_session env timeout s =
      session_body env cookie timeout (s\<lparr>sv_listener := ?l, sv_control := c'\<rparr>)"
    "tcp.chan (frame obody @ rest) [] c'"
    by (rule serve_one_session_open [of s, OF control sizes])
  define s1 where "s1 = s\<lparr>sv_listener := ?l, sv_control := c'\<rparr>"
  have "srv (?l, sv_data_rx s, sv_nonces s, sv_lines s) (frame obody @ rest) [] s1"
    using c'(2) by (simp add: srv_def sv_rest_def s1_def)
  then obtain n s2 where s2: "admit_options env s1 = (Inr opts, s2)"
    "srv (?l, sv_data_rx s, n, sv_lines s) rest [message_code ParamExchange] s2"
    by (rule admit_options_passes [of _ _ _ _ obody _ s1 env, OF _ json opts(1,3)])
  obtain s3 where s3: "on_control (send_control_byte tcp_send CreateStreams) s2 = (Inr (), s3)"
    "srv (?l, sv_data_rx s, n, sv_lines s) rest ([message_code ParamExchange] @ [message_code CreateStreams]) s3"
    by (rule send_on_control [OF s2(2)])
  obtain ss where "accept_streams cookie timeout ?n ?l = (Inr ss, \<lambda>i. ?l (i + ?n))"
    using accept_streams_ok [of ?n ?l cookie pay, OF streams sizes] by blast
  then have "on_listener (accept_streams cookie timeout ?n) s3 = (Inr ss, s3\<lparr>sv_listener := \<lambda>i. ?l (i + ?n)\<rparr>)"
    using s3(2) by (simp add: on_listener_def srv_def sv_rest_def)
  with session_body_tcp [OF s2(1) opts(2), of cookie timeout] s3(1) run c'(1)
  have "tcp_rest env opts timeout ss (s3\<lparr>sv_listener := \<lambda>i. ?l (i + ?n)\<rparr>) = (r, s')"
    by (simp add: s1_def io_then_Inr io_bind_Inr)
  from streamless_frame(1) [OF streamless_tcp_rest this] show ?thesis by simp
qed

text \<open>
  (C27) Client and server disagree about the streams of a bidirectional TCP test. The client starts a
  sending and a receiving connection per stream, twice as many as the \<open>parallel\<close> it announces, and
  waits for all of them. The session of the sequential server, whatever becomes of it, takes one control
  connection and \<open>parallel\<close> data connections off the listener and leaves the other half there; so the next
  session of that server takes the first of these as its control connection and reads its payload as
  the client's options.
\<close>

theorem bidirectional_leftover:
  assumes client: "cf_transport (ts_config t) = Tcp" "cf_direction (ts_config t) = Bidirectional"
      "opts = client_options_sent cenv (ts_config t)" "validate_options opts = Inr ()"
    and control: "sv_listener s 0 = Inr c" "rx_ok (tcp_rx c)" "tx_ok (tcp_tx c)" "tcp_out c = []"
      "rx_bytes (tcp_rx c) = cookie @ frame obody @ rest"
    and conns: "\<And>i. i < length (ts_jobs (create_streams t)) - length (ts_jobs t) \<Longrightarrow> \<exists>d. sv_listener s (Suc i) = Inr d \<and>
      rx_ok (tcp_rx d) \<and> tx_ok (tcp_tx d) \<and> tcp_out d = [] \<and> rx_bytes (tcp_rx d) = cookie @ pay i"
    and server: "dec_options env obody = Some opts" "length obody \<le> MAX_JSON_FRAME_LEN" "length cookie = COOKIE_LEN"
      "timeout \<noteq> Some 0" "auth_passes env opts (sv_nonces s)"
    and run: "serve_one_session env timeout s = (r, s')"
  shows "length (ts_jobs (create_streams t)) = length (ts_jobs t) + 2 * unat (co_parallel opts) \<and>
    list_all tcp_job (drop (length (ts_jobs t)) (ts_jobs (create_streams t))) \<and>
    unat (expected_streams (ts_config t)) = 2 * unat (co_parallel opts) \<and>
    sv_listener s' = (\<lambda>i. sv_listener s (i + unat (co_parallel opts) + 1)) \<and>
    (\<exists>ctl. serve_one_session env' timeout s' =
        session_body env' cookie timeout (s'\<lparr>sv_listener := \<lambda>i. sv_listener s' (Suc i), sv_control := ctl\<rparr>) \<and>
      rx_bytes (tcp_rx ctl) = pay (unat (co_parallel opts)))"
proof -
  let ?c = "ts_config t" and ?n = "unat (co_parallel opts)"
  note f = client_options_sent_fields [of cenv ?c]
  have cf: "co_parallel opts = cf_parallel ?c" "\<not> co_udp opts" using client(1,3) f by (simp_all add: is_udp_def)
  from client(4) have n: "0 < ?n" "?n \<le> 128" by (simp_all add: validate_options_iff)
  have ex: "unat (expected_streams ?c) = 2 * ?n"
    using n client(2) by (simp add: cf expected_streams_unat stream_count_parallel direction_defs)
  have jobs: "length (ts_jobs (create_streams t)) = length (ts_jobs t) + 2 * ?n"
    using n ex by (simp add: cf length_create_streams)
  have d: "\<exists>d. sv_listener s (Suc i) = Inr d \<and> rx_ok (tcp_rx d) \<and> tx_ok (tcp_tx d) \<and> tcp_out d = [] \<and>
      rx_bytes (tcp_rx d) = cookie @ pay i" if "i < 2 * ?n" for i
    using conns [of i] that jobs by simp
  have "\<exists>d. sv_listener s (Suc i) = Inr d \<and> tcp.chan (cookie @ pay i) [] d" if "i < ?n" for i
    using d [of i] that by (auto simp: tcp.chan_def)
  from session_listener [OF control this server(1-4) client(4) cf(2) server(5) run]
  have l: "sv_listener s' = (\<lambda>i. sv_listener s (i + ?n + 1))" .
  from d [of ?n] n obtain d where "sv_listener s' 0 = Inr d" "rx_ok (tcp_rx d)" "tx_ok (tcp_tx d)" "tcp_out d = []"
    "rx_bytes (tcp_rx d) = cookie @ pay ?n" by (auto simp: l)
  from serve_one_session_open [of s', OF this server(3,4), of env'] obtain ctl where
    "serve_one_session env' timeout s' =
      session_body env' cookie timeout (s'\<lparr>sv_listener := \<lambda>i. sv_listener s' (Suc i), sv_control := ctl\<rparr>)"
    "tcp.chan (pay ?n) [] ctl" by blast
  with jobs ex l create_streams_tcp [OF client(1)] show ?thesis by (auto simp: tcp.chan_def)
qed

text \<open>A client with one stream, and a server that decodes its options.\<close>

definition sample_bidirectional :: config where
  "sample_bidirectional = (with_host [])\<lparr>cf_direction := Bidirectional\<rparr>"

definition sample_bidirectional_server :: server where
  "sample_bidirectional_server = (sample_server [])\<lparr>sv_listener := \<lambda>i.
     if i = 0 then Inr (sample_tcp [RxData (sample_cookie @ frame [1])])
     else Inr (sample_tcp [RxData (sample_cookie @ [of_nat i])])\<rparr>"

theorem bidirectional_leftover_witness:
  "\<exists>opts r s' ctl. opts = client_options_sent sample_client_env sample_bidirectional \<and>
     serve_one_session (sample_session_env opts) (Some 5) sample_bidirectional_server = (r, s') \<and>
     length (ts_jobs (create_streams (test_new sample_bidirectional (\<lambda>_. 0)))) = 2 \<and>
     serve_one_session (sample_session_env opts) (Some 5) s' = session_body (sample_session_env opts) sample_cookie (Some 5)
       (s'\<lparr>sv_listener := \<lambda>i. sv_listener s' (Suc i), sv_control := ctl\<rparr>) \<and>
     rx_bytes (tcp_rx ctl) = [2]"
proof -
  let ?t = "test_new sample_bidirectional (\<lambda>_. 0)"
  define opts where "opts = client_options_sent sample_client_env (ts_config ?t)"
  let ?env = "sample_session_env opts" and ?s = sample_bidirectional_server
  have c: "ts_config ?t = sample_bidirectional" "ts_jobs ?t = []" by (simp_all add: test_new_def)
  have t: "cf_transport (ts_config ?t) = Tcp" "cf_direction (ts_config ?t) = Bidirectional"
    by (simp_all add: c) (simp_all add: sample_bidirectional_def with_host_def)
  have v: "validate_options opts = Inr ()"
    unfolding opts_def c(1)
    by (simp add: validate_options_iff client_options_sent_def options_of_config_def tcp_defaults_def
        sample_bidirectional_def with_host_def DEFAULT_TCP_LEN_def Let_def)
  have p: "unat (co_parallel opts) = 1"
    unfolding opts_def c(1) by (simp add: client_options_sent_fields sample_bidirectional_def with_host_def)
  let ?c = "sample_tcp [RxData (sample_cookie @ frame [1])]"
  have ctl: "sv_listener ?s 0 = Inr ?c" "rx_ok (tcp_rx ?c)" "tx_ok (tcp_tx ?c)" "tcp_out ?c = []"
    "rx_bytes (tcp_rx ?c) = sample_cookie @ frame [1] @ []"
    by (simp_all add: sample_bidirectional_server_def sample_tcp_def sample_cookie_def)
  have l: "\<exists>d. sv_listener ?s (Suc i) = Inr d \<and> rx_ok (tcp_rx d) \<and> tx_ok (tcp_tx d) \<and> tcp_out d = [] \<and>
      rx_bytes (tcp_rx d) = sample_cookie @ [of_nat (Suc i)]" for i
    by (simp add: sample_bidirectional_server_def sample_tcp_def)
  have srv: "length [1 :: u8] \<le> MAX_JSON_FRAME_LEN" "length sample_cookie = COOKIE_LEN" "Some (5 :: duration) \<noteq> Some 0"
    "auth_passes ?env opts (sv_nonces ?s)"
    by (simp_all add: MAX_JSON_FRAME_LEN_def sample_cookie_def COOKIE_LEN_def auth_passes_def sample_session_env_def)
  obtain r s' where run: "serve_one_session ?env (Some 5) ?s = (r, s')" by fastforce
  note b = bidirectional_leftover [OF t opts_def v ctl, where pay = "\<lambda>i. [of_nat (Suc i)]" and env = ?env and timeout = "Some 5"
      and r = r and s' = s' and env' = ?env, OF l sample_decodes(1) srv run, unfolded c p]
  have j: "length (ts_jobs (create_streams ?t)) = 2" using b by simp
  obtain ctl where "serve_one_session ?env (Some 5) s' = session_body ?env sample_cookie (Some 5)
      (s'\<lparr>sv_listener := \<lambda>i. sv_listener s' (Suc i), sv_control := ctl\<rparr>)" "rx_bytes (tcp_rx ctl) = [2]"
    using b by auto
  moreover have "opts = client_options_sent sample_client_env sample_bidirectional" by (simp only: opts_def c(1))
  ultimately show ?thesis using run j by blast
qed

end
